(* ===== verification/Prelude.thy ===== *)
theory Prelude imports Complex_Main "HOL-Library.AList" begin

text \<open>
  Shared vocabulary of the development: the results of fallible code (every JavaScript
  exception is a value of \<open>js_error\<close>, one constructor per error class of the source),
  sequencing and mapping over such results, and the JavaScript \<open>Map\<close> as an association
  list in insertion order.
\<close>

named_theorems result_simps \<open>equations for sequencing results\<close>
named_theorems map_simps \<open>look-up equations for JavaScript maps\<close>

section \<open>JavaScript strings as code unit lists\<close>

text \<open>
  A JavaScript string is a sequence of UTF-16 code units; here each unit is a natural
  number. A literal of the source is written with \<open>js\<close>.
\<close>

type_synonym ustr = "nat list"

definition js :: "string \<Rightarrow> ustr" where
  "js s = map of_char s"

section \<open>Exceptions as values\<close>

text \<open>
  The error classes the modelled files throw; \<open>Error\<close> is the plain JavaScript class,
  \<open>AggregateError\<close> keeps only the number of collected errors in its place.
\<close>

datatype js_error =
    Error ustr
  | TypeError ustr
  | RangeError ustr
  | SyntaxError ustr
  | AggregateError "js_error list" ustr
  | BundleValidationError ustr
  | BundleVerificationError ustr
  | TrustedKeyError ustr
  | RateLimiterError ustr
  | RouteMatcherError ustr
  | WafEvaluatorError ustr
  | JwtAuthenticationError ustr
  | LivePolicyError ustr
  | ConfigurationClientError ustr
  | ConfigurationSyncError ustr
  | RuntimeConfigurationError ustr
  | UpstreamTimeoutError
  | GatewayRequestError nat ustr

text \<open>The \<open>message\<close> of an error.\<close>

fun error_message :: "js_error \<Rightarrow> ustr" where
  "error_message (Error m) = m"
| "error_message (TypeError m) = m"
| "error_message (RangeError m) = m"
| "error_message (SyntaxError m) = m"
| "error_message (AggregateError es m) = m"
| "error_message (BundleValidationError m) = m"
| "error_message (BundleVerificationError m) = m"
| "error_message (TrustedKeyError m) = m"
| "error_message (RateLimiterError m) = m"
| "error_message (RouteMatcherError m) = m"
| "error_message (WafEvaluatorError m) = m"
| "error_message (JwtAuthenticationError m) = m"
| "error_message (LivePolicyError m) = m"
| "error_message (ConfigurationClientError m) = m"
| "error_message (ConfigurationSyncError m) = m"
| "error_message (RuntimeConfigurationError m) = m"
| "error_message UpstreamTimeoutError = js ''upstream request timed out''"
| "error_message (GatewayRequestError status code) = code"

type_synonym 'a result = "js_error + 'a"

definition bind_result :: "'a result \<Rightarrow> ('a \<Rightarrow> 'b result) \<Rightarrow> 'b result" where
  "bind_result r f = (case r of Inl e \<Rightarrow> Inl e | Inr x \<Rightarrow> f x)"

text \<open>\<open>array.map((item, index) => f(index, item))\<close>, stopped by the first exception.\<close>

fun map_result :: "(nat \<Rightarrow> 'a \<Rightarrow> 'b result) \<Rightarrow> nat \<Rightarrow> 'a list \<Rightarrow> 'b list result" where
  "map_result f i [] = Inr []"
| "map_result f i (x # xs) =
     (case f i x of Inl e \<Rightarrow> Inl e
      | Inr y \<Rightarrow> (case map_result f (Suc i) xs of Inl e \<Rightarrow> Inl e | Inr ys \<Rightarrow> Inr (y # ys)))"

fun is_ok :: "'a result \<Rightarrow> bool" where
  "is_ok (Inl e) = False"
| "is_ok (Inr x) = True"

section \<open>JavaScript maps\<close>

text \<open>
  \<open>Map.set\<close> keeps the place of a key that is present and appends a new one, which is what
  \<open>AList.update\<close> does; \<open>Map.size\<close> is the length. Well-formed maps have distinct keys.
\<close>

type_synonym 'v js_map = "(ustr \<times> 'v) list"

definition map_ok :: "('k \<times> 'v) list \<Rightarrow> bool" where
  "map_ok m \<longleftrightarrow> distinct (map fst m)"

lemma bind_result_simps [simp, result_simps]:
  "bind_result (Inl e) f = Inl e"
  "bind_result (Inr x) f = f x"
  by (simp_all add: bind_result_def)

lemma bind_result_Inr [result_simps]:
  "bind_result r f = Inr y \<longleftrightarrow> (\<exists>x. r = Inr x \<and> f x = Inr y)"
  by (cases r) simp_all

lemma bind_result_Inl [result_simps]:
  "bind_result r f = Inl e \<longleftrightarrow> r = Inl e \<or> (\<exists>x. r = Inr x \<and> f x = Inl e)"
  by (cases r) simp_all

lemma option_case_Inr [result_simps]:
  "(case v of None \<Rightarrow> Inl e | Some x \<Rightarrow> f x) = Inr y \<longleftrightarrow> (\<exists>x. v = Some x \<and> f x = Inr y)"
  by (cases v) simp_all

lemma if_Inl_Inr [result_simps]: "(if c then Inl e else r) = Inr y \<longleftrightarrow> \<not> c \<and> r = Inr y"
  by simp

lemma is_ok_iff: "is_ok r \<longleftrightarrow> (\<exists>x. r = Inr x)"
  by (cases r) simp_all

lemma map_result_length: "map_result f i xs = Inr ys \<Longrightarrow> length ys = length xs"
  by (induction f i xs arbitrary: ys rule: map_result.induct) (auto split: sum.splits)

lemma map_result_nth:
  "map_result f i xs = Inr ys \<Longrightarrow> k < length xs \<Longrightarrow> f (i + k) (xs ! k) = Inr (ys ! k)"
proof (induction f i xs arbitrary: ys k rule: map_result.induct)
  case (1 f i)
  then show ?case by simp
next
  case (2 f i x xs)
  then show ?case by (cases k) (auto split: sum.splits)
qed

lemma map_result_set:
  assumes "map_result f i xs = Inr ys" and "y \<in> set ys"
  shows "\<exists>k x. x \<in> set xs \<and> f k x = Inr y"
proof -
  from assms(2) obtain n where "n < length ys" "ys ! n = y" by (auto simp: in_set_conv_nth)
  with assms(1) map_result_length [OF assms(1)] map_result_nth [OF assms(1)] show ?thesis
    by (metis nth_mem)
qed

lemma js_simps [simp]:
  "js [] = []"
  "js (s @ t) = js s @ js t"
  "length (js s) = length s"
  "js s = [] \<longleftrightarrow> s = []"
  "[] = js s \<longleftrightarrow> s = []"
  by (auto simp: js_def)

lemma js_inject [simp]: "js s = js t \<longleftrightarrow> s = t"
proof
  assume "js s = js t"
  then have "map (of_char :: char \<Rightarrow> nat) s = map of_char t" by (simp add: js_def)
  then show "s = t" by (rule map_injective) (auto simp: inj_def of_char_eq_iff)
qed simp

lemma map_ok_Nil [simp]: "map_ok []"
  by (simp add: map_ok_def)

lemma map_ok_update [simp, intro]: "map_ok m \<Longrightarrow> map_ok (AList.update k v m)"
  by (simp add: map_ok_def distinct_update)

lemma map_ok_delete [simp, intro]: "map_ok m \<Longrightarrow> map_ok (AList.delete k m)"
  by (simp add: map_ok_def distinct_delete)

lemma map_ok_filter [simp, intro]: "map_ok m \<Longrightarrow> map_ok (filter P m)"
  unfolding map_ok_def
  by (induction m) auto

lemma map_of_update [simp, map_simps]:
  "map_of (AList.update k v m) k' = (if k' = k then Some v else map_of m k')"
  by (simp add: update_conv')

lemma map_of_delete [simp, map_simps]:
  "map_of (AList.delete k m) k' = (if k' = k then None else map_of m k')"
  by (simp add: delete_conv')

lemma map_of_filter_val [map_simps]:
  "map_ok m \<Longrightarrow> map_of (filter (\<lambda>kv. P (snd kv)) m) k =
     (case map_of m k of None \<Rightarrow> None | Some v \<Rightarrow> if P v then Some v else None)"
  by (induction m) (force simp: map_ok_def map_of_eq_None_iff split: option.splits)+

lemma length_update_present:
  "map_of m k \<noteq> None \<Longrightarrow> length (AList.update k v m) = length m"
  by (induction m) auto

lemma length_update_absent:
  "map_of m k = None \<Longrightarrow> length (AList.update k v m) = Suc (length m)"
  by (induction m) auto

lemma set_update_subset: "set (AList.update k v m) \<subseteq> insert (k, v) (set m)"
  by (induction m) auto

lemma map_ok_set_iff: "map_ok m \<Longrightarrow> (k, v) \<in> set m \<longleftrightarrow> map_of m k = Some v"
  by (simp add: map_ok_def)

lemma length_delete_le: "length (AList.delete k m) \<le> length m"
  by (simp add: AList.delete_eq)

lemma length_delete_present:
  "map_of m k \<noteq> None \<Longrightarrow> length (AList.delete k m) < length m"
proof -
  assume "map_of m k \<noteq> None"
  then obtain v where "(k, v) \<in> set m" by (auto dest: map_of_SomeD)
  then show ?thesis
    by (auto simp: AList.delete_eq intro: length_filter_less)
qed

text \<open>How many values of a map satisfy a predicate.\<close>

definition count_values :: "('v \<Rightarrow> bool) \<Rightarrow> ('k \<times> 'v) list \<Rightarrow> int" where
  "count_values P m = int (length (filter (\<lambda>kv. P (snd kv)) m))"

lemma count_values_Nil [simp, map_simps]: "count_values P [] = 0"
  by (simp add: count_values_def)

lemma count_values_nonneg [simp]: "0 \<le> count_values P m"
  by (simp add: count_values_def)

lemma count_values_Cons: "count_values P (kv # m) = (if P (snd kv) then 1 else 0) + count_values P m"
  by (simp add: count_values_def)

lemma count_values_update [map_simps]:
  "count_values P (AList.update k v m) = count_values P m + (if P v then 1 else 0)
     - (case map_of m k of None \<Rightarrow> 0 | Some u \<Rightarrow> if P u then 1 else 0)"
  by (induction m) (auto simp: count_values_Cons)

lemma count_values_delete [map_simps]:
  "map_ok m \<Longrightarrow> count_values P (AList.delete k m) = count_values P m
     - (case map_of m k of None \<Rightarrow> 0 | Some u \<Rightarrow> if P u then 1 else 0)"
proof (induction m)
  case (Cons kv m)
  have "k \<notin> fst ` set m \<Longrightarrow> map_of m k = None" by (simp add: map_of_eq_None_iff)
  moreover have "k \<notin> fst ` set m \<Longrightarrow> AList.delete k m = m" by (auto simp: AList.delete_eq filter_id_conv image_def)
  ultimately show ?case using Cons by (cases kv) (auto simp: count_values_Cons map_ok_def)
qed simp

end
