(* ===== verification/JsNumber.thy ===== *)
theory JsNumber imports Prelude begin

text \<open>
  JavaScript numbers: IEEE 754 doubles as exact rationals with the three special values.
  \<open>fl\<close> rounds a rational to the nearest double (ties to even, gradual underflow, overflow to
  infinity); every arithmetic operation is the exact one followed by \<open>fl\<close>. The two zeros are
  one value, since nothing in the modelled code tells them apart.
\<close>

datatype jsnum = Fin rat | PInf | NInf | NaN

definition num :: "int \<Rightarrow> jsnum" where
  "num n = Fin (of_int n)"

section \<open>Rounding to doubles\<close>

definition pow2 :: "int \<Rightarrow> rat" where
  "pow2 e = 2 powi e"

function ilog2 :: "int \<Rightarrow> int" where
  "ilog2 n = (if n < 2 then 0 else 1 + ilog2 (n div 2))"
  by pat_completeness auto
termination
  by (relation "measure nat") auto

declare ilog2.simps [simp del]

definition rlog2 :: "rat \<Rightarrow> int" where
  "rlog2 x = (let nd = quotient_of x;
                  k = ilog2 (fst nd) - ilog2 (snd nd)
              in if pow2 k \<le> x then k else k - 1)"

definition round_half_even :: "rat \<Rightarrow> int" where
  "round_half_even y = (let f = \<lfloor>y\<rfloor>; r = y - of_int f
     in if r < 1 / 2 then f else if r > 1 / 2 then f + 1 else if even f then f else f + 1)"

definition fl_exponent :: "rat \<Rightarrow> int" where
  "fl_exponent x = max (- 1074) (rlog2 x - 52)"

definition fl_magnitude :: "rat \<Rightarrow> rat" where
  "fl_magnitude x = of_int (round_half_even (x / pow2 (fl_exponent x))) * pow2 (fl_exponent x)"

definition fl :: "rat \<Rightarrow> jsnum" where
  "fl x = (if x = 0 then Fin 0
     else let v = fl_magnitude \<bar>x\<bar>
       in if rlog2 v \<ge> 1024 then (if x > 0 then PInf else NInf) else Fin (sgn x * v))"

section \<open>Operations of the source\<close>

fun jadd :: "jsnum \<Rightarrow> jsnum \<Rightarrow> jsnum" where
  "jadd (Fin a) (Fin b) = fl (a + b)"
| "jadd NaN b = NaN"
| "jadd a NaN = NaN"
| "jadd PInf NInf = NaN"
| "jadd NInf PInf = NaN"
| "jadd PInf b = PInf"
| "jadd NInf b = NInf"
| "jadd a PInf = PInf"
| "jadd a NInf = NInf"

fun jneg :: "jsnum \<Rightarrow> jsnum" where
  "jneg (Fin a) = Fin (- a)"
| "jneg PInf = NInf"
| "jneg NInf = PInf"
| "jneg NaN = NaN"

definition jsub :: "jsnum \<Rightarrow> jsnum \<Rightarrow> jsnum" where
  "jsub a b = jadd a (jneg b)"

fun jinf :: "rat \<Rightarrow> jsnum" where
  "jinf s = (if s > 0 then PInf else if s < 0 then NInf else NaN)"

fun jmul :: "jsnum \<Rightarrow> jsnum \<Rightarrow> jsnum" where
  "jmul (Fin a) (Fin b) = fl (a * b)"
| "jmul NaN b = NaN"
| "jmul a NaN = NaN"
| "jmul PInf (Fin b) = jinf b"
| "jmul NInf (Fin b) = jinf (- b)"
| "jmul (Fin a) PInf = jinf a"
| "jmul (Fin a) NInf = jinf (- a)"
| "jmul PInf PInf = PInf"
| "jmul NInf NInf = PInf"
| "jmul PInf NInf = NInf"
| "jmul NInf PInf = NInf"

text \<open>Division; a zero divisor is taken as \<open>+0\<close> (the code never divides by zero).\<close>

fun jdiv :: "jsnum \<Rightarrow> jsnum \<Rightarrow> jsnum" where
  "jdiv (Fin a) (Fin b) = (if b = 0 then jinf a else fl (a / b))"
| "jdiv NaN b = NaN"
| "jdiv a NaN = NaN"
| "jdiv (Fin a) PInf = Fin 0"
| "jdiv (Fin a) NInf = Fin 0"
| "jdiv PInf (Fin b) = (if b < 0 then NInf else PInf)"
| "jdiv NInf (Fin b) = (if b < 0 then PInf else NInf)"
| "jdiv a b = NaN"

fun jfloor :: "jsnum \<Rightarrow> jsnum" where
  "jfloor (Fin a) = num \<lfloor>a\<rfloor>"
| "jfloor a = a"

fun jceil :: "jsnum \<Rightarrow> jsnum" where
  "jceil (Fin a) = num \<lceil>a\<rceil>"
| "jceil a = a"

fun jle :: "jsnum \<Rightarrow> jsnum \<Rightarrow> bool" where
  "jle (Fin a) (Fin b) = (a \<le> b)"
| "jle NaN b = False"
| "jle a NaN = False"
| "jle NInf b = True"
| "jle a PInf = True"
| "jle a b = False"

fun jlt :: "jsnum \<Rightarrow> jsnum \<Rightarrow> bool" where
  "jlt (Fin a) (Fin b) = (a < b)"
| "jlt NaN b = False"
| "jlt a NaN = False"
| "jlt NInf NInf = False"
| "jlt NInf b = True"
| "jlt PInf b = False"
| "jlt a PInf = True"
| "jlt a NInf = False"

text \<open>\<open>===\<close> on numbers.\<close>

definition jeq :: "jsnum \<Rightarrow> jsnum \<Rightarrow> bool" where
  "jeq a b \<longleftrightarrow> a \<noteq> NaN \<and> a = b"

text \<open>\<open>Math.max(a, b)\<close>.\<close>

definition jmax :: "jsnum \<Rightarrow> jsnum \<Rightarrow> jsnum" where
  "jmax a b = (if a = NaN \<or> b = NaN then NaN else if jle a b then b else a)"

fun is_finite :: "jsnum \<Rightarrow> bool" where
  "is_finite (Fin a) = True"
| "is_finite a = False"

definition max_safe :: int where
  "max_safe = 2 ^ 53 - 1"

text \<open>\<open>Number.isSafeInteger\<close>.\<close>

fun is_safe_integer :: "jsnum \<Rightarrow> bool" where
  "is_safe_integer (Fin a) = (of_int \<lfloor>a\<rfloor> = a \<and> \<bar>\<lfloor>a\<rfloor>\<bar> \<le> max_safe)"
| "is_safe_integer a = False"

text \<open>The integer a number that passed \<open>isSafeInteger\<close> stands for.\<close>

fun int_of_num :: "jsnum \<Rightarrow> int" where
  "int_of_num (Fin a) = \<lfloor>a\<rfloor>"
| "int_of_num a = 0"

text \<open>The check \<open>!Number.isSafeInteger(value) || value <= 0\<close> of every constructor.\<close>

definition is_positive_safe :: "jsnum \<Rightarrow> bool" where
  "is_positive_safe a \<longleftrightarrow> is_safe_integer a \<and> \<not> jle a (num 0)"

section \<open>Rounding is exact where it matters\<close>

lemma pow2_pos [simp]: "0 < pow2 e"
  by (simp add: pow2_def)

lemma pow2_neq_0 [simp]: "pow2 e \<noteq> 0"
  by (simp add: pow2_def)

lemma pow2_add: "pow2 (a + b) = pow2 a * pow2 b"
  by (simp add: pow2_def power_int_add)

lemma pow2_diff: "pow2 (a - b) = pow2 a / pow2 b"
  by (simp add: pow2_def power_int_diff)

lemma pow2_nat: "pow2 (int n) = 2 ^ n"
  by (simp add: pow2_def)

lemma pow2_minus_nat: "pow2 (- int n) = 1 / 2 ^ n"
  by (simp add: pow2_def power_int_minus divide_inverse)

lemma pow2_Suc: "pow2 (e + 1) = 2 * pow2 e"
  by (simp add: pow2_add) (simp add: pow2_def)

lemma pow2_mono: "a \<le> b \<Longrightarrow> pow2 a \<le> pow2 b"
  by (simp add: pow2_def power_int_increasing)

lemma pow2_less_cancel: "pow2 a < pow2 b \<Longrightarrow> a < b"
  using pow2_mono [of b a] by (cases "b \<le> a") auto

lemma ilog2_bounds:
  "0 < n \<Longrightarrow> pow2 (ilog2 n) \<le> of_int n \<and> of_int n < 2 * pow2 (ilog2 n)"
proof (induction n rule: ilog2.induct)
  case (1 n)
  show ?case
  proof (cases "n < 2")
    case True
    with 1 have "n = 1" by simp
    then show ?thesis by (simp add: ilog2.simps [of 1] pow2_def)
  next
    case False
    with 1 have IH: "pow2 (ilog2 (n div 2)) \<le> of_int (n div 2) \<and> of_int (n div 2) < 2 * pow2 (ilog2 (n div 2))"
      by simp
    have "2 * (n div 2) \<le> n" "n \<le> 2 * (n div 2) + 1" by simp_all
    then have n: "2 * of_int (n div 2) \<le> (of_int n :: rat)" "of_int n \<le> (2 * of_int (n div 2) + 1 :: rat)"
      by linarith+
    have s: "ilog2 n = ilog2 (n div 2) + 1" using False by (subst ilog2.simps) simp
    have nn: "0 \<le> ilog2 m" for m
    proof (induction m rule: ilog2.induct)
      case (1 m)
      then show ?case by (subst ilog2.simps) auto
    qed
    define k where "k = nat (ilog2 (n div 2))"
    have k: "pow2 (ilog2 (n div 2)) = of_int (2 ^ k)" using nn [of "n div 2"] pow2_nat [of k]
      by (simp add: k_def)
    from IH have "n div 2 < 2 * 2 ^ k" unfolding k
      by (metis of_int_less_iff of_int_mult of_int_numeral)
    then have "n div 2 + 1 \<le> 2 * 2 ^ k" by simp
    then have "of_int (n div 2 + 1) \<le> (of_int (2 * 2 ^ k) :: rat)" by (simp only: of_int_le_iff)
    then have "of_int (n div 2) + 1 \<le> 2 * (of_int (2 ^ k) :: rat)"
      by (simp only: of_int_add of_int_mult of_int_1 of_int_numeral)
    with IH n show ?thesis unfolding s pow2_Suc k by (intro conjI) linarith+
  qed
qed

lemma rlog2_bounds:
  assumes "0 < x"
  shows "pow2 (rlog2 x) \<le> x \<and> x < pow2 (rlog2 x + 1)"
proof -
  obtain n d where nd: "quotient_of x = (n, d)" by (cases "quotient_of x")
  then have x: "x = of_int n / of_int d" and d: "0 < d"
    by (simp_all add: quotient_of_div quotient_of_denom_pos)
  with assms have n: "0 < n" by (simp add: zero_less_divide_iff)
  define a b where "a = ilog2 n" and "b = ilog2 d"
  have A: "pow2 a \<le> of_int n" "of_int n < 2 * pow2 a"
    and B: "pow2 b \<le> of_int d" "of_int d < 2 * pow2 b"
    using ilog2_bounds [OF n] ilog2_bounds [OF d] by (simp_all add: a_def b_def)
  define k where "k = a - b"
  have up: "x < 2 * pow2 k"
  proof -
    have "of_int n * pow2 b < (2 * pow2 a) * of_int d"
      using A B by (intro mult_less_le_imp_less) auto
    then show ?thesis using d by (simp add: x k_def pow2_diff field_simps)
  qed
  have lo: "pow2 k / 2 \<le> x"
  proof -
    have "pow2 a * of_int d \<le> of_int n * (2 * pow2 b)"
      using A B d by (intro mult_mono) auto
    then show ?thesis using d by (simp add: x k_def pow2_diff field_simps)
  qed
  have r: "rlog2 x = (if pow2 k \<le> x then k else k - 1)"
    by (simp add: rlog2_def nd k_def a_def b_def Let_def)
  show ?thesis
    using up lo by (auto simp: r pow2_Suc pow2_diff) (simp_all add: pow2_def)
qed

lemma round_half_even_ge: "of_int m \<le> y \<Longrightarrow> m \<le> round_half_even y"
  using le_floor_iff [of m y] by (auto simp: round_half_even_def Let_def)

lemma round_half_even_le: "y \<le> of_int m \<Longrightarrow> round_half_even y \<le> m"
proof -
  assume y: "y \<le> of_int m"
  then have f: "\<lfloor>y\<rfloor> \<le> m" by linarith
  show ?thesis
  proof (cases "\<lfloor>y\<rfloor> = m")
    case True
    with y have "y - of_int \<lfloor>y\<rfloor> \<le> 0" by simp
    with True show ?thesis by (auto simp: round_half_even_def Let_def)
  next
    case False
    with f show ?thesis by (auto simp: round_half_even_def Let_def)
  qed
qed

lemma round_half_even_less: "y < of_int m - 1 / 2 \<Longrightarrow> round_half_even y < m"
  by (auto simp: round_half_even_def Let_def) linarith+

lemma round_half_even_int [simp]: "round_half_even (of_int m) = m"
  by (intro order_antisym round_half_even_ge round_half_even_le) simp_all

lemma rlog2_less: "0 < x \<Longrightarrow> x < pow2 k \<Longrightarrow> rlog2 x < k"
  using rlog2_bounds [of x] pow2_less_cancel [of "rlog2 x" k] by linarith


lemma rlog2_small: "0 < x \<Longrightarrow> x \<le> of_int (2 ^ 53) \<Longrightarrow> \<not> rlog2 x \<ge> 1024"
proof -
  assume x: "0 < x" "x \<le> of_int (2 ^ 53)"
  moreover have "pow2 53 < pow2 54" by (simp add: pow2_def)
  ultimately have "x < pow2 54" using pow2_nat [of 53] by simp
  with x(1) have "rlog2 x < 54" by (rule rlog2_less)
  then show ?thesis by simp
qed

lemma int_multiple_pow2: "e \<le> 0 \<Longrightarrow> \<exists>m. of_int y = of_int m * pow2 e"
proof -
  assume "e \<le> 0"
  then have e: "e = - int (nat (- e))" by simp
  from pow2_minus_nat [of "nat (- e)"] e have "pow2 e = 1 / 2 ^ nat (- e)" by simp
  then have "of_int y = of_int (y * 2 ^ nat (- e)) * pow2 e" by simp
  then show ?thesis by blast
qed

lemma fl_magnitude_exact:
  "x = of_int m * pow2 (fl_exponent x) \<Longrightarrow> fl_magnitude x = x"
proof -
  assume x: "x = of_int m * pow2 (fl_exponent x)"
  then have "x / pow2 (fl_exponent x) = of_int m" by (metis nonzero_mult_div_cancel_right pow2_neq_0)
  with x show ?thesis by (simp add: fl_magnitude_def)
qed

lemma fl_magnitude_int:
  assumes "0 < n" and "n \<le> 2 ^ 53"
  shows "fl_magnitude (of_int n) = of_int n"
proof (cases "n = 2 ^ 53")
  case True
  define x where "x = (of_int n :: rat)"
  have x: "x = pow2 53" using True pow2_nat [of 53] by (simp add: x_def)
  have "rlog2 x < 54" by (rule rlog2_less) (simp_all add: x pow2_def)
  moreover have "53 < rlog2 x + 1"
    using rlog2_bounds [of x] pow2_less_cancel [of 53 "rlog2 x + 1"] by (simp add: x)
  ultimately have "fl_exponent x = 1" by (simp add: fl_exponent_def)
  then have "x = of_int (2 ^ 52) * pow2 (fl_exponent x)" by (simp add: x pow2_def)
  then show ?thesis by (fold x_def) (rule fl_magnitude_exact)
next
  case False
  with assms have "n < 2 ^ 53" by simp
  then have "(of_int n :: rat) < of_int (2 ^ 53)" by (simp only: of_int_less_iff)
  then have "(of_int n :: rat) < pow2 53" using pow2_nat [of 53] by simp
  then have "rlog2 (of_int n) < 53" using assms by (intro rlog2_less) auto
  then have "fl_exponent (of_int n) \<le> 0" by (simp add: fl_exponent_def)
  from int_multiple_pow2 [OF this] show ?thesis by (blast intro: fl_magnitude_exact)
qed

lemma fl_of_int [simp]: "\<bar>n\<bar> \<le> 2 ^ 53 \<Longrightarrow> fl (of_int n) = num n"
proof (cases "n = 0")
  case False
  assume n: "\<bar>n\<bar> \<le> 2 ^ 53"
  from False n have m: "fl_magnitude (of_int \<bar>n\<bar>) = of_int \<bar>n\<bar>"
    by (intro fl_magnitude_int) auto
  have "(of_int \<bar>n\<bar> :: rat) \<le> of_int (2 ^ 53)" using n by (simp only: of_int_le_iff)
  then have "\<not> rlog2 (of_int \<bar>n\<bar>) \<ge> 1024" using False by (intro rlog2_small) auto
  with False m show ?thesis
    by (simp add: fl_def Let_def sgn_if num_def)
qed (simp add: fl_def num_def)

lemma fl_exponent_quotient:
  fixes a w :: int
  assumes "0 < a" "a < 2 ^ 53" "0 < w" "w \<le> 2 ^ 53"
  defines "x \<equiv> of_int a / of_int w"
  shows "fl_exponent x \<le> 0" and "pow2 (fl_exponent x) / 2 < 1 / of_int w"
proof -
  have x: "0 < x" using assms by simp
  have aw: "(of_int a :: rat) < 2 ^ 53"
  proof -
    have "(of_int a :: rat) < of_int (2 ^ 53)" using assms(2) by (simp only: of_int_less_iff)
    then show ?thesis by simp
  qed
  have w1: "(1 :: rat) \<le> of_int w" and w53: "(of_int w :: rat) \<le> 2 ^ 53"
  proof -
    show "(1 :: rat) \<le> of_int w" using assms(3) by simp
    have "(of_int w :: rat) \<le> of_int (2 ^ 53)" using assms(4) by (simp only: of_int_le_iff)
    then show "(of_int w :: rat) \<le> 2 ^ 53" by simp
  qed
  have "x \<le> of_int a" unfolding x_def
    using assms(1) w1 by (simp add: divide_le_eq mult_le_cancel_left1)
  with aw have "x < pow2 53" using pow2_nat [of 53] by simp
  with x have k: "rlog2 x < 53" by (rule rlog2_less)
  then show "fl_exponent x \<le> 0" by (simp add: fl_exponent_def)
  show "pow2 (fl_exponent x) / 2 < 1 / of_int w"
  proof (cases "- 1074 \<le> rlog2 x - 52")
    case True
    then have "fl_exponent x = rlog2 x - 52" by (simp add: fl_exponent_def)
    then have "pow2 (fl_exponent x) = pow2 (rlog2 x) / 2 ^ 52"
      using pow2_nat [of 52] by (simp add: pow2_diff)
    also have "\<dots> \<le> x / 2 ^ 52" using rlog2_bounds [OF x] by (simp add: divide_right_mono)
    finally have "pow2 (fl_exponent x) / 2 \<le> x / 2 ^ 53" by simp
    also have "\<dots> < 1 / of_int w" using aw assms(3) by (simp add: x_def field_simps)
    finally show ?thesis .
  next
    case False
    then have "fl_exponent x = - 1074" by (simp add: fl_exponent_def)
    then have "pow2 (fl_exponent x) \<le> pow2 (- 54)" by (simp add: pow2_mono)
    also have "\<dots> = 1 / 2 ^ 54" using pow2_minus_nat [of 54] by simp
    finally have "pow2 (fl_exponent x) / 2 \<le> 1 / 2 ^ 55" by simp
    also have "\<dots> < 1 / 2 ^ 53" by simp
    also have "\<dots> \<le> 1 / of_int w" using w53 w1 by (intro frac_le) linarith+
    finally show ?thesis .
  qed
qed

lemma fl_magnitude_ge: "e = fl_exponent x \<Longrightarrow> of_int m * pow2 e \<le> x \<Longrightarrow> of_int m * pow2 e \<le> fl_magnitude x"
  by (auto simp: fl_magnitude_def le_divide_eq intro!: round_half_even_ge)

lemma fl_magnitude_le: "e = fl_exponent x \<Longrightarrow> x \<le> of_int m * pow2 e \<Longrightarrow> fl_magnitude x \<le> of_int m * pow2 e"
  by (auto simp: fl_magnitude_def divide_le_eq intro!: round_half_even_le)

lemma fl_magnitude_less:
  assumes "e = fl_exponent x" and "x < of_int m * pow2 e - pow2 e / 2"
  shows "fl_magnitude x < of_int m * pow2 e"
proof -
  have "x < (of_int m - 1 / 2) * pow2 e" using assms(2) by (simp add: left_diff_distrib)
  then have "x / pow2 e < of_int m - 1 / 2" by (simp add: divide_less_eq)
  then have "round_half_even (x / pow2 e) < m" by (rule round_half_even_less)
  then show ?thesis using assms(1) by (simp add: fl_magnitude_def)
qed

lemma round_half_even_greater: "of_int m + 1 / 2 < y \<Longrightarrow> m < round_half_even y"
proof -
  assume y: "of_int m + 1 / 2 < y"
  show ?thesis
  proof (cases "\<lfloor>y\<rfloor> = m")
    case True
    with y have "1 / 2 < y - of_int \<lfloor>y\<rfloor>" by simp
    with True show ?thesis by (simp add: round_half_even_def Let_def)
  next
    case False
    from y have "m \<le> \<lfloor>y\<rfloor>" by linarith
    with False show ?thesis by (auto simp: round_half_even_def Let_def)
  qed
qed

lemma fl_magnitude_greater:
  assumes "e = fl_exponent x" and "of_int m * pow2 e + pow2 e / 2 < x"
  shows "of_int m * pow2 e < fl_magnitude x"
proof -
  have "(of_int m + 1 / 2) * pow2 e < x" using assms(2) by (simp add: distrib_right)
  then have "of_int m + 1 / 2 < x / pow2 e" by (simp add: less_divide_eq)
  then have "m < round_half_even (x / pow2 e)" by (rule round_half_even_greater)
  then show ?thesis using assms(1) by (simp add: fl_magnitude_def)
qed

lemma quotient_bounds:
  fixes a w :: int
  assumes "0 < w"
  shows "of_int (a div w) \<le> (of_int a / of_int w :: rat)"
    and "(of_int a / of_int w :: rat) \<le> of_int (a div w + 1) - 1 / of_int w"
    and "(of_int a / of_int w :: rat) \<le> of_int (- (- a div w))"
    and "of_int (- (- a div w) - 1) + 1 / of_int w \<le> (of_int a / of_int w :: rat)"
proof -
  have "(a div w) * w \<le> a" and "a + 1 \<le> (a div w + 1) * w"
    and "a \<le> - (- a div w) * w" and "(- (- a div w) - 1) * w + 1 \<le> a"
    using div_mult_mod_eq [of a w] div_mult_mod_eq [of "- a" w]
      pos_mod_bound [OF assms, of a] pos_mod_sign [OF assms, of a]
      pos_mod_bound [OF assms, of "- a"] pos_mod_sign [OF assms, of "- a"]
    unfolding distrib_right left_diff_distrib mult_minus_left by linarith+
  then have "of_int ((a div w) * w) \<le> (of_int a :: rat)" and "of_int (a + 1) \<le> (of_int ((a div w + 1) * w) :: rat)"
    and "(of_int a :: rat) \<le> of_int (- (- a div w) * w)"
    and "of_int ((- (- a div w) - 1) * w + 1) \<le> (of_int a :: rat)"
    by (simp_all only: of_int_le_iff)
  note N = this
  have D: "of_int (- (- a div w) - 1) + 1 / of_int w = (of_int ((- (- a div w) - 1) * w + 1) / of_int w :: rat)"
    "of_int (a div w + 1) - 1 / of_int w = (of_int ((a div w + 1) * w - 1) / of_int w :: rat)"
    using assms by (simp_all add: add_divide_distrib diff_divide_distrib)
  from N(2) have "of_int a \<le> (of_int ((a div w + 1) * w - 1) :: rat)" by simp
  with N assms show "of_int (a div w) \<le> (of_int a / of_int w :: rat)"
    and "(of_int a / of_int w :: rat) \<le> of_int (a div w + 1) - 1 / of_int w"
    and "(of_int a / of_int w :: rat) \<le> of_int (- (- a div w))"
    and "of_int (- (- a div w) - 1) + 1 / of_int w \<le> (of_int a / of_int w :: rat)"
    unfolding D by (simp_all add: le_divide_eq divide_le_eq divide_le_cancel)
qed

lemma fl_quotient:
  fixes a w :: int
  assumes "0 < a" "a < 2 ^ 53" "0 < w" "w \<le> 2 ^ 53"
  obtains v where "fl (of_int a / of_int w) = Fin v" and "\<lfloor>v\<rfloor> = a div w" and "\<lceil>v\<rceil> = - (- a div w)"
proof -
  define x :: rat where "x = of_int a / of_int w"
  define e where "e = fl_exponent x"
  have x: "0 < x" using assms by (simp add: x_def)
  note E = fl_exponent_quotient [OF assms, folded x_def, folded e_def]
  note Q = quotient_bounds [OF assms(3), of a, folded x_def]
  obtain m1 where m1: "of_int (a div w) = of_int m1 * pow2 e" using int_multiple_pow2 [OF E(1)] by blast
  obtain m2 where m2: "of_int (a div w + 1) = of_int m2 * pow2 e" using int_multiple_pow2 [OF E(1)] by blast
  obtain m3 where m3: "of_int (- (- a div w)) = of_int m3 * pow2 e" using int_multiple_pow2 [OF E(1)] by blast
  obtain m4 where m4: "of_int (- (- a div w) - 1) = of_int m4 * pow2 e" using int_multiple_pow2 [OF E(1)] by blast
  define v where "v = fl_magnitude x"
  have v1: "of_int (a div w) \<le> v" using fl_magnitude_ge [OF e_def, of m1] Q(1) by (simp add: m1 v_def)
  have v2: "v < of_int (a div w + 1)"
    using fl_magnitude_less [OF e_def, of m2] Q(2) E(2) by (simp only: m2 v_def)
  have v3: "v \<le> of_int (- (- a div w))" using fl_magnitude_le [OF e_def, of m3] Q(3) by (simp only: m3 v_def)
  have v4: "of_int (- (- a div w) - 1) < v"
    using fl_magnitude_greater [OF e_def, of m4] Q(4) E(2) by (simp only: m4 v_def)
  have "a div w \<le> a" using assms by (simp add: zdiv_mono2 [of a 1 w, simplified])
  with assms(2) have "a div w + 1 \<le> 2 ^ 53" by simp
  then have "(of_int (a div w + 1) :: rat) \<le> of_int (2 ^ 53)" by (simp only: of_int_le_iff)
  then have "v \<le> of_int (2 ^ 53)" using v2 by linarith
  moreover have "- a div w < 0" using assms(1,3) by (simp only: pos_imp_zdiv_neg_iff neg_less_0_iff_less)
  then have "(0 :: rat) \<le> of_int (- (- a div w) - 1)" by simp
  then have "0 < v" using v4 by linarith
  ultimately have "\<not> rlog2 v \<ge> 1024" by (intro rlog2_small)
  then have "fl x = Fin v" using x by (simp add: fl_def Let_def v_def)
  moreover have "\<lfloor>v\<rfloor> = a div w" using v1 v2 by (simp add: floor_eq_iff)
  moreover have "\<lceil>v\<rceil> = - (- a div w)" using v3 v4 by (simp add: ceiling_eq_iff)
  ultimately show ?thesis using that x_def by blast
qed

section \<open>Arithmetic on safe integers\<close>

named_theorems exact_arith \<open>operations that are exact on integers within 2 ^ 53\<close>

lemma jadd_int [exact_arith]: "\<bar>a + b\<bar> \<le> 2 ^ 53 \<Longrightarrow> jadd (num a) (num b) = num (a + b)"
  using fl_of_int [of "a + b"] by (simp add: num_def)

lemma jsub_int [exact_arith]: "\<bar>a - b\<bar> \<le> 2 ^ 53 \<Longrightarrow> jsub (num a) (num b) = num (a - b)"
  using fl_of_int [of "a - b"] by (simp add: jsub_def num_def)

lemma jmul_int [exact_arith]: "\<bar>a * b\<bar> \<le> 2 ^ 53 \<Longrightarrow> jmul (num a) (num b) = num (a * b)"
  using fl_of_int [of "a * b"] by (simp add: num_def)

lemma jfloor_jdiv_int [exact_arith]:
  assumes "0 \<le> a" "a < 2 ^ 53" "0 < w" "w \<le> 2 ^ 53"
  shows "jfloor (jdiv (num a) (num w)) = num (a div w)"
proof (cases "a = 0")
  case False
  with assms show ?thesis by (auto simp: num_def intro: fl_quotient [of a w])
next
  case True
  then show ?thesis using assms by (simp add: fl_def num_def)
qed

lemma jceil_jdiv_int [exact_arith]:
  assumes "0 \<le> a" "a < 2 ^ 53" "0 < w" "w \<le> 2 ^ 53"
  shows "jceil (jdiv (num a) (num w)) = num (- (- a div w))"
proof (cases "a = 0")
  case False
  with assms show ?thesis by (auto simp: num_def intro: fl_quotient [of a w])
next
  case True
  then show ?thesis using assms by (simp add: fl_def num_def)
qed

lemma num_inject [simp]: "num a = num b \<longleftrightarrow> a = b"
  by (simp add: num_def)

lemma num_neq [simp]: "num a \<noteq> PInf" "num a \<noteq> NInf" "num a \<noteq> NaN"
  "PInf \<noteq> num a" "NInf \<noteq> num a" "NaN \<noteq> num a"
  by (simp_all add: num_def)

lemma jcompare_int [simp]:
  "jle (num a) (num b) \<longleftrightarrow> a \<le> b"
  "jlt (num a) (num b) \<longleftrightarrow> a < b"
  "jeq (num a) (num b) \<longleftrightarrow> a = b"
  "jmax (num a) (num b) = num (max a b)"
  by (auto simp: jeq_def jmax_def max_def num_def)

lemma is_finite_num [simp]: "is_finite (num a)"
  by (simp add: num_def)

lemma is_safe_integer_num [simp]: "is_safe_integer (num a) \<longleftrightarrow> \<bar>a\<bar> \<le> max_safe"
  by (simp add: num_def)

lemma int_of_num_num [simp]: "int_of_num (num n) = n"
  by (simp add: num_def)

lemma is_safe_integer_iff: "is_safe_integer a \<longleftrightarrow> (\<exists>n. a = num n \<and> \<bar>n\<bar> \<le> max_safe)"
  by (cases a) (auto simp: num_def)

lemma is_positive_safe_num: "is_positive_safe a \<longleftrightarrow> (\<exists>n. a = num n \<and> 0 < n \<and> n \<le> max_safe)"
  by (auto simp: is_positive_safe_def is_safe_integer_iff)

declare jadd.simps(1) [simp del] jmul.simps(1) [simp del] jdiv.simps(1) [simp del]

end
