(* ===== verification/JsString.thy ===== *)
theory JsString imports JsNumber "HOL-Library.Sublist" begin

text \<open>
  The methods of JavaScript strings that the modelled code calls, on lists of UTF-16 code
  units. Case folding covers ASCII: the strings it is applied to are HTTP tokens, header
  values and host names, and the constants they are compared with hold no letter that a
  character outside ASCII folds to.
\<close>

named_theorems string_simps \<open>facts about the string operations\<close>

section \<open>Character classes\<close>

definition is_space :: "nat \<Rightarrow> bool" where
  "is_space c \<longleftrightarrow> (9 \<le> c \<and> c \<le> 13) \<or> c \<in> {32, 160, 5760, 8232, 8233, 8239, 8287, 12288, 65279}
     \<or> (8192 \<le> c \<and> c \<le> 8202)"

definition is_digit :: "nat \<Rightarrow> bool" where
  "is_digit c \<longleftrightarrow> 48 \<le> c \<and> c \<le> 57"

definition is_upper :: "nat \<Rightarrow> bool" where
  "is_upper c \<longleftrightarrow> 65 \<le> c \<and> c \<le> 90"

definition is_lower :: "nat \<Rightarrow> bool" where
  "is_lower c \<longleftrightarrow> 97 \<le> c \<and> c \<le> 122"

text \<open>The class \<open>[0-9a-f]\<close>.\<close>

definition is_lower_hex :: "nat \<Rightarrow> bool" where
  "is_lower_hex c \<longleftrightarrow> is_digit c \<or> (97 \<le> c \<and> c \<le> 102)"

section \<open>String methods\<close>

definition trim :: "ustr \<Rightarrow> ustr" where
  "trim s = rev (dropWhile is_space (rev (dropWhile is_space s)))"

definition to_lower :: "ustr \<Rightarrow> ustr" where
  "to_lower s = map (\<lambda>c. if is_upper c then c + 32 else c) s"

definition to_upper :: "ustr \<Rightarrow> ustr" where
  "to_upper s = map (\<lambda>c. if is_lower c then c - 32 else c) s"

definition starts_with :: "ustr \<Rightarrow> ustr \<Rightarrow> bool" where
  "starts_with p s \<longleftrightarrow> take (length p) s = p"

definition ends_with :: "ustr \<Rightarrow> ustr \<Rightarrow> bool" where
  "ends_with p s \<longleftrightarrow> length p \<le> length s \<and> drop (length s - length p) s = p"

text \<open>\<open>text.includes(part)\<close>.\<close>

fun includes_str :: "ustr \<Rightarrow> ustr \<Rightarrow> bool" where
  "includes_str p [] = (p = [])"
| "includes_str p (c # s) = (starts_with p (c # s) \<or> includes_str p s)"

text \<open>\<open>text.split(separator)\<close> for a separator of one code unit.\<close>

fun split_at :: "nat \<Rightarrow> ustr \<Rightarrow> ustr list" where
  "split_at d [] = [[]]"
| "split_at d (c # s) =
     (if c = d then [] # split_at d s
      else (case split_at d s of [] \<Rightarrow> [[c]] | w # ws \<Rightarrow> (c # w) # ws))"

text \<open>\<open>parts.join(separator)\<close>.\<close>

fun join_with :: "ustr \<Rightarrow> ustr list \<Rightarrow> ustr" where
  "join_with d [] = []"
| "join_with d [w] = w"
| "join_with d (w # v # ws) = w @ d @ join_with d (v # ws)"

text \<open>\<open>String(n)\<close> for a natural number and for an integer.\<close>

fun dec_rev :: "nat \<Rightarrow> ustr" where
  "dec_rev n = (if n < 10 then [48 + n] else (48 + n mod 10) # dec_rev (n div 10))"

declare dec_rev.simps [simp del]

definition dec :: "nat \<Rightarrow> ustr" where
  "dec n = rev (dec_rev n)"

definition dec_int :: "int \<Rightarrow> ustr" where
  "dec_int i = (if i < 0 then js ''-'' @ dec (nat (- i)) else dec (nat i))"

text \<open>The natural number a run of digits denotes.\<close>

definition digits_value :: "ustr \<Rightarrow> int" where
  "digits_value s = foldl (\<lambda>n c. 10 * n + (int c - 48)) 0 s"

text \<open>The pattern \<open>/^\d+$/\<close>.\<close>

definition all_digits :: "ustr \<Rightarrow> bool" where
  "all_digits s \<longleftrightarrow> s \<noteq> [] \<and> list_all is_digit s"

text \<open>\<open>Number(text)\<close> of a run of digits: the nearest double.\<close>

definition number_of_digits :: "ustr \<Rightarrow> jsnum" where
  "number_of_digits s = fl (of_int (digits_value s))"

text \<open>
  An unsigned decimal literal at the start of a text, \<open>\d+(\.\d*)?\<close> or \<open>\.\d+\<close>: its
  integer digits, its fraction digits and what follows.
\<close>

definition scan_amount :: "ustr \<Rightarrow> (ustr \<times> ustr \<times> ustr) option" where
  "scan_amount s =
     (let ds = takeWhile is_digit s; r = dropWhile is_digit s in
      if ds \<noteq> [] then
        (if r \<noteq> [] \<and> hd r = 46
         then Some (ds, takeWhile is_digit (tl r), dropWhile is_digit (tl r))
         else Some (ds, [], r))
      else if r \<noteq> [] \<and> hd r = 46 \<and> takeWhile is_digit (tl r) \<noteq> []
      then Some ([], takeWhile is_digit (tl r), dropWhile is_digit (tl r))
      else None)"

text \<open>\<open>Number(text)\<close> of a string: blank is zero, the three prefixed integer forms, a signed
  \<open>Infinity\<close>, or a signed decimal with an optional exponent; anything else is \<open>NaN\<close>.\<close>

definition hex_value :: "nat \<Rightarrow> nat option" where
  "hex_value c = (if is_digit c then Some (c - 48)
     else if 97 \<le> c \<and> c \<le> 102 then Some (c - 87)
     else if 65 \<le> c \<and> c \<le> 70 then Some (c - 55) else None)"

definition radix_number :: "nat \<Rightarrow> ustr \<Rightarrow> jsnum" where
  "radix_number b s =
     (if s \<noteq> [] \<and> list_all (\<lambda>c. case hex_value c of None \<Rightarrow> False | Some d \<Rightarrow> d < b) s
      then fl (of_int (foldl (\<lambda>n c. int b * n + int (the (hex_value c))) 0 s)) else NaN)"

definition scan_exponent :: "ustr \<Rightarrow> int option" where
  "scan_exponent s =
     (if s = [] then Some 0
      else if hd s \<in> {101, 69} then
        (let t = tl s; neg = (t \<noteq> [] \<and> hd t = 45);
             u = (if t \<noteq> [] \<and> hd t \<in> {43, 45} then tl t else t) in
         if all_digits u then Some (if neg then - digits_value u else digits_value u) else None)
      else None)"

definition decimal_number :: "bool \<Rightarrow> ustr \<Rightarrow> jsnum" where
  "decimal_number neg s =
     (if s = js ''Infinity'' then (if neg then NInf else PInf)
      else (case scan_amount s of None \<Rightarrow> NaN
        | Some (ds, fs, r) \<Rightarrow>
            (case scan_exponent r of None \<Rightarrow> NaN
             | Some e \<Rightarrow>
                 (let v = (of_int (digits_value ds) + of_int (digits_value fs) / 10 ^ length fs)
                        * (if e \<ge> 0 then 10 ^ nat e else 1 / 10 ^ nat (- e))
                  in fl (if neg then - v else v)))))"

definition number_of_string :: "ustr \<Rightarrow> jsnum" where
  "number_of_string text =
     (let s = trim text in
      if s = [] then num 0
      else if take 2 s \<in> {js ''0x'', js ''0X''} then radix_number 16 (drop 2 s)
      else if take 2 s \<in> {js ''0o'', js ''0O''} then radix_number 8 (drop 2 s)
      else if take 2 s \<in> {js ''0b'', js ''0B''} then radix_number 2 (drop 2 s)
      else if hd s = 45 then decimal_number True (tl s)
      else if hd s = 43 then decimal_number False (tl s)
      else decimal_number False s)"

section \<open>Facts\<close>

lemma starts_with_iff: "starts_with p s \<longleftrightarrow> (\<exists>r. s = p @ r)"
proof
  assume "starts_with p s"
  then have t: "take (length p) s = p" by (simp only: starts_with_def)
  have "s = take (length p) s @ drop (length p) s" by simp
  then show "\<exists>r. s = p @ r" unfolding t by (rule exI)
qed (auto simp: starts_with_def)

lemma ends_with_iff: "ends_with p s \<longleftrightarrow> (\<exists>r. s = r @ p)"
proof
  assume "ends_with p s"
  then have t: "drop (length s - length p) s = p" by (simp only: ends_with_def)
  have "s = take (length s - length p) s @ drop (length s - length p) s" by simp
  then show "\<exists>r. s = r @ p" unfolding t by (rule exI)
qed (auto simp: ends_with_def)

lemma trim_Nil [simp]: "trim [] = []"
  by (simp add: trim_def)

lemma trim_eq_Nil_iff: "trim s = [] \<longleftrightarrow> list_all is_space s"
proof (cases "dropWhile is_space s")
  case Nil
  then have "list_all is_space s" by (simp add: list_all_iff dropWhile_eq_Nil_conv)
  moreover have "trim s = []" unfolding trim_def Nil by simp
  ultimately show ?thesis by simp
next
  case (Cons c t)
  then have c: "\<not> is_space c" "c \<in> set s"
    by (metis dropWhile_eq_Cons_conv) (metis Cons list.set_intros(1) set_dropWhileD)
  then have "\<not> list_all is_space s" by (auto simp: list_all_iff)
  moreover have "trim s \<noteq> []" using c(1) by (auto simp: trim_def Cons)
  ultimately show ?thesis by simp
qed

lemma trim_id:
  assumes "s \<noteq> []" "\<not> is_space (hd s)" "\<not> is_space (last s)"
  shows "trim s = s"
proof -
  have "dropWhile is_space s = s" using assms by (cases s) auto
  moreover have "dropWhile is_space (rev s) = rev s" using assms
    by (cases s rule: rev_cases) auto
  ultimately show ?thesis by (simp add: trim_def)
qed

lemma set_trim: "set (trim s) \<subseteq> set s"
  unfolding trim_def by (metis set_dropWhileD set_rev subsetI)

lemma length_trim: "length (trim s) \<le> length s"
  unfolding trim_def by (metis length_dropWhile_le length_rev order_trans)

lemma split_at_neq_Nil [simp]: "split_at d s \<noteq> []"
  by (induction s) (auto split: list.splits)

lemma join_split: "join_with [d] (split_at d s) = s"
proof (induction s)
  case (Cons c s)
  then show ?case by (cases "split_at d s" rule: remdups_adj.cases) auto
qed simp

lemma split_at_no_sep: "w \<in> set (split_at d s) \<Longrightarrow> d \<notin> set w"
proof (induction s arbitrary: w)
  case (Cons c s)
  then show ?case by (cases "split_at d s") (auto split: if_splits)
qed simp

lemma split_at_id: "d \<notin> set s \<Longrightarrow> split_at d s = [s]"
  by (induction s) auto

lemma split_at_append:
  "d \<notin> set s \<Longrightarrow> split_at d (s @ d # t) = s # split_at d t"
  by (induction s) auto

lemma to_lower_ascii: "\<not> (\<exists>c \<in> set s. is_upper c) \<Longrightarrow> to_lower s = s"
  by (induction s) (auto simp: to_lower_def)

lemma length_to_lower [simp]: "length (to_lower s) = length s"
  by (simp add: to_lower_def)

lemma to_upper_idem [simp]: "to_upper (to_upper s) = to_upper s"
  by (auto simp: to_upper_def is_lower_def)

lemma digits_value_snoc [simp]: "digits_value (s @ [c]) = 10 * digits_value s + (int c - 48)"
  by (simp add: digits_value_def)

lemma digits_value_Nil [simp]: "digits_value [] = 0"
  by (simp add: digits_value_def)

lemma dec_step: "dec n = (if n < 10 then [48 + n] else dec (n div 10) @ [48 + n mod 10])"
  by (simp add: dec_def dec_rev.simps [of n])

lemma dec_all_digits: "all_digits (dec n)"
proof (induction n rule: less_induct)
  case (less n)
  show ?case
  proof (cases "n < 10")
    case True
    then show ?thesis by (subst dec_step) (simp add: all_digits_def is_digit_def)
  next
    case False
    then have "all_digits (dec (n div 10))" using less by simp
    with False show ?thesis by (subst dec_step) (simp add: all_digits_def is_digit_def)
  qed
qed

lemma digits_value_dec [simp]: "digits_value (dec n) = int n"
proof (induction n rule: less_induct)
  case (less n)
  show ?case
  proof (cases "n < 10")
    case True
    then show ?thesis by (subst dec_step) (simp add: digits_value_def)
  next
    case False
    then have "digits_value (dec (n div 10)) = int (n div 10)" using less by simp
    moreover have "10 * int (n div 10) + int (n mod 10) = int n" by presburger
    ultimately show ?thesis using False by (subst dec_step) simp
  qed
qed

lemma dec_inject [simp]: "dec m = dec n \<longleftrightarrow> m = n"
  by (metis digits_value_dec of_nat_eq_iff)

lemma number_of_dec: "int n \<le> 2 ^ 53 \<Longrightarrow> number_of_digits (dec n) = num (int n)"
  using fl_of_int [of "int n"] by (simp add: number_of_digits_def)

end
