(* ===== verification/BundleTypes.thy ===== *)
theory BundleTypes imports JsString begin

text \<open>
  The data of a policy bundle (\<open>edge/src/bundle.ts\<close>, lines 1 to 66): the types the parser
  produces and every policy component reads. Constant-valued members (\<open>schemaVersion\<close>,
  \<open>algorithm\<close>, \<open>required: true\<close>) keep a field only where it is serialised again.
\<close>

datatype default_decision = AllowDecision | DenyDecision
datatype rate_limit_key = KeyClientIp | KeyJwtSub
datatype waf_target = TargetPath | TargetQuery | TargetHeaders | TargetBody
datatype waf_action = ActionBlock | ActionLog

record method_matcher =
  mm_method :: ustr
  mm_regex :: ustr
  mm_routeIds :: "ustr list"

record route_match =
  rm_methods :: "ustr list"
  rm_path :: ustr

record jwt_policy =
  jp_issuer :: ustr
  jp_audience :: "ustr list"
  jp_jwksUrl :: ustr

record rate_limit_policy =
  rlp_requests :: jsnum
  rlp_window :: ustr
  rlp_key :: rate_limit_key

record waf_rule =
  wr_id :: ustr
  wr_target :: waf_target
  wr_pattern :: ustr
  wr_flags :: "ustr option"
  wr_action :: waf_action

record compiled_route =
  cr_id :: ustr
  cr_match :: route_match
  cr_upstream :: ustr
  cr_jwt :: "jwt_policy option"
  cr_rateLimit :: "rate_limit_policy option"
  cr_waf :: "waf_rule list option"

record policy_bundle =
  b_schemaVersion :: ustr
  b_policyName :: ustr
  b_defaultDecision :: default_decision
  b_matchers :: "method_matcher list"
  b_routes :: "compiled_route list"
  b_version :: ustr

record signed_bundle_envelope =
  e_algorithm :: ustr
  e_keyId :: ustr
  e_bundle :: policy_bundle
  e_signature :: ustr

section \<open>Regular expressions of the policy\<close>

text \<open>
  The patterns of a policy are compiled by the host's \<open>RegExp\<close>. An engine maps a pattern and
  its flags to the compiled expression, or to \<open>None\<close> where the constructor throws; a compiled
  expression maps a subject to \<open>None\<close> (no match) or to the list of its capture groups, a
  group that took no part being \<open>None\<close>. Every operation that compiles a policy pattern takes
  the engine as an argument.
\<close>

type_synonym regexp = "ustr \<Rightarrow> ustr option list option"
type_synonym regexp_engine = "ustr \<Rightarrow> ustr \<Rightarrow> regexp option"

end
