(* ===== verification/Duration.thy ===== *)
theory Duration imports BundleTypes begin

text \<open>
  Rate-limit windows and inputs (\<open>edge/src/rate-limit.ts\<close>): the duration parser, the input
  validation both limiters share, and the result of a check. The lemmas bound every parsed
  duration and show that the double arithmetic of whole amounts is exact.
\<close>

section \<open>Durations\<close>

definition bad_window :: js_error where
  "bad_window = RateLimiterError (js ''rate-limit window must be a positive duration'')"

text \<open>
  The sticky pattern of \<open>parseDurationMilliseconds\<close>, one part at a time: an amount
  (\<open>scan_amount\<close>, whose literal grammar is the pattern's), then the first unit of the
  alternation that fits. Digits are taken greedily; giving one back never helps, since no
  unit starts with a digit or a dot.
\<close>

definition duration_units :: "ustr list" where
  "duration_units = [js ''ns'', js ''us'', [181, 115], [956, 115], js ''ms'', js ''s'', js ''m'', js ''h'']"

fun scan_unit :: "ustr list \<Rightarrow> ustr \<Rightarrow> (ustr \<times> ustr) option" where
  "scan_unit [] s = None"
| "scan_unit (u # us) s =
     (if starts_with u s then Some (u, drop (length u) s) else scan_unit us s)"

definition scan_part :: "ustr \<Rightarrow> (ustr \<times> ustr \<times> ustr \<times> ustr) option" where
  "scan_part s =
     (case scan_amount s of None \<Rightarrow> None
      | Some (ds, fs, r) \<Rightarrow>
          (case scan_unit duration_units r of None \<Rightarrow> None
           | Some (u, rest) \<Rightarrow> Some (ds, fs, u, rest)))"

text \<open>\<open>Number(amountText)\<close> for an integer part \<open>ds\<close> and a fraction \<open>fs\<close>.\<close>

definition amount_number :: "ustr \<Rightarrow> ustr \<Rightarrow> jsnum" where
  "amount_number ds fs = fl (of_int (digits_value ds) + of_int (digits_value fs) / 10 ^ length fs)"

definition duration_unit_milliseconds :: "ustr \<Rightarrow> jsnum result" where
  "duration_unit_milliseconds u =
     (if u = js ''ns'' then Inr (fl (1 / 1000000))
      else if u = js ''us'' \<or> u = [181, 115] \<or> u = [956, 115] then Inr (fl (1 / 1000))
      else if u = js ''ms'' then Inr (num 1)
      else if u = js ''s'' then Inr (num 1000)
      else if u = js ''m'' then Inr (num 60000)
      else if u = js ''h'' then Inr (num 3600000)
      else Inl (RateLimiterError (js ''rate-limit window contains an unsupported unit'')))"

lemma length_dropWhile_tl: "r \<noteq> [] \<Longrightarrow> length (dropWhile P (tl r)) < length r"
  using length_dropWhile_le [of P "tl r"] by (cases r) auto

lemma scan_amount_le: "scan_amount s = Some (ds, fs, r) \<Longrightarrow> length r \<le> length s"
  using length_dropWhile_le [of is_digit s] length_dropWhile_tl [of "dropWhile is_digit s" is_digit]
  by (auto simp: scan_amount_def Let_def split: if_splits)

lemma scan_unit_less:
  "scan_unit us s = Some (u, r) \<Longrightarrow> [] \<notin> set us \<Longrightarrow> length r < length s"
  by (induction us) (auto simp: starts_with_iff split: if_splits)

lemma scan_part_less: "scan_part s = Some (ds, fs, u, r) \<Longrightarrow> length r < length s"
proof -
  assume "scan_part s = Some (ds, fs, u, r)"
  then obtain a where a: "scan_amount s = Some (ds, fs, a)" and u: "scan_unit duration_units a = Some (u, r)"
    by (auto simp: scan_part_def split: option.splits)
  have "[] \<notin> set duration_units" by (simp add: duration_units_def)
  with u have "length r < length a" by (rule scan_unit_less)
  also have "\<dots> \<le> length s" using a by (rule scan_amount_le)
  finally show ?thesis .
qed

text \<open>The loop over the parts; \<open>offset\<close> is the start of the remaining text.\<close>

function parse_duration_parts :: "jsnum \<Rightarrow> ustr \<Rightarrow> jsnum result" where
  "parse_duration_parts totalMs s =
     (if s = [] then Inr totalMs
      else (case scan_part s of
          None \<Rightarrow> Inl bad_window
        | Some (ds, fs, u, rest) \<Rightarrow>
            (case duration_unit_milliseconds u of
               Inl e \<Rightarrow> Inl e
             | Inr ms \<Rightarrow> parse_duration_parts (jadd totalMs (jmul (amount_number ds fs) ms)) rest)))"
  by pat_completeness auto
termination
  by (relation "measure (\<lambda>(totalMs, s). length s)") (auto dest: scan_part_less)

declare parse_duration_parts.simps [simp del]

definition parse_duration_milliseconds :: "ustr \<Rightarrow> jsnum result" where
  "parse_duration_milliseconds value =
     (if value = [] then Inl bad_window
      else bind_result (parse_duration_parts (num 0) value) (\<lambda>totalMs.
        if \<not> is_finite totalMs \<or> jle totalMs (num 0) \<or> jlt (num max_safe) totalMs
        then Inl bad_window else Inr totalMs))"

section \<open>Checks\<close>

record rate_limit_result =
  rl_allowed :: bool
  rl_limit :: int
  rl_remaining :: int
  rl_resetAt :: jsnum
  rl_retryAfterSeconds :: jsnum

definition validate_rate_limit_input :: "ustr \<Rightarrow> ustr \<Rightarrow> rate_limit_policy \<Rightarrow> jsnum result" where
  "validate_rate_limit_input routeId identity policy =
     (if trim routeId = [] then Inl (RateLimiterError (js ''route ID must not be empty''))
      else if trim identity = [] \<or> length identity > 512
      then Inl (RateLimiterError (js ''rate-limit identity must contain 1 to 512 characters''))
      else if \<not> is_safe_integer (rlp_requests policy) \<or> jle (rlp_requests policy) (num 0)
      then Inl (RateLimiterError (js ''rate-limit request count must be a positive integer''))
      else parse_duration_milliseconds (rlp_window policy))"

section \<open>Durations: bounds and exactness\<close>

lemma parse_duration_positive:
  assumes "parse_duration_milliseconds v = Inr d"
  shows "\<exists>r. d = Fin r \<and> 0 < r \<and> r \<le> of_int max_safe"
proof -
  from assms have "is_finite d" "\<not> jle d (num 0)" "\<not> jlt (num max_safe) d"
    by (auto simp: parse_duration_milliseconds_def result_simps split: if_splits)
  then show ?thesis by (cases d) (auto simp: num_def)
qed

definition whole_units :: "(ustr \<times> nat) list" where
  "whole_units = [(js ''ms'', 1), (js ''s'', 1000), (js ''m'', 60000), (js ''h'', 3600000)]"

text \<open>A duration written as whole amounts, and the milliseconds it stands for.\<close>

definition show_duration :: "(nat \<times> ustr \<times> nat) list \<Rightarrow> ustr" where
  "show_duration ps = concat (map (\<lambda>(n, u, k). dec n @ u) ps)"

definition duration_value :: "(nat \<times> ustr \<times> nat) list \<Rightarrow> nat" where
  "duration_value ps = sum_list (map (\<lambda>(n, u, k). n * k) ps)"

lemma takeWhile_dec: "s = [] \<or> \<not> is_digit (hd s) \<Longrightarrow> takeWhile is_digit (dec n @ s) = dec n"
  using dec_all_digits [of n] by (cases s) (auto simp: all_digits_def list_all_iff takeWhile_append)

lemma dropWhile_dec: "s = [] \<or> \<not> is_digit (hd s) \<Longrightarrow> dropWhile is_digit (dec n @ s) = s"
  using dec_all_digits [of n] by (cases s) (auto simp: all_digits_def list_all_iff dropWhile_append)

lemma dec_neq_Nil [simp]: "dec n \<noteq> []"
  using dec_all_digits [of n] by (simp add: all_digits_def)

lemma is_digit_hd_dec [simp]: "is_digit (hd (dec n))"
  using dec_all_digits [of n] by (cases "dec n") (auto simp: all_digits_def)

lemma scan_amount_dec:
  assumes "u \<noteq> []" "\<not> is_digit (hd u)" "hd u \<noteq> 46"
  shows "scan_amount (dec n @ u @ r) = Some (dec n, [], u @ r)"
  using assms by (simp add: scan_amount_def takeWhile_dec dropWhile_dec)

lemma unit_codes:
  "js ''ns'' = [110, 115]" "js ''us'' = [117, 115]" "js ''ms'' = [109, 115]"
  "js ''s'' = [115]" "js ''m'' = [109]" "js ''h'' = [104]"
  by (simp_all add: js_def)

lemma scan_unit_whole:
  assumes "(u, k) \<in> set whole_units" "r = [] \<or> is_digit (hd r)"
  shows "scan_unit duration_units (u @ r) = Some (u, r)"
proof -
  from assms(1) consider "u = [109, 115]" | "u = [115]" | "u = [109]" | "u = [104]"
    by (auto simp: whole_units_def unit_codes)
  then show ?thesis
    using assms(2) 
    by cases (cases r; auto simp: duration_units_def unit_codes starts_with_def is_digit_def)+
qed

lemma whole_unit_shape:
  "(u, k) \<in> set whole_units \<Longrightarrow> u \<noteq> [] \<and> \<not> is_digit (hd u) \<and> hd u \<noteq> 46
     \<and> duration_unit_milliseconds u = Inr (num (int k)) \<and> 0 < k"
  by (auto simp: whole_units_def duration_unit_milliseconds_def js_def is_digit_def)

lemma scan_part_whole:
  assumes "(u, k) \<in> set whole_units" "r = [] \<or> is_digit (hd r)"
  shows "scan_part (dec n @ u @ r) = Some (dec n, [], u, r)"
  using whole_unit_shape [OF assms(1)] scan_unit_whole [OF assms]
  by (simp add: scan_part_def scan_amount_dec)

lemma show_duration_hd: "show_duration ps = [] \<or> is_digit (hd (show_duration ps))"
  by (cases ps) (auto simp: show_duration_def)

lemma amount_number_dec: "int n \<le> 2 ^ 53 \<Longrightarrow> amount_number (dec n) [] = num (int n)"
  using fl_of_int [of "int n"] by (simp add: amount_number_def)

lemma parse_duration_parts_whole:
  "\<forall>(n, u, k) \<in> set ps. (u, k) \<in> set whole_units \<Longrightarrow>
   0 \<le> t \<Longrightarrow> t + int (duration_value ps) \<le> 2 ^ 53 \<Longrightarrow>
   parse_duration_parts (num t) (show_duration ps) = Inr (num (t + int (duration_value ps)))"
proof (induction ps arbitrary: t)
  case Nil
  then show ?case by (simp add: show_duration_def duration_value_def parse_duration_parts.simps)
next
  case (Cons p ps)
  obtain n u k where p: "p = (n, u, k)" by (cases p)
  with Cons.prems have uk: "(u, k) \<in> set whole_units" by simp
  have sh: "show_duration (p # ps) = dec n @ u @ show_duration ps"
    and dv: "int (duration_value (p # ps)) = int n * int k + int (duration_value ps)"
    by (simp_all add: p show_duration_def duration_value_def)
  have "1 \<le> int k" using whole_unit_shape [OF uk] by simp
  then have nk: "int n \<le> int n * int k" using mult_left_mono [of 1 "int k" "int n"] by simp
  with Cons.prems(2,3) dv have le: "int n \<le> 2 ^ 53" "int n * int k \<le> 2 ^ 53" "t + int n * int k \<le> 2 ^ 53"
    by linarith+
  have ge: "0 \<le> int n * int k" by simp
  have "jmul (amount_number (dec n) []) (num (int k)) = num (int n * int k)"
    using le ge by (simp only: amount_number_dec jmul_int abs_of_nonneg)
  then have "jadd (num t) (jmul (amount_number (dec n) []) (num (int k))) = num (t + int n * int k)"
    using le ge Cons.prems(2) by (simp only: jadd_int abs_of_nonneg add_nonneg_nonneg)
  then have "parse_duration_parts (num t) (show_duration (p # ps))
      = parse_duration_parts (num (t + int n * int k)) (show_duration ps)"
    using whole_unit_shape [OF uk] scan_part_whole [OF uk show_duration_hd, of n ps]
    by (subst parse_duration_parts.simps) (simp add: sh)
  also have "\<dots> = Inr (num (t + int n * int k + int (duration_value ps)))"
    using Cons.prems dv by (intro Cons.IH) auto
  finally show ?case by (simp only: dv add.assoc)
qed

lemma parse_duration_whole:
  assumes "ps \<noteq> []" "\<forall>(n, u, k) \<in> set ps. (u, k) \<in> set whole_units"
    and "0 < duration_value ps" "int (duration_value ps) \<le> max_safe"
  shows "parse_duration_milliseconds (show_duration ps) = Inr (num (int (duration_value ps)))"
proof -
  have "show_duration ps \<noteq> []" using assms(1)
    by (cases ps) (auto simp: show_duration_def)
  moreover have "parse_duration_parts (num 0) (show_duration ps) = Inr (num (0 + int (duration_value ps)))"
    using assms by (intro parse_duration_parts_whole) (auto simp: max_safe_def)
  ultimately show ?thesis using assms
    by (simp add: parse_duration_milliseconds_def)
qed


section \<open>Validated policies\<close>

text \<open>A policy of \<open>n\<close> requests in a window of \<open>w\<close> whole milliseconds.\<close>

definition plain_policy :: "rate_limit_policy \<Rightarrow> int \<Rightarrow> int \<Rightarrow> bool" where
  "plain_policy p n w \<longleftrightarrow> rlp_requests p = num n \<and> 0 < n \<and> n \<le> max_safe
     \<and> parse_duration_milliseconds (rlp_window p) = Inr (num w)"

lemma plain_policy_window: "plain_policy p n w \<Longrightarrow> 0 < w \<and> w \<le> max_safe"
  by (auto simp: plain_policy_def num_def dest!: parse_duration_positive)

lemma validate_ok_parts:
  assumes "validate_rate_limit_input r i p = Inr w"
  shows "parse_duration_milliseconds (rlp_window p) = Inr w"
    and "is_positive_safe (rlp_requests p)" and "trim r \<noteq> []" and "trim i \<noteq> []" and "length i \<le> 512"
  using assms by (auto simp: validate_rate_limit_input_def is_positive_safe_def split: if_splits)

lemma validate_plain:
  "plain_policy p n w \<Longrightarrow> validate_rate_limit_input r i p = Inr w' \<Longrightarrow> w' = num w"
  using validate_ok_parts(1) [of r i p w'] by (simp add: plain_policy_def)

section \<open>Errors\<close>

lemma duration_part_error: "parse_duration_parts t s = Inl e \<Longrightarrow> \<exists>m. e = RateLimiterError m"
proof (induction t s rule: parse_duration_parts.induct)
  case (1 totalMs s)
  show ?case
  proof (cases "scan_part s")
    case None
    with "1.prems" show ?thesis
      by (auto simp: parse_duration_parts.simps [of totalMs s] bad_window_def split: if_splits)
  next
    case (Some p)
    obtain ds fs u rest where p: "p = (ds, fs, u, rest)" by (cases p)
    show ?thesis
    proof (cases "duration_unit_milliseconds u")
      case (Inl e')
      with "1.prems" Some p have "e' = e"
        by (simp add: parse_duration_parts.simps [of totalMs s] split: if_splits)
      with Inl show ?thesis by (auto simp: duration_unit_milliseconds_def split: if_splits)
    next
      case (Inr ms)
      with "1.prems" Some p have "s \<noteq> []"
        and "parse_duration_parts (jadd totalMs (jmul (amount_number ds fs) ms)) rest = Inl e"
        by (simp_all add: parse_duration_parts.simps [of totalMs s] split: if_splits)
      with "1.IH" Some p Inr show ?thesis by blast
    qed
  qed
qed

lemma validate_error: "validate_rate_limit_input r i p = Inl e \<Longrightarrow> \<exists>m. e = RateLimiterError m"
  by (auto simp: validate_rate_limit_input_def parse_duration_milliseconds_def bad_window_def Let_def
      bind_result_Inl dest: duration_part_error split: if_splits)

section \<open>Property\<close>

text \<open>Round trip of windows. A duration written as whole amounts of \<open>ms\<close>, \<open>s\<close>, \<open>m\<close> and
  \<open>h\<close>, in any number and order, is read as exactly the milliseconds it stands for: no rounding, up
  to the largest safe integer.\<close>

theorem duration_exact:
  assumes "ps \<noteq> []" "\<forall>(n, u, k) \<in> set ps. (u, k) \<in> set whole_units"
    and "0 < duration_value ps" "int (duration_value ps) \<le> max_safe"
  shows "parse_duration_milliseconds (show_duration ps) = Inr (num (int (duration_value ps)))"
  using assms by (rule parse_duration_whole)

theorem duration_exact_witness:
  "parse_duration_milliseconds (show_duration [(1, js ''h'', 3600000), (30, js ''m'', 60000)]) = Inr (num 5400000)"
  using duration_exact [of "[(1, js ''h'', 3600000), (30, js ''m'', 60000)]"]
  by (simp add: whole_units_def duration_value_def max_safe_def)

end
