(* ===== verification/Quota.thy ===== *)
theory Quota imports Duration begin

text \<open>
  The interface \<open>RateLimiter\<close> of \<open>edge/src/rate-limit.ts\<close>: what a policy engine relies on
  when it calls \<open>check\<close>, stated once for every provider. A call is a clock reading, a key
  (route and identity) and a policy. The locale's theorem is the quota: within one window a
  key is admitted exactly as often as its policy allows, whatever other keys are checked in
  between.
\<close>

record limiter_call =
  lc_time :: int
  lc_route :: ustr
  lc_identity :: ustr
  lc_policy :: rate_limit_policy

text \<open>A sequence of checks against one limiter, in the order they are made.\<close>

fun run_checks ::
  "(int \<Rightarrow> ustr \<Rightarrow> ustr \<Rightarrow> rate_limit_policy \<Rightarrow> 's \<Rightarrow> rate_limit_result result \<times> 's) \<Rightarrow>
     limiter_call list \<Rightarrow> 's \<Rightarrow> rate_limit_result result list \<times> 's" where
  "run_checks check [] s = ([], s)"
| "run_checks check (c # cs) s =
     (case check (lc_time c) (lc_route c) (lc_identity c) (lc_policy c) s of
        (x, s') \<Rightarrow> (case run_checks check cs s' of (xs, s'') \<Rightarrow> (x # xs, s'')))"

fun is_admitted :: "rate_limit_result result \<Rightarrow> bool" where
  "is_admitted (Inl e) = False"
| "is_admitted (Inr r) = rl_allowed r"

text \<open>How many calls of one key were admitted, and how many got an answer at all.\<close>

fun admitted_count :: "ustr \<Rightarrow> ustr \<Rightarrow> limiter_call list \<Rightarrow> rate_limit_result result list \<Rightarrow> int" where
  "admitted_count r i (c # cs) (x # xs) =
     (if lc_route c = r \<and> lc_identity c = i \<and> is_admitted x then 1 else 0) + admitted_count r i cs xs"
| "admitted_count r i cs xs = 0"

fun answered_count :: "ustr \<Rightarrow> ustr \<Rightarrow> limiter_call list \<Rightarrow> rate_limit_result result list \<Rightarrow> int" where
  "answered_count r i (c # cs) (x # xs) =
     (if lc_route c = r \<and> lc_identity c = i \<and> is_ok x then 1 else 0) + answered_count r i cs xs"
| "answered_count r i cs xs = 0"

text \<open>
  The specification of a fixed window: the answer to a request when \<open>u\<close> of the \<open>n\<close>
  requests of the current window of \<open>w\<close> milliseconds are used up, and the answers to a
  sequence of requests.
\<close>

definition window_end :: "int \<Rightarrow> int \<Rightarrow> int" where
  "window_end w now = now div w * w + w"

definition window_answer :: "int \<Rightarrow> int \<Rightarrow> int \<Rightarrow> int \<Rightarrow> rate_limit_result" where
  "window_answer n w now u =
     \<lparr>rl_allowed = u < n, rl_limit = n, rl_remaining = (if u < n then n - u - 1 else 0),
      rl_resetAt = num (window_end w now),
      rl_retryAfterSeconds = num (max 1 (- (- (window_end w now - now) div 1000)))\<rparr>"

lemma window_answer_allowed [simp]: "rl_allowed (window_answer n w now u) \<longleftrightarrow> u < n"
  by (simp add: window_answer_def)

fun spec_answers :: "int \<Rightarrow> int \<Rightarrow> int \<Rightarrow> int list \<Rightarrow> rate_limit_result list" where
  "spec_answers n w u [] = []"
| "spec_answers n w u (now # ts) =
     window_answer n w now u # spec_answers n w (if u < n then u + 1 else u) ts"

text \<open>The answers one key got in a run, each with its time.\<close>

fun key_answers :: "ustr \<Rightarrow> ustr \<Rightarrow> limiter_call list \<Rightarrow> rate_limit_result result list \<Rightarrow> (int \<times> rate_limit_result) list" where
  "key_answers r i (c # cs) (x # xs) =
     (if lc_route c = r \<and> lc_identity c = i
      then (case x of Inl e \<Rightarrow> [] | Inr res \<Rightarrow> [(lc_time c, res)]) else []) @ key_answers r i cs xs"
| "key_answers r i cs xs = []"

text \<open>
  The calls of a run about one key: in time order from \<open>t\<close>, within one window, under one
  policy for that key, every other key being apart from it.
\<close>

fun calls_in_window ::
  "(ustr \<Rightarrow> ustr \<Rightarrow> ustr \<Rightarrow> ustr \<Rightarrow> bool) \<Rightarrow> ustr \<Rightarrow> ustr \<Rightarrow> rate_limit_policy \<Rightarrow> int \<Rightarrow> int \<Rightarrow> int \<Rightarrow>
     limiter_call list \<Rightarrow> bool" where
  "calls_in_window apart r i p w k t [] = True"
| "calls_in_window apart r i p w k t (c # cs) =
     (t \<le> lc_time c \<and> lc_time c div w = k \<and> lc_time c + w < 2 ^ 53
      \<and> (if lc_route c = r \<and> lc_identity c = i then lc_policy c = p
         else apart r i (lc_route c) (lc_identity c))
      \<and> calls_in_window apart r i p w k (lc_time c) cs)"

locale rate_limiter =
  fixes check :: "int \<Rightarrow> ustr \<Rightarrow> ustr \<Rightarrow> rate_limit_policy \<Rightarrow> 's \<Rightarrow> rate_limit_result result \<times> 's"
    and inv :: "int \<Rightarrow> 's \<Rightarrow> bool"
    and used :: "'s \<Rightarrow> ustr \<Rightarrow> ustr \<Rightarrow> int \<Rightarrow> int \<Rightarrow> int \<Rightarrow> int"
    and apart :: "ustr \<Rightarrow> ustr \<Rightarrow> ustr \<Rightarrow> ustr \<Rightarrow> bool"
  assumes check_inv:
      "inv t s \<Longrightarrow> 0 \<le> t \<Longrightarrow> t \<le> now \<Longrightarrow> check now r i p s = (x, s') \<Longrightarrow> inv now s'"
    and check_answer:
      "inv t s \<Longrightarrow> 0 \<le> t \<Longrightarrow> t \<le> now \<Longrightarrow> now + w < 2 ^ 53 \<Longrightarrow> plain_policy p n w \<Longrightarrow>
       check now r i p s = (Inr res, s') \<Longrightarrow>
       res = window_answer n w now (used s r i n w now)
         \<and> used s' r i n w now = used s r i n w now + (if rl_allowed res then 1 else 0)"
    and check_error:
      "inv t s \<Longrightarrow> 0 \<le> t \<Longrightarrow> t \<le> now \<Longrightarrow> now + w < 2 ^ 53 \<Longrightarrow> plain_policy p n w \<Longrightarrow>
       check now r i p s = (Inl e, s') \<Longrightarrow> used s' r i n w now = used s r i n w now"
    and check_frame:
      "inv t s \<Longrightarrow> 0 \<le> t \<Longrightarrow> t \<le> now \<Longrightarrow> apart r i r' i' \<Longrightarrow> 0 < w \<Longrightarrow>
       check now r' i' p' s = (x, s') \<Longrightarrow> used s' r i n w now = used s r i n w now"
    and used_window: "now div w = now' div w \<Longrightarrow> used s r i n w now = used s r i n w now'"
    and used_bounds: "inv t s \<Longrightarrow> 0 < n \<Longrightarrow> 0 \<le> used s r i n w now \<and> used s r i n w now \<le> n"
begin

lemma used_after:
  assumes "inv t s" "0 \<le> t" "calls_in_window apart r i p w k t (c # cs)" "plain_policy p n w"
    and "check (lc_time c) (lc_route c) (lc_identity c) (lc_policy c) s = (x, s')"
  shows "used s' r i n w (k * w) = used s r i n w (k * w)
           + admitted_count r i [c] [x]"
    and "lc_route c = r \<and> lc_identity c = i \<Longrightarrow> x = Inr res \<Longrightarrow>
           res = window_answer n w (lc_time c) (used s r i n w (k * w))"
proof -
  have w: "0 < w" using plain_policy_window [OF assms(4)] by simp
  have c: "t \<le> lc_time c" "lc_time c div w = k" "lc_time c + w < 2 ^ 53" using assms(3) by auto
  have win: "used u r i n w (k * w) = used u r i n w (lc_time c)" for u
    using c(2) w by (intro used_window) simp
  show "used s' r i n w (k * w) = used s r i n w (k * w) + admitted_count r i [c] [x]"
  proof (cases "lc_route c = r \<and> lc_identity c = i")
    case True
    with assms(3) have "lc_policy c = p" by simp
    with True assms c check_answer [OF assms(1,2) c(1,3) assms(4), of r i]
      check_error [OF assms(1,2) c(1,3) assms(4), of r i]
    show ?thesis by (cases x) (auto simp: win)
  next
    case False
    with assms(3) have "apart r i (lc_route c) (lc_identity c)" by simp
    from check_frame [OF assms(1,2) c(1) this w assms(5)] False show ?thesis by (auto simp: win)
  qed
  assume "lc_route c = r \<and> lc_identity c = i" "x = Inr res"
  with assms(3,5) check_answer [OF assms(1,2) c(1,3) assms(4), of r i]
  show "res = window_answer n w (lc_time c) (used s r i n w (k * w))" by (auto simp: win)
qed

theorem window_quota:
  assumes "inv t s" "0 \<le> t" "calls_in_window apart r i p w k t cs" "plain_policy p n w"
    and "run_checks check cs s = (xs, s')"
  shows "admitted_count r i cs xs = min (answered_count r i cs xs) (n - used s r i n w (k * w))"
  using assms
proof (induction cs arbitrary: t s xs)
  case Nil
  then have "0 < n" by (simp add: plain_policy_def)
  with Nil used_bounds [of t s n r i w "k * w"] show ?case by simp
next
  case (Cons c cs)
  obtain x s1 where x: "check (lc_time c) (lc_route c) (lc_identity c) (lc_policy c) s = (x, s1)"
    by fastforce
  with Cons.prems(5) obtain ys where ys: "run_checks check cs s1 = (ys, s')" "xs = x # ys"
    by (auto split: prod.splits)
  have t: "t \<le> lc_time c" using Cons.prems(3) by simp
  have inv1: "inv (lc_time c) s1"
    using check_inv [OF Cons.prems(1,2) t x] .
  have IH: "admitted_count r i cs ys = min (answered_count r i cs ys) (n - used s1 r i n w (k * w))"
    using Cons.prems(2,3,4) t inv1 ys by (intro Cons.IH [of "lc_time c"]) auto
  have n: "0 < n" using Cons.prems(4) by (simp add: plain_policy_def)
  have nonneg: "0 \<le> answered_count r i cs ys"
    by (induction r i cs ys rule: answered_count.induct) auto
  note U = used_after [OF Cons.prems(1,2,3,4) x]
  note B = used_bounds [OF Cons.prems(1) n, of r i w "k * w"]
  show ?case
  proof (cases "lc_route c = r \<and> lc_identity c = i \<and> is_ok x")
    case True
    with U(2) have "is_admitted x = (used s r i n w (k * w) < n)"
      by (cases x) auto
    with True IH U(1) B nonneg show ?thesis by (auto simp: ys min_def)
  next
    case False
    then have "\<not> (lc_route c = r \<and> lc_identity c = i \<and> is_admitted x)" by (cases x) auto
    with False IH U(1) show ?thesis by (auto simp: ys)
  qed
qed

theorem window_refinement:
  assumes "inv t s" "0 \<le> t" "calls_in_window apart r i p w k t cs" "plain_policy p n w"
    and "run_checks check cs s = (xs, s')"
  shows "map snd (key_answers r i cs xs)
           = spec_answers n w (used s r i n w (k * w)) (map fst (key_answers r i cs xs))"
  using assms
proof (induction cs arbitrary: t s xs)
  case Nil
  then show ?case by simp
next
  case (Cons c cs)
  obtain x s1 where x: "check (lc_time c) (lc_route c) (lc_identity c) (lc_policy c) s = (x, s1)"
    by fastforce
  with Cons.prems(5) obtain ys where ys: "run_checks check cs s1 = (ys, s')" "xs = x # ys"
    by (auto split: prod.splits)
  have t: "t \<le> lc_time c" using Cons.prems(3) by simp
  have IH: "map snd (key_answers r i cs ys)
      = spec_answers n w (used s1 r i n w (k * w)) (map fst (key_answers r i cs ys))"
    using Cons.prems(2,3,4) t check_inv [OF Cons.prems(1,2) t x] ys
    by (intro Cons.IH [of "lc_time c"]) auto
  note U = used_after [OF Cons.prems(1,2,3,4) x]
  show ?case
  proof (cases "lc_route c = r \<and> lc_identity c = i \<and> is_ok x")
    case True
    then obtain res where res: "x = Inr res" by (auto simp: is_ok_iff)
    with True U(2) have "res = window_answer n w (lc_time c) (used s r i n w (k * w))" by blast
    with True IH U(1) res show ?thesis by (auto simp: ys)
  next
    case False
    then have "admitted_count r i [c] [x] = 0" "key_answers r i [c] [x] = []" by (cases x; auto)+
    with False IH U(1) show ?thesis by (auto simp: ys split: sum.splits)
  qed
qed

corollary never_above_quota:
  assumes "inv t s" "0 \<le> t" "calls_in_window apart r i p w k t cs" "plain_policy p n w"
    and "run_checks check cs s = (xs, s')"
  shows "admitted_count r i cs xs \<le> n"
proof -
  have "0 < n" using assms(4) by (simp add: plain_policy_def)
  with window_quota [OF assms] used_bounds [OF assms(1), of n r i w "k * w"] show ?thesis by linarith
qed

end

end
