(* ===== verification/FixedWindow.thy ===== *)
theory FixedWindow imports Quota begin

text \<open>
  The in-memory limiter (\<open>FixedWindowRateLimiter\<close> of \<open>edge/src/rate-limit.ts\<close>) with its
  bucket table, and the measuring wrapper around any limiter. Times and windows are
  JavaScript numbers; a request limit that passed the safe-integer check is an \<open>int\<close>.
\<close>

section \<open>The fixed-window limiter\<close>

record rate_limit_bucket =
  bk_count :: int
  bk_limit :: int
  bk_windowMs :: jsnum
  bk_resetAt :: jsnum

record fixed_window_limiter =
  fw_maxBuckets :: int
  fw_buckets :: "rate_limit_bucket js_map"
  fw_nextCleanupAt :: jsnum

definition default_max_buckets :: jsnum where
  "default_max_buckets = num 100000"

definition cleanup_interval_ms :: jsnum where
  "cleanup_interval_ms = num 60000"

text \<open>The constructor; the option is the \<open>maxBuckets\<close> member.\<close>

definition new_fixed_window_limiter :: "jsnum option \<Rightarrow> fixed_window_limiter result" where
  "new_fixed_window_limiter maxBuckets =
     (let m = (case maxBuckets of None \<Rightarrow> default_max_buckets | Some n \<Rightarrow> n) in
      if \<not> is_safe_integer m \<or> jle m (num 0)
      then Inl (RateLimiterError (js ''maximum bucket count must be a positive integer''))
      else Inr \<lparr>fw_maxBuckets = int_of_num m, fw_buckets = [], fw_nextCleanupAt = num 0\<rparr>)"

definition remove_expired :: "jsnum \<Rightarrow> fixed_window_limiter \<Rightarrow> fixed_window_limiter" where
  "remove_expired now l =
     l\<lparr>fw_buckets := filter (\<lambda>kb. \<not> jle (bk_resetAt (snd kb)) now) (fw_buckets l)\<rparr>"

definition bucket_key :: "ustr \<Rightarrow> ustr \<Rightarrow> ustr" where
  "bucket_key routeId identity = routeId @ 0 # identity"

definition cleanup :: "jsnum \<Rightarrow> fixed_window_limiter \<Rightarrow> fixed_window_limiter" where
  "cleanup now l =
     (if jle (fw_nextCleanupAt l) now
      then (remove_expired now l)\<lparr>fw_nextCleanupAt := jadd now cleanup_interval_ms\<rparr>
      else l)"

text \<open>The condition under which \<open>check\<close> starts a new bucket.\<close>

definition needs_new_bucket :: "jsnum \<Rightarrow> int \<Rightarrow> jsnum \<Rightarrow> rate_limit_bucket option \<Rightarrow> bool" where
  "needs_new_bucket now requests windowMs b =
     (case b of None \<Rightarrow> True
      | Some b \<Rightarrow> jle (bk_resetAt b) now \<or> bk_limit b \<noteq> requests \<or> \<not> jeq (bk_windowMs b) windowMs)"

definition new_bucket :: "jsnum \<Rightarrow> int \<Rightarrow> jsnum \<Rightarrow> rate_limit_bucket" where
  "new_bucket now requests windowMs =
     (let windowStart = jmul (jfloor (jdiv now windowMs)) windowMs in
      \<lparr>bk_count = 0, bk_limit = requests, bk_windowMs = windowMs,
       bk_resetAt = jadd windowStart windowMs\<rparr>)"

text \<open>Choosing the bucket of a check: the existing one, a new one, or the capacity error.\<close>

definition acquire_bucket ::
  "jsnum \<Rightarrow> ustr \<Rightarrow> int \<Rightarrow> jsnum \<Rightarrow> fixed_window_limiter \<Rightarrow>
     rate_limit_bucket result \<times> fixed_window_limiter" where
  "acquire_bucket now key requests windowMs l =
     (let b = map_of (fw_buckets l) key in
      if needs_new_bucket now requests windowMs b then
        (let l' = (if b = None \<and> int (length (fw_buckets l)) \<ge> fw_maxBuckets l
                   then remove_expired now l else l) in
         if b = None \<and> int (length (fw_buckets l')) \<ge> fw_maxBuckets l'
         then (Inl (RateLimiterError (js ''rate limiter capacity is exhausted'')), l')
         else (let nb = new_bucket now requests windowMs in
               (Inr nb, l'\<lparr>fw_buckets := AList.update key nb (fw_buckets l')\<rparr>)))
      else (Inr (the b), l))"

definition retry_after :: "jsnum \<Rightarrow> jsnum \<Rightarrow> jsnum" where
  "retry_after resetAt now = jmax (num 1) (jceil (jdiv (jsub resetAt now) (num 1000)))"

text \<open>Counting one request against a bucket.\<close>

definition take_from_bucket ::
  "jsnum \<Rightarrow> ustr \<Rightarrow> rate_limit_bucket \<Rightarrow> fixed_window_limiter \<Rightarrow>
     rate_limit_result \<times> fixed_window_limiter" where
  "take_from_bucket now key b l =
     (let retry = retry_after (bk_resetAt b) now in
      if bk_count b \<ge> bk_limit b
      then (\<lparr>rl_allowed = False, rl_limit = bk_limit b, rl_remaining = 0,
             rl_resetAt = bk_resetAt b, rl_retryAfterSeconds = retry\<rparr>, l)
      else (let b' = b\<lparr>bk_count := bk_count b + 1\<rparr> in
            (\<lparr>rl_allowed = True, rl_limit = bk_limit b', rl_remaining = bk_limit b' - bk_count b',
              rl_resetAt = bk_resetAt b', rl_retryAfterSeconds = retry\<rparr>,
             l\<lparr>fw_buckets := AList.update key b' (fw_buckets l)\<rparr>)))"

definition fixed_window_check ::
  "jsnum \<Rightarrow> ustr \<Rightarrow> ustr \<Rightarrow> rate_limit_policy \<Rightarrow> fixed_window_limiter \<Rightarrow>
     rate_limit_result result \<times> fixed_window_limiter" where
  "fixed_window_check now routeId identity policy l =
     (case validate_rate_limit_input routeId identity policy of
        Inl e \<Rightarrow> (Inl e, l)
      | Inr windowMs \<Rightarrow>
          if \<not> is_finite now \<or> jlt now (num 0)
          then (Inl (RateLimiterError (js ''rate-limiter clock returned an invalid time'')), l)
          else
            (let key = bucket_key routeId identity in
             case acquire_bucket now key (int_of_num (rlp_requests policy)) windowMs (cleanup now l) of
               (Inl e, l') \<Rightarrow> (Inl e, l')
             | (Inr b, l') \<Rightarrow> (case take_from_bucket now key b l' of (r, l'') \<Rightarrow> (Inr r, l''))))"

section \<open>The measuring wrapper\<close>

datatype rate_limit_backend = BackendMemory | BackendRedis
datatype rate_limit_metric_outcome = OutcomeAllowed | OutcomeLimited | OutcomeError

text \<open>
  \<open>MeasuredRateLimiter.check\<close> around any limiter: \<open>record_check\<close> is the recorder, which may
  throw; what it throws is dropped by \<open>#record\<close>.
\<close>

definition measured_record ::
  "(rate_limit_backend \<Rightarrow> rate_limit_metric_outcome \<Rightarrow> 'm \<Rightarrow> unit result \<times> 'm) \<Rightarrow>
     rate_limit_backend \<Rightarrow> rate_limit_metric_outcome \<Rightarrow> 'm \<Rightarrow> 'm" where
  "measured_record record_check backend outcome m = snd (record_check backend outcome m)"

definition measured_check ::
  "(rate_limit_backend \<Rightarrow> rate_limit_metric_outcome \<Rightarrow> 'm \<Rightarrow> unit result \<times> 'm) \<Rightarrow>
     rate_limit_backend \<Rightarrow> ('s \<Rightarrow> rate_limit_result result \<times> 's) \<Rightarrow> 's \<times> 'm \<Rightarrow>
     rate_limit_result result \<times> ('s \<times> 'm)" where
  "measured_check record_check backend check sm =
     (case check (fst sm) of
        (Inr r, s') \<Rightarrow>
          (Inr r, (s', measured_record record_check backend
             (if rl_allowed r then OutcomeAllowed else OutcomeLimited) (snd sm)))
      | (Inl e, s') \<Rightarrow>
          (Inl e, (s', measured_record record_check backend OutcomeError (snd sm))))"




section \<open>The bucket table stays within its bounds\<close>

definition bucket_ok :: "rate_limit_bucket \<Rightarrow> bool" where
  "bucket_ok b \<longleftrightarrow> 0 \<le> bk_count b \<and> bk_count b \<le> bk_limit b \<and> 0 < bk_limit b"

definition limiter_ok :: "fixed_window_limiter \<Rightarrow> bool" where
  "limiter_ok l \<longleftrightarrow> map_ok (fw_buckets l) \<and> int (length (fw_buckets l)) \<le> fw_maxBuckets l
     \<and> (\<forall>kb \<in> set (fw_buckets l). bucket_ok (snd kb))"

lemma remove_expired_fields [simp]:
  "fw_maxBuckets (remove_expired now l) = fw_maxBuckets l"
  "fw_nextCleanupAt (remove_expired now l) = fw_nextCleanupAt l"
  by (simp_all add: remove_expired_def)

lemma remove_expired_ok: "limiter_ok l \<Longrightarrow> limiter_ok (remove_expired now l)"
  unfolding limiter_ok_def remove_expired_def
  by (auto intro: order_trans [OF _ _] dest: le_trans [OF length_filter_le] simp: le_trans)
    (metis (no_types, lifting) length_filter_le of_nat_le_iff order_trans)

lemma cleanup_ok: "limiter_ok l \<Longrightarrow> limiter_ok (cleanup now l)"
  using remove_expired_ok [of l now] by (auto simp: cleanup_def limiter_ok_def)

lemma cleanup_max [simp]: "fw_maxBuckets (cleanup now l) = fw_maxBuckets l"
  by (simp add: cleanup_def)

lemma update_bucket_ok:
  assumes "limiter_ok l" "bucket_ok b"
    and "map_of (fw_buckets l) k \<noteq> None \<or> int (length (fw_buckets l)) < fw_maxBuckets l"
  shows "limiter_ok (l\<lparr>fw_buckets := AList.update k b (fw_buckets l)\<rparr>)"
proof -
  have "int (length (AList.update k b (fw_buckets l))) \<le> fw_maxBuckets l"
    using assms length_update_present [of "fw_buckets l" k b] length_update_absent [of "fw_buckets l" k b]
    by (cases "map_of (fw_buckets l) k") (auto simp: limiter_ok_def)
  then show ?thesis
    using assms set_update_subset [of k b "fw_buckets l"] by (fastforce simp: limiter_ok_def)
qed

lemma limiter_ok_bucket: "limiter_ok l \<Longrightarrow> map_of (fw_buckets l) k = Some b \<Longrightarrow> bucket_ok b"
  by (drule map_of_SomeD) (auto simp: limiter_ok_def)

text \<open>The three ways \<open>acquire_bucket\<close> ends.\<close>

lemma acquire_bucket_cases:
  assumes "acquire_bucket now k n w l = (x, l')"
  obtains
    (existing) b where "x = Inr b" "l' = l" "map_of (fw_buckets l) k = Some b"
      "\<not> needs_new_bucket now n w (Some b)"
  | (fresh) l1 where "x = Inr (new_bucket now n w)"
      "l' = l1\<lparr>fw_buckets := AList.update k (new_bucket now n w) (fw_buckets l1)\<rparr>"
      "l1 = l \<or> l1 = remove_expired now l" "needs_new_bucket now n w (map_of (fw_buckets l) k)"
      "map_of (fw_buckets l1) k \<noteq> None \<or> int (length (fw_buckets l1)) < fw_maxBuckets l1"
  | (full) e where "x = Inl e" "l' = remove_expired now l"
proof (cases "needs_new_bucket now n w (map_of (fw_buckets l) k)")
  case False
  then obtain b where "map_of (fw_buckets l) k = Some b"
    by (auto simp: needs_new_bucket_def split: option.splits)
  with False assms existing show ?thesis by (auto simp: acquire_bucket_def Let_def)
next
  case True
  define l1 where "l1 = (if map_of (fw_buckets l) k = None \<and> int (length (fw_buckets l)) \<ge> fw_maxBuckets l
                   then remove_expired now l else l)"
  show ?thesis
  proof (cases "map_of (fw_buckets l) k = None \<and> int (length (fw_buckets l1)) \<ge> fw_maxBuckets l1")
    case full': True
    then have "l1 = remove_expired now l" by (auto simp: l1_def)
    with full' have "int (length (fw_buckets l)) \<ge> fw_maxBuckets l"
      by (auto simp: l1_def split: if_splits)
    with full' \<open>l1 = remove_expired now l\<close> True assms full show ?thesis
      by (auto simp: acquire_bucket_def Let_def)
  next
    case False
    with True assms have "x = Inr (new_bucket now n w)"
      "l' = l1\<lparr>fw_buckets := AList.update k (new_bucket now n w) (fw_buckets l1)\<rparr>"
      by (auto simp: acquire_bucket_def Let_def l1_def split: if_splits)
    moreover have "l1 = l \<or> l1 = remove_expired now l" by (auto simp: l1_def)
    moreover have "map_of (fw_buckets l1) k \<noteq> None \<or> int (length (fw_buckets l1)) < fw_maxBuckets l1"
      using False by (auto simp: l1_def)
    ultimately show ?thesis using True by (intro fresh)
  qed
qed

lemma new_bucket_ok: "0 < n \<Longrightarrow> bucket_ok (new_bucket now n w)"
  by (simp add: new_bucket_def bucket_ok_def Let_def)

lemma acquire_bucket_ok:
  assumes "limiter_ok l" "0 < n" and "acquire_bucket now k n w l = (x, l')"
  shows "limiter_ok l'" and "fw_maxBuckets l' = fw_maxBuckets l"
    and "x = Inr b \<Longrightarrow> map_of (fw_buckets l') k = Some b"
proof -
  note remove_expired_ok [OF assms(1), of now]
  with assms(1,2) show "limiter_ok l'" "fw_maxBuckets l' = fw_maxBuckets l"
    and "x = Inr b \<Longrightarrow> map_of (fw_buckets l') k = Some b"
    by (cases rule: acquire_bucket_cases [OF assms(3)];
        auto intro!: update_bucket_ok new_bucket_ok)+
qed

lemma take_from_bucket_ok:
  assumes "limiter_ok l" "map_of (fw_buckets l) k = Some b" and "take_from_bucket now k b l = (r, l')"
  shows "limiter_ok l'" and "fw_maxBuckets l' = fw_maxBuckets l"
proof -
  have b: "bucket_ok b" using assms(1,2) by (rule limiter_ok_bucket)
  have "limiter_ok (l\<lparr>fw_buckets := AList.update k (b\<lparr>bk_count := bk_count b + 1\<rparr>) (fw_buckets l)\<rparr>)"
    if "bk_count b < bk_limit b"
    using assms(1,2) b that by (intro update_bucket_ok) (auto simp: bucket_ok_def)
  then show "limiter_ok l'" "fw_maxBuckets l' = fw_maxBuckets l"
    using assms(1,3) by (auto simp: take_from_bucket_def Let_def split: if_splits)
qed

lemma positive_requests: "is_positive_safe (rlp_requests p) \<Longrightarrow> 0 < int_of_num (rlp_requests p)"
  by (auto simp: is_positive_safe_num)

lemma fixed_window_check_ok:
  assumes "limiter_ok l" and "fixed_window_check now r i p l = (x, l')"
  shows "limiter_ok l' \<and> fw_maxBuckets l' = fw_maxBuckets l"
proof (cases "validate_rate_limit_input r i p")
  case (Inl e)
  with assms show ?thesis by (simp add: fixed_window_check_def)
next
  case (Inr w)
  have n: "0 < int_of_num (rlp_requests p)"
    using positive_requests validate_ok_parts(2) [OF Inr] .
  note c = cleanup_ok [OF assms(1), of now]
  obtain y l1 where y: "acquire_bucket now (bucket_key r i) (int_of_num (rlp_requests p)) w (cleanup now l) = (y, l1)"
    by fastforce
  note A = acquire_bucket_ok [OF c n y]
  show ?thesis
  proof (cases y)
    case (Inl e)
    with assms Inr y A show ?thesis by (auto simp: fixed_window_check_def Let_def split: if_splits)
  next
    case (Inr b)
    obtain res l2 where t: "take_from_bucket now (bucket_key r i) b l1 = (res, l2)" by fastforce
    from take_from_bucket_ok [OF A(1) _ t] A(2) A(3) [OF Inr]
    have "limiter_ok l2 \<and> fw_maxBuckets l2 = fw_maxBuckets l" by simp
    with assms \<open>validate_rate_limit_input r i p = Inr w\<close> y Inr t show ?thesis
      by (auto simp: fixed_window_check_def Let_def split: if_splits)
  qed
qed


section \<open>Windows of whole milliseconds\<close>

text \<open>
  Between checks the table records only windows that have begun: a bucket whose window is
  \<open>w\<close> whole milliseconds ends at a multiple of \<open>w\<close>, and started no later than the last
  clock reading \<open>t\<close>. (Beyond \<open>2 ^ 53\<close> the double arithmetic of the end is no longer exact.)
\<close>

definition bucket_aligned :: "int \<Rightarrow> rate_limit_bucket \<Rightarrow> bool" where
  "bucket_aligned t b \<longleftrightarrow> (\<forall>w. bk_windowMs b = num w \<longrightarrow> 0 < w \<longrightarrow> t + w \<le> 2 ^ 53 \<longrightarrow>
     (\<exists>j. bk_resetAt b = num (j * w + w) \<and> j * w \<le> t))"

definition fixed_window_inv :: "int \<Rightarrow> fixed_window_limiter \<Rightarrow> bool" where
  "fixed_window_inv t l \<longleftrightarrow> limiter_ok l \<and> (\<forall>kb \<in> set (fw_buckets l). bucket_aligned t (snd kb))"

definition counts_window :: "int \<Rightarrow> int \<Rightarrow> int \<Rightarrow> rate_limit_bucket \<Rightarrow> bool" where
  "counts_window n w now b \<longleftrightarrow>
     bk_limit b = n \<and> bk_windowMs b = num w \<and> bk_resetAt b = num (now div w * w + w)"

definition bucket_used :: "int \<Rightarrow> int \<Rightarrow> int \<Rightarrow> rate_limit_bucket option \<Rightarrow> int" where
  "bucket_used n w now b =
     (case b of None \<Rightarrow> 0 | Some b \<Rightarrow> if counts_window n w now b then bk_count b else 0)"

definition fixed_window_used :: "fixed_window_limiter \<Rightarrow> ustr \<Rightarrow> ustr \<Rightarrow> int \<Rightarrow> int \<Rightarrow> int \<Rightarrow> int" where
  "fixed_window_used l r i n w now = bucket_used n w now (map_of (fw_buckets l) (bucket_key r i))"

definition keys_apart :: "ustr \<Rightarrow> ustr \<Rightarrow> ustr \<Rightarrow> ustr \<Rightarrow> bool" where
  "keys_apart r i r' i' \<longleftrightarrow> bucket_key r i \<noteq> bucket_key r' i'"

lemma bucket_key_inject:
  assumes "0 \<notin> set r" "0 \<notin> set r'"
  shows "bucket_key r i = bucket_key r' i' \<longleftrightarrow> r = r' \<and> i = i'"
  using assms append_eq_append_conv2 [of r "0 # i" r' "0 # i'"]
  by (auto simp: bucket_key_def Cons_eq_append_conv append_eq_Cons_conv)

lemma window_bounds:
  fixes w now :: int
  assumes "0 < w"
  shows "now div w * w \<le> now" and "now < now div w * w + w"
  using assms div_mult_mod_eq [of now w] pos_mod_bound [of w now] pos_mod_sign [of w now] by linarith+

lemma new_bucket_int:
  assumes "0 \<le> now" "0 < w" "now + w \<le> 2 ^ 53"
  shows "new_bucket (num now) n (num w) =
    \<lparr>bk_count = 0, bk_limit = n, bk_windowMs = num w, bk_resetAt = num (now div w * w + w)\<rparr>"
proof -
  note B = window_bounds [OF assms(2), of now]
  have q: "0 \<le> now div w * w" using assms by (simp add: pos_imp_zdiv_nonneg_iff)
  have "jfloor (jdiv (num now) (num w)) = num (now div w)"
    using assms by (intro jfloor_jdiv_int) linarith+
  moreover have "jmul (num (now div w)) (num w) = num (now div w * w)"
    using B q assms by (intro jmul_int) linarith
  moreover have "jadd (num (now div w * w)) (num w) = num (now div w * w + w)"
    using B q assms by (intro jadd_int) linarith
  ultimately show ?thesis by (simp add: new_bucket_def Let_def)
qed

lemma bucket_aligned_mono: "bucket_aligned t b \<Longrightarrow> t \<le> t' \<Longrightarrow> bucket_aligned t' b"
  unfolding bucket_aligned_def by (meson add_right_mono order_trans)

lemma new_bucket_aligned: "0 \<le> now \<Longrightarrow> bucket_aligned now (new_bucket (num now) n w)"
proof (unfold bucket_aligned_def, intro allI impI)
  fix v assume "0 \<le> now" "bk_windowMs (new_bucket (num now) n w) = num v" "0 < v" "now + v \<le> 2 ^ 53"
  moreover from this have "w = num v" by (simp add: new_bucket_def Let_def)
  ultimately show "\<exists>j. bk_resetAt (new_bucket (num now) n w) = num (j * v + v) \<and> j * v \<le> now"
    using new_bucket_int [of now v n] window_bounds(1) [of v now] by auto
qed

lemma bucket_aligned_count [simp]: "bucket_aligned t (b\<lparr>bk_count := c\<rparr>) = bucket_aligned t b"
  by (simp add: bucket_aligned_def)

text \<open>A live bucket of a window is the bucket of the window the clock is in.\<close>

lemma live_bucket_window:
  assumes "bucket_aligned t b" "t \<le> now" "bk_windowMs b = num w" "0 < w" "now + w \<le> 2 ^ 53"
    and "\<not> jle (bk_resetAt b) (num now)"
  shows "bk_resetAt b = num (now div w * w + w)"
proof -
  from bucket_aligned_mono [OF assms(1,2)] assms obtain j
    where j: "bk_resetAt b = num (j * w + w)" "j * w \<le> now" by (auto simp: bucket_aligned_def)
  with assms(6) have "now < j * w + w" by simp
  with j(2) have "now div w = j"
    by (intro int_div_pos_eq [of _ _ _ "now - j * w"]) (simp_all add: mult.commute)
  with j show ?thesis by simp
qed

lemma expired_not_counting: "counts_window n w now b \<Longrightarrow> 0 < w \<Longrightarrow> \<not> jle (bk_resetAt b) (num now)"
  using window_bounds(2) [of w now] by (simp add: counts_window_def)

lemma expired_not_counting_later:
  "counts_window n w now b \<Longrightarrow> 0 < w \<Longrightarrow> t \<le> now \<Longrightarrow> \<not> jle (bk_resetAt b) (num t)"
  using window_bounds(2) [of w now] by (simp add: counts_window_def)


section \<open>The limiter provides the quota interface\<close>

lemma inv_limiter_ok [simp]: "fixed_window_inv t l \<Longrightarrow> limiter_ok l"
  by (simp add: fixed_window_inv_def)

lemma inv_map_ok [simp]: "limiter_ok l \<Longrightarrow> map_ok (fw_buckets l)"
  by (simp add: limiter_ok_def)

lemma inv_mono: "fixed_window_inv t l \<Longrightarrow> t \<le> t' \<Longrightarrow> fixed_window_inv t' l"
  by (auto simp: fixed_window_inv_def intro: bucket_aligned_mono)

lemma inv_remove_expired: "fixed_window_inv t l \<Longrightarrow> fixed_window_inv t (remove_expired now l)"
  unfolding fixed_window_inv_def using remove_expired_ok [of l now] by (auto simp: remove_expired_def)

lemma inv_cleanup: "fixed_window_inv t l \<Longrightarrow> fixed_window_inv t (cleanup now l)"
  using inv_remove_expired [of t l now] by (auto simp: cleanup_def fixed_window_inv_def limiter_ok_def)

lemma inv_update:
  assumes "fixed_window_inv t l" "limiter_ok (l\<lparr>fw_buckets := AList.update k b (fw_buckets l)\<rparr>)"
    and "bucket_aligned t b"
  shows "fixed_window_inv t (l\<lparr>fw_buckets := AList.update k b (fw_buckets l)\<rparr>)"
  using assms set_update_subset [of k b "fw_buckets l"] by (fastforce simp: fixed_window_inv_def)

lemma inv_bucket_aligned: "fixed_window_inv t l \<Longrightarrow> map_of (fw_buckets l) k = Some b \<Longrightarrow> bucket_aligned t b"
  by (drule map_of_SomeD) (auto simp: fixed_window_inv_def)

lemma inv_acquire:
  assumes "fixed_window_inv now l" "0 \<le> now" "0 < n" "acquire_bucket (num now) k n w l = (x, l')"
  shows "fixed_window_inv now l'"
  using acquire_bucket_ok(1) [OF inv_limiter_ok [OF assms(1)] assms(3,4)] assms(1)
    inv_remove_expired [OF assms(1), of "num now"] new_bucket_aligned [OF assms(2), of n w]
  by (cases rule: acquire_bucket_cases [OF assms(4)]) (auto intro!: inv_update)

lemma inv_take:
  assumes "fixed_window_inv t l" "map_of (fw_buckets l) k = Some b" "take_from_bucket now k b l = (r, l')"
  shows "fixed_window_inv t l'"
  using take_from_bucket_ok(1) [OF inv_limiter_ok [OF assms(1)] assms(2,3)] assms
    inv_bucket_aligned [OF assms(1,2)]
  by (auto simp: take_from_bucket_def Let_def intro!: inv_update split: if_splits)

text \<open>What a check does to the table, once its input is valid.\<close>

lemma fixed_window_check_cases:
  assumes "fixed_window_check (num now) r i p l = (x, l')" "fixed_window_inv t l" "0 \<le> t" "t \<le> now"
  obtains
    (refused) e where "x = Inl e" "l' = l"
  | (full) e where "x = Inl e" "l' = remove_expired (num now) (cleanup (num now) l)"
  | (counted) w b l1 res where "validate_rate_limit_input r i p = Inr w"
      "acquire_bucket (num now) (bucket_key r i) (int_of_num (rlp_requests p)) w (cleanup (num now) l) = (Inr b, l1)"
      "map_of (fw_buckets l1) (bucket_key r i) = Some b" "fixed_window_inv now l1"
      "take_from_bucket (num now) (bucket_key r i) b l1 = (res, l')" "x = Inr res"
proof (cases "validate_rate_limit_input r i p")
  case (Inl e)
  with assms(1) have "x = Inl e" "l' = l" by (simp_all add: fixed_window_check_def)
  with refused show ?thesis by blast
next
  case (Inr w)
  have n: "0 < int_of_num (rlp_requests p)" using positive_requests validate_ok_parts(2) [OF Inr] .
  have clk: "\<not> (\<not> is_finite (num now) \<or> jlt (num now) (num 0))" using assms(3,4) by simp
  have inv: "fixed_window_inv now (cleanup (num now) l)"
    using inv_cleanup inv_mono assms(2,4) by blast
  have pos: "0 \<le> now" using assms(3,4) by simp
  obtain y l1 where y: "acquire_bucket (num now) (bucket_key r i) (int_of_num (rlp_requests p)) w
      (cleanup (num now) l) = (y, l1)" by fastforce
  show ?thesis
  proof (cases y)
    case (Inl e)
    from y Inl have "l1 = remove_expired (num now) (cleanup (num now) l)"
      by (cases rule: acquire_bucket_cases [OF y]) auto
    moreover from assms(1) y Inl Inr clk have "x = Inl e" "l' = l1"
      by (auto simp: fixed_window_check_def Let_def)
    ultimately show ?thesis using full by blast
  next
    case b: (Inr b)
    obtain res l2 where res: "take_from_bucket (num now) (bucket_key r i) b l1 = (res, l2)" by fastforce
    have "map_of (fw_buckets l1) (bucket_key r i) = Some b"
      using acquire_bucket_ok(3) [OF inv_limiter_ok [OF inv] n y b] .
    moreover have "fixed_window_inv now l1" by (rule inv_acquire [OF inv pos n y])
    moreover from assms(1) y b Inr clk res have "x = Inr res" "l' = l2"
      by (auto simp: fixed_window_check_def Let_def)
    ultimately show ?thesis using counted [OF Inr] y b res by simp
  qed
qed

lemma used_remove_expired:
  assumes "limiter_ok l" "0 < w" "t \<le> now"
  shows "fixed_window_used (remove_expired (num t) l) r i n w now = fixed_window_used l r i n w now"
proof -
  have "map_of (fw_buckets (remove_expired (num t) l)) (bucket_key r i) =
      (case map_of (fw_buckets l) (bucket_key r i) of None \<Rightarrow> None
       | Some b \<Rightarrow> if \<not> jle (bk_resetAt b) (num t) then Some b else None)"
    using map_of_filter_val [OF inv_map_ok [OF assms(1)], of "\<lambda>b. \<not> jle (bk_resetAt b) (num t)"]
    by (simp add: remove_expired_def)
  then show ?thesis
    using expired_not_counting_later [OF _ assms(2,3)]
    by (auto simp: fixed_window_used_def bucket_used_def split: option.splits)
qed

lemma used_cleanup:
  assumes "limiter_ok l" "0 < w"
  shows "fixed_window_used (cleanup (num now) l) r i n w now = fixed_window_used l r i n w now"
  using used_remove_expired [OF assms order_refl, of now r i n]
  by (simp add: cleanup_def fixed_window_used_def)

lemma used_update:
  "fixed_window_used (l\<lparr>fw_buckets := AList.update k b (fw_buckets l)\<rparr>) r i n w now =
     (if bucket_key r i = k then bucket_used n w now (Some b) else fixed_window_used l r i n w now)"
  by (simp add: fixed_window_used_def)

lemma used_acquire:
  assumes "fixed_window_inv now l" "0 \<le> now" "now + w \<le> 2 ^ 53" "0 < w"
    and "acquire_bucket (num now) (bucket_key r i) n (num w) l = (Inr b, l')"
  shows "counts_window n w now b" and "bk_count b = fixed_window_used l r i n w now"
proof -
  from assms(5) have "counts_window n w now b \<and> bk_count b = fixed_window_used l r i n w now"
  proof (cases rule: acquire_bucket_cases)
    case (existing b')
    then have b: "bk_limit b = n" "bk_windowMs b = num w" "\<not> jle (bk_resetAt b) (num now)"
      by (auto simp: needs_new_bucket_def jeq_def)
    have "bucket_aligned now b" using inv_bucket_aligned [OF assms(1)] existing by simp
    from live_bucket_window [OF this order_refl b(2) assms(4,3) b(3)] b existing show ?thesis
      by (simp add: counts_window_def fixed_window_used_def bucket_used_def)
  next
    case (fresh l1)
    then have b: "b = new_bucket (num now) n (num w)" by simp
    have "\<not> counts_window n w now b'" if "map_of (fw_buckets l) (bucket_key r i) = Some b'" for b'
      using fresh(4) that expired_not_counting [of n w now b'] assms(4)
      by (auto simp: needs_new_bucket_def counts_window_def)
    then have "fixed_window_used l r i n w now = 0"
      by (auto simp: fixed_window_used_def bucket_used_def split: option.splits)
    with b new_bucket_int [OF assms(2,4,3)] show ?thesis by (simp add: counts_window_def)
  next
    case (full e)
    then show ?thesis by simp
  qed
  then show "counts_window n w now b" "bk_count b = fixed_window_used l r i n w now" by simp_all
qed

lemma used_acquire_frame:
  assumes "limiter_ok l" "0 < w" "acquire_bucket (num now) k' n' w' l = (x, l')" "bucket_key r i \<noteq> k'"
  shows "fixed_window_used l' r i n w now = fixed_window_used l r i n w now"
  using used_remove_expired [OF assms(1,2) order_refl, of now r i n] assms(4)
  by (cases rule: acquire_bucket_cases [OF assms(3)]) (auto simp: used_update)

lemma used_take:
  assumes "take_from_bucket now k b l = (res, l')"
  shows "rl_allowed res \<longleftrightarrow> bk_count b < bk_limit b"
    and "l' = (if rl_allowed res then l\<lparr>fw_buckets := AList.update k (b\<lparr>bk_count := bk_count b + 1\<rparr>) (fw_buckets l)\<rparr> else l)"
  using assms by (auto simp: take_from_bucket_def Let_def split: if_splits)

lemma counts_window_count [simp]: "counts_window n w now (b\<lparr>bk_count := c\<rparr>) = counts_window n w now b"
  by (simp add: counts_window_def)

lemma retry_after_int:
  assumes "0 \<le> now" "0 < w" "now + w \<le> 2 ^ 53"
  shows "retry_after (num (window_end w now)) (num now)
           = num (max 1 (- (- (window_end w now - now) div 1000)))"
proof -
  note B = window_bounds [OF assms(2), of now]
  have d: "0 < window_end w now - now" "window_end w now - now \<le> w" "w \<le> 2 ^ 53"
    using B assms by (auto simp: window_end_def)
  have "0 \<le> now div w * w" using assms by (simp add: pos_imp_zdiv_nonneg_iff)
  with d B assms have "window_end w now - now < 2 ^ 53 \<or> window_end w now - now = 2 ^ 53" by linarith
  then show ?thesis
  proof
    assume "window_end w now - now < 2 ^ 53"
    with d show ?thesis by (simp add: retry_after_def jsub_int jceil_jdiv_int)
  next
    assume e: "window_end w now - now = 2 ^ 53"
    have "jceil (jdiv (num (2 ^ 53)) (num 1000)) = num (- (- (2 ^ 53) div 1000))" by code_simp
    with e show ?thesis by (simp add: retry_after_def jsub_int)
  qed
qed

lemma take_from_bucket_answer:
  assumes "take_from_bucket (num now) k b l = (res, l')" "counts_window n w now b"
    and "0 \<le> now" "0 < w" "now + w \<le> 2 ^ 53"
  shows "res = window_answer n w now (bk_count b)"
  using assms retry_after_int [OF assms(3-5)]
  by (auto simp: take_from_bucket_def counts_window_def window_answer_def window_end_def Let_def
      split: if_splits)

lemma fixed_window_answer:
  assumes "fixed_window_inv t l" "0 \<le> t" "t \<le> now" "now + w \<le> 2 ^ 53" "plain_policy p n w"
    and "fixed_window_check (num now) r i p l = (Inr res, l')"
  shows "res = window_answer n w now (fixed_window_used l r i n w now)
     \<and> fixed_window_used l' r i n w now = fixed_window_used l r i n w now + (if rl_allowed res then 1 else 0)"
  using assms(6,1-3)
proof (cases rule: fixed_window_check_cases)
  case (counted w' b l1 res')
  have w: "0 < w" using plain_policy_window [OF assms(5)] by simp
  have w': "w' = num w" and n: "int_of_num (rlp_requests p) = n"
    using validate_plain [OF assms(5) counted(1)] assms(5) by (simp_all add: plain_policy_def)
  have inv: "fixed_window_inv now (cleanup (num now) l)" using inv_cleanup inv_mono assms(1,3) by blast
  have now: "0 \<le> now" using assms(2,3) by simp
  note A = used_acquire [OF inv now assms(4) w counted(2) [unfolded w' n]]
  have u: "fixed_window_used (cleanup (num now) l) r i n w now = fixed_window_used l r i n w now"
    using used_cleanup [OF inv_limiter_ok [OF assms(1)] w] .
  have lim: "bk_limit b = n" using A(1) by (simp add: counts_window_def)
  have u1: "fixed_window_used l1 r i n w now = bk_count b"
    using counted(3) A(1) by (simp add: fixed_window_used_def bucket_used_def)
  have "res = window_answer n w now (bk_count b)"
    using take_from_bucket_answer [OF counted(5) A(1) now w assms(4)] counted(6) by simp
  with used_take [OF counted(5)] counted(6) A u u1 lim show ?thesis
    by (auto simp: used_update bucket_used_def)
qed simp_all

lemma fixed_window_error:
  assumes "fixed_window_inv t l" "0 \<le> t" "t \<le> now" "0 < w"
    and "fixed_window_check (num now) r' i' p l = (Inl e, l')"
  shows "fixed_window_used l' r i n w now = fixed_window_used l r i n w now"
  using assms(5,1-3)
proof (cases rule: fixed_window_check_cases)
  case (full e')
  have "limiter_ok (cleanup (num now) l)" using cleanup_ok assms(1) by simp
  from used_remove_expired [OF this assms(4) order_refl] used_cleanup [OF inv_limiter_ok [OF assms(1)] assms(4)]
  show ?thesis by (simp add: full)
qed simp_all

lemma fixed_window_frame:
  assumes "fixed_window_inv t l" "0 \<le> t" "t \<le> now" "keys_apart r i r' i'" "0 < w"
    and "fixed_window_check (num now) r' i' p l = (x, l')"
  shows "fixed_window_used l' r i n w now = fixed_window_used l r i n w now"
  using assms(6,1-3)
proof (cases rule: fixed_window_check_cases)
  case (counted w' b l1 res)
  have k: "bucket_key r i \<noteq> bucket_key r' i'" using assms(4) by (simp add: keys_apart_def)
  have c: "limiter_ok (cleanup (num now) l)" using cleanup_ok assms(1) by simp
  from used_take(2) [OF counted(5)] k
  have "fixed_window_used l' r i n w now = fixed_window_used l1 r i n w now"
    by (auto simp: used_update split: if_splits)
  with used_acquire_frame [OF c assms(5) counted(2) k] used_cleanup [OF inv_limiter_ok [OF assms(1)] assms(5)]
  show ?thesis by simp
next
  case (full e)
  with assms fixed_window_error [OF assms(1-3,5)] show ?thesis by simp
qed simp_all

lemma fixed_window_inv_check:
  assumes "fixed_window_inv t l" "0 \<le> t" "t \<le> now" "fixed_window_check (num now) r i p l = (x, l')"
  shows "fixed_window_inv now l'"
  using assms(4,1-3)
proof (cases rule: fixed_window_check_cases)
  case (counted w b l1 res)
  from inv_take [OF counted(4,3,5)] show ?thesis .
next
  case (full e)
  with inv_mono [OF assms(1,3)] show ?thesis by (simp add: inv_remove_expired inv_cleanup)
next
  case (refused e)
  with inv_mono [OF assms(1,3)] show ?thesis by simp
qed

interpretation fixed_window: rate_limiter "\<lambda>now. fixed_window_check (num now)" fixed_window_inv fixed_window_used keys_apart
proof unfold_locales
  show "fixed_window_used s r i n w now = fixed_window_used s r i n w now'"
    if "now div w = now' div w" for now w now' s r i n
    using that by (simp add: fixed_window_used_def bucket_used_def counts_window_def split: option.split)
  show "0 \<le> fixed_window_used s r i n w now \<and> fixed_window_used s r i n w now \<le> n"
    if inv: "fixed_window_inv t s" and n: "0 < n" for t s n r i w now
  proof (cases "map_of (fw_buckets s) (bucket_key r i)")
    case (Some b)
    have "bucket_ok b" by (rule limiter_ok_bucket [OF inv_limiter_ok [OF inv] Some])
    with Some n show ?thesis
      by (auto simp: fixed_window_used_def bucket_used_def bucket_ok_def counts_window_def)
  qed (use n in \<open>simp add: fixed_window_used_def bucket_used_def\<close>)
qed (auto intro: fixed_window_inv_check fixed_window_frame fixed_window_error
      dest: plain_policy_window simp: fixed_window_answer)

lemma new_limiter_inv:
  "new_fixed_window_limiter m = Inr l \<Longrightarrow> fixed_window_inv 0 l \<and> fw_buckets l = [] \<and> 0 < fw_maxBuckets l"
proof -
  assume l: "new_fixed_window_limiter m = Inr l"
  define d where "d = (case m of None \<Rightarrow> default_max_buckets | Some n \<Rightarrow> n)"
  from l have "is_positive_safe d" and "l = \<lparr>fw_maxBuckets = int_of_num d, fw_buckets = [], fw_nextCleanupAt = num 0\<rparr>"
    by (auto simp: new_fixed_window_limiter_def d_def [symmetric] Let_def is_positive_safe_def split: if_splits)
  then show ?thesis by (auto simp: is_positive_safe_num fixed_window_inv_def limiter_ok_def)
qed


section \<open>Properties\<close>

text \<open>C9: Quota. Within one window a key is admitted exactly as often as it is answered, up to the
  policy's request count less what the window has already used, whatever other keys are
  checked in between.\<close>

theorem fixed_window_quota:
  assumes "fixed_window_inv t l" "0 \<le> t" "calls_in_window keys_apart r i p w k t cs" "plain_policy p n w"
    and "run_checks (\<lambda>now. fixed_window_check (num now)) cs l = (xs, l')"
  shows "admitted_count r i cs xs = min (answered_count r i cs xs) (n - fixed_window_used l r i n w (k * w))"
  using assms by (rule fixed_window.window_quota)

text \<open>C22: Capacity. Whatever it is asked, the limiter never holds more buckets than its maximum,
  keeps one bucket per key, and never counts a bucket beyond its limit; the maximum itself
  never changes.\<close>

theorem fixed_window_capacity:
  assumes "limiter_ok l" and "fixed_window_check now r i p l = (x, l')"
  shows "limiter_ok l' \<and> int (length (fw_buckets l')) \<le> fw_maxBuckets l \<and> fw_maxBuckets l' = fw_maxBuckets l"
  using fixed_window_check_ok [OF assms] by (simp add: limiter_ok_def)

subsection \<open>A concrete run\<close>

definition demo_policy :: rate_limit_policy where
  "demo_policy = \<lparr>rlp_requests = num 1, rlp_window = js ''1s'', rlp_key = KeyClientIp\<rparr>"

definition demo_limiter :: fixed_window_limiter where
  "demo_limiter = \<lparr>fw_maxBuckets = 2, fw_buckets = [], fw_nextCleanupAt = num 0\<rparr>"

definition demo_call :: "int \<Rightarrow> nat \<Rightarrow> limiter_call" where
  "demo_call now i = \<lparr>lc_time = now, lc_route = [97], lc_identity = [i], lc_policy = demo_policy\<rparr>"

definition demo_calls :: "limiter_call list" where
  "demo_calls = [demo_call 5000 98, demo_call 5100 99, demo_call 5200 98]"

lemma demo_plain: "plain_policy demo_policy 1 1000"
proof -
  have "parse_duration_milliseconds (js ''1s'') = Inr (num 1000)" by code_simp
  then show ?thesis by (simp add: plain_policy_def demo_policy_def max_safe_def)
qed

lemma demo_validate: "i \<in> {98, 99} \<Longrightarrow> validate_rate_limit_input [97] [i] demo_policy = Inr (num 1000)"
  using demo_plain by (auto simp: validate_rate_limit_input_def trim_def is_space_def plain_policy_def)

lemma demo_requests: "rlp_requests demo_policy = num 1"
  by (simp add: demo_policy_def)

lemmas demo_step_defs = demo_call_def demo_calls_def demo_limiter_def fixed_window_check_def
  demo_validate demo_requests cleanup_def remove_expired_def acquire_bucket_def
  needs_new_bucket_def new_bucket_def take_from_bucket_def exact_arith cleanup_interval_ms_def
  bucket_key_def

lemma demo_run:
  "map is_admitted (fst (run_checks (\<lambda>now. fixed_window_check (num now)) demo_calls demo_limiter))
     = [True, True, False]"
  by (simp add: demo_step_defs Let_def)

lemma demo_limiter_inv: "fixed_window_inv 0 demo_limiter"
  by (simp add: demo_limiter_def fixed_window_inv_def limiter_ok_def)

lemma demo_window: "calls_in_window keys_apart [97] [98] demo_policy 1000 5 0 demo_calls"
  by (simp add: demo_calls_def demo_call_def keys_apart_def bucket_key_def)

theorem fixed_window_quota_witness:
  "\<exists>xs l'. run_checks (\<lambda>now. fixed_window_check (num now)) demo_calls demo_limiter = (xs, l')
     \<and> map is_admitted xs = [True, True, False]
     \<and> admitted_count [97] [98] demo_calls xs = min (answered_count [97] [98] demo_calls xs) 1"
proof -
  obtain xs l' where run: "run_checks (\<lambda>now. fixed_window_check (num now)) demo_calls demo_limiter = (xs, l')"
    by fastforce
  have "fixed_window_used demo_limiter [97] [98] 1 1000 (5 * 1000) = 0"
    by (simp add: demo_limiter_def fixed_window_used_def bucket_used_def)
  with fixed_window_quota [OF demo_limiter_inv order_refl demo_window demo_plain run] run demo_run
  show ?thesis by auto
qed

theorem fixed_window_capacity_witness:
  "limiter_ok (snd (fixed_window_check (num 5000) [97] [98] demo_policy demo_limiter))"
  using fixed_window_capacity [OF inv_limiter_ok [OF demo_limiter_inv], of "num 5000" "[97]" "[98]" demo_policy]
  by (metis prod.collapse)

end
