(* ===== verification/RedisRateLimit.thy ===== *)
theory RedisRateLimit imports FixedWindow begin

text \<open>
  The distributed limiter (\<open>edge/src/redis-rate-limit.ts\<close>): the Lua script that Redis runs
  atomically, modelled over a database of hashes with expiry times, and the client that sends
  it and validates the reply. The digest of a key (\<open>createHash('sha256')\<close>, hexadecimal) is an
  argument \<open>digest\<close>. Script arithmetic is on integers; Lua's doubles hold them exactly while
  the end of the window is below \<open>2 ^ 53\<close>.
\<close>

section \<open>The script\<close>

record redis_hash =
  rh_start :: int
  rh_count :: int
  rh_limit :: int
  rh_window :: int

text \<open>A database maps a key to its hash and the time at which \<open>PEXPIRE\<close> makes it vanish.\<close>

type_synonym redis_db = "(redis_hash \<times> int) js_map"

definition live_hash :: "int \<Rightarrow> redis_db \<Rightarrow> ustr \<Rightarrow> redis_hash option" where
  "live_hash now db key =
     (case map_of db key of None \<Rightarrow> None | Some (h, expires) \<Rightarrow> if now \<le> expires then Some h else None)"

text \<open>\<open>now_ms\<close> from the two numbers of the \<open>TIME\<close> command.\<close>

definition redis_now_ms :: "int \<Rightarrow> int \<Rightarrow> int" where
  "redis_now_ms seconds microseconds = seconds * 1000 + microseconds div 1000"

definition fixed_window_script ::
  "int \<Rightarrow> ustr \<Rightarrow> int \<Rightarrow> int \<Rightarrow> redis_db \<Rightarrow> (int \<times> int \<times> int \<times> int \<times> int) \<times> redis_db" where
  "fixed_window_script now_ms key requested_limit window_ms db =
     (let window_start = now_ms - now_ms mod window_ms;
          reset_at = window_start + window_ms;
          h = (case live_hash now_ms db key of
                 Some e \<Rightarrow>
                   (if rh_start e \<noteq> window_start \<or> rh_limit e \<noteq> requested_limit \<or> rh_window e \<noteq> window_ms
                    then \<lparr>rh_start = window_start, rh_count = 0, rh_limit = requested_limit, rh_window = window_ms\<rparr>
                    else e)
               | None \<Rightarrow>
                   \<lparr>rh_start = window_start, rh_count = 0, rh_limit = requested_limit, rh_window = window_ms\<rparr>);
          allowed = (if rh_count h < requested_limit then 1 else 0);
          count = rh_count h + allowed;
          remaining = max 0 (requested_limit - count);
          retry = max 1 (- (- (reset_at - now_ms) div 1000))
      in ((allowed, requested_limit, remaining, reset_at, retry),
          AList.update key (h\<lparr>rh_count := count\<rparr>, now_ms + max 1 (reset_at - now_ms)) db))"

section \<open>The client\<close>

datatype redis_value = RedisNumber jsnum | RedisBigint int | RedisString ustr | RedisOther
datatype redis_reply = ReplyArray "redis_value list" | ReplyOther

definition parse_integer :: "redis_value \<Rightarrow> int option" where
  "parse_integer v =
     (let parsed = (case v of RedisBigint i \<Rightarrow> Some (fl (of_int i))
                     | RedisNumber x \<Rightarrow> Some x
                     | RedisString s \<Rightarrow> Some (number_of_string s)
                     | RedisOther \<Rightarrow> None)
      in case parsed of None \<Rightarrow> None
         | Some x \<Rightarrow> if is_safe_integer x then Some (int_of_num x) else None)"

definition invalid_reply :: js_error where
  "invalid_reply = RateLimiterError (js ''distributed rate limiter returned an invalid response'')"

definition parse_reply :: "redis_reply \<Rightarrow> rate_limit_result result" where
  "parse_reply reply =
     (case reply of
        ReplyArray [v1, v2, v3, v4, v5] \<Rightarrow>
          (case (parse_integer v1, parse_integer v2, parse_integer v3, parse_integer v4, parse_integer v5) of
             (Some allowed, Some quota, Some remaining, Some resetAt, Some retryAfterSeconds) \<Rightarrow>
               if (allowed \<noteq> 0 \<and> allowed \<noteq> 1) \<or> quota \<le> 0 \<or> remaining < 0 \<or> remaining > quota
                  \<or> resetAt < 0 \<or> retryAfterSeconds \<le> 0
               then Inl invalid_reply
               else Inr \<lparr>rl_allowed = (allowed = 1), rl_limit = quota, rl_remaining = remaining,
                         rl_resetAt = num resetAt, rl_retryAfterSeconds = num retryAfterSeconds\<rparr>
           | _ \<Rightarrow> Inl invalid_reply)
      | _ \<Rightarrow> Inl invalid_reply)"

definition key_prefix_char :: "nat \<Rightarrow> bool" where
  "key_prefix_char c \<longleftrightarrow> is_upper c \<or> is_lower c \<or> is_digit c \<or> c = 58 \<or> c = 95 \<or> c = 45"

definition default_key_prefix :: ustr where
  "default_key_prefix = js ''shieldward:rate-limit:v1''"

text \<open>The constructor: the prefix it keeps, or its error.\<close>

definition new_redis_limiter :: "ustr option \<Rightarrow> ustr result" where
  "new_redis_limiter keyPrefix =
     (let p = (case keyPrefix of None \<Rightarrow> default_key_prefix | Some k \<Rightarrow> k) in
      if \<not> (1 \<le> length p \<and> length p \<le> 128 \<and> list_all key_prefix_char p)
      then Inl (RateLimiterError (js ''Redis key prefix must contain 1 to 128 safe characters''))
      else Inr p)"

definition hash_identity :: "(ustr \<Rightarrow> ustr) \<Rightarrow> ustr \<Rightarrow> ustr \<Rightarrow> ustr" where
  "hash_identity digest routeId identity = digest (routeId @ [0] @ identity)"

text \<open>
  \<open>check\<close> over a transport: \<open>eval_script keys arguments\<close> is the client's \<open>eval\<close> of the script,
  which may fail. The policy's numbers are sent as decimal strings.
\<close>

definition redis_check ::
  "(ustr \<Rightarrow> ustr) \<Rightarrow> ustr \<Rightarrow> (ustr list \<Rightarrow> ustr list \<Rightarrow> 's \<Rightarrow> redis_reply result \<times> 's) \<Rightarrow>
     ustr \<Rightarrow> ustr \<Rightarrow> rate_limit_policy \<Rightarrow> 's \<Rightarrow> rate_limit_result result \<times> 's" where
  "redis_check digest keyPrefix eval_script routeId identity policy s =
     (case validate_rate_limit_input routeId identity policy of
        Inl e \<Rightarrow> (Inl e, s)
      | Inr windowMs \<Rightarrow>
          if \<not> is_safe_integer windowMs
          then (Inl (RateLimiterError
                  (js ''Redis rate-limit windows must resolve to whole milliseconds'')), s)
          else
            (let key = keyPrefix @ js '':'' @ hash_identity digest routeId identity in
             case eval_script [key] [dec_int (int_of_num (rlp_requests policy)), dec_int (int_of_num windowMs)] s of
               (Inl e, s') \<Rightarrow>
                 (Inl (RateLimiterError (js ''distributed rate limiter request failed'')), s')
             | (Inr reply, s') \<Rightarrow> (parse_reply reply, s')))"

text \<open>A reachable server: the script on the decoded arguments, the reply as numbers.\<close>

definition redis_server ::
  "int \<Rightarrow> ustr list \<Rightarrow> ustr list \<Rightarrow> redis_db \<Rightarrow> redis_reply result \<times> redis_db" where
  "redis_server now_ms keys arguments db =
     (case fixed_window_script now_ms (hd keys) (digits_value (arguments ! 0)) (digits_value (arguments ! 1)) db of
        ((a, l, m, r, t), db') \<Rightarrow>
          (Inr (ReplyArray (map (\<lambda>i. RedisNumber (num i)) [a, l, m, r, t])), db'))"

definition redis_limiter_check ::
  "(ustr \<Rightarrow> ustr) \<Rightarrow> ustr \<Rightarrow> int \<Rightarrow> ustr \<Rightarrow> ustr \<Rightarrow> rate_limit_policy \<Rightarrow> redis_db \<Rightarrow>
     rate_limit_result result \<times> redis_db" where
  "redis_limiter_check digest keyPrefix now_ms = redis_check digest keyPrefix (redis_server now_ms)"

section \<open>The script keeps its database consistent\<close>

definition redis_hash_ok :: "int \<Rightarrow> redis_hash \<Rightarrow> int \<Rightarrow> bool" where
  "redis_hash_ok t h expires \<longleftrightarrow> 0 \<le> rh_count h \<and> rh_count h \<le> rh_limit h \<and> 0 < rh_window h
     \<and> rh_start h \<le> t \<and> expires = rh_start h + rh_window h"

definition redis_inv :: "int \<Rightarrow> redis_db \<Rightarrow> bool" where
  "redis_inv t db \<longleftrightarrow> (\<forall>k h expires. map_of db k = Some (h, expires) \<longrightarrow> redis_hash_ok t h expires)"

definition redis_key :: "(ustr \<Rightarrow> ustr) \<Rightarrow> ustr \<Rightarrow> ustr \<Rightarrow> ustr \<Rightarrow> ustr" where
  "redis_key digest keyPrefix r i = keyPrefix @ js '':'' @ hash_identity digest r i"

definition hash_used :: "int \<Rightarrow> int \<Rightarrow> int \<Rightarrow> (redis_hash \<times> int) option \<Rightarrow> int" where
  "hash_used n w now v =
     (case v of None \<Rightarrow> 0
      | Some (h, expires) \<Rightarrow>
          if rh_start h = now div w * w \<and> rh_limit h = n \<and> rh_window h = w then rh_count h else 0)"

definition redis_used ::
  "(ustr \<Rightarrow> ustr) \<Rightarrow> ustr \<Rightarrow> redis_db \<Rightarrow> ustr \<Rightarrow> ustr \<Rightarrow> int \<Rightarrow> int \<Rightarrow> int \<Rightarrow> int" where
  "redis_used digest keyPrefix db r i n w now = hash_used n w now (map_of db (redis_key digest keyPrefix r i))"

definition digests_apart :: "(ustr \<Rightarrow> ustr) \<Rightarrow> ustr \<Rightarrow> ustr \<Rightarrow> ustr \<Rightarrow> ustr \<Rightarrow> bool" where
  "digests_apart digest r i r' i' \<longleftrightarrow> hash_identity digest r i \<noteq> hash_identity digest r' i'"

lemma digits_value_dec_int [simp]: "0 \<le> i \<Longrightarrow> digits_value (dec_int i) = i"
  by (simp add: dec_int_def)

lemma window_start_mod: "now - now mod w = now div w * w" for now w :: int
  by (simp add: minus_mod_eq_div_mult)

lemma script_effect:
  assumes "redis_inv t db" "t \<le> now" "0 < w" "0 < n"
    and "fixed_window_script now k n w db = (reply, db')"
  defines "u \<equiv> hash_used n w now (map_of db k)"
  shows "reply = (if u < n then 1 else 0, n, max 0 (n - (u + (if u < n then 1 else 0))), window_end w now,
           max 1 (- (- (window_end w now - now) div 1000)))"
    and "db' = AList.update k (\<lparr>rh_start = now div w * w, rh_count = u + (if u < n then 1 else 0),
           rh_limit = n, rh_window = w\<rparr>, window_end w now) db"
    and "0 \<le> u \<and> u \<le> n"
proof -
  note B = window_bounds [OF assms(3), of now]
  have m: "max 1 (now div w * w + w - now) = now div w * w + w - now" using B by simp
  have ok: "redis_hash_ok t h e" if "map_of db k = Some (h, e)" for h e
    using assms(1) that by (simp add: redis_inv_def)
  have "0 \<le> u \<and> u \<le> n \<and>
    (case live_hash now db k of
       Some e \<Rightarrow> (if rh_start e \<noteq> now div w * w \<or> rh_limit e \<noteq> n \<or> rh_window e \<noteq> w
                then \<lparr>rh_start = now div w * w, rh_count = 0, rh_limit = n, rh_window = w\<rparr> else e)
     | None \<Rightarrow> \<lparr>rh_start = now div w * w, rh_count = 0, rh_limit = n, rh_window = w\<rparr>)
    = \<lparr>rh_start = now div w * w, rh_count = u, rh_limit = n, rh_window = w\<rparr>"
  proof (cases "map_of db k")
    case None
    then show ?thesis using assms(4) by (simp add: u_def hash_used_def live_hash_def)
  next
    case (Some he)
    obtain h e where he: "he = (h, e)" by (cases he)
    with Some ok have "redis_hash_ok t h e" by simp
    with Some he B assms(4) show ?thesis
      by (cases h) (auto simp: u_def hash_used_def live_hash_def redis_hash_ok_def)
  qed
  with assms(5) m show "reply = (if u < n then 1 else 0, n, max 0 (n - (u + (if u < n then 1 else 0))), window_end w now,
           max 1 (- (- (window_end w now - now) div 1000)))"
    and "db' = AList.update k (\<lparr>rh_start = now div w * w, rh_count = u + (if u < n then 1 else 0),
           rh_limit = n, rh_window = w\<rparr>, window_end w now) db"
    and "0 \<le> u \<and> u \<le> n"
    by (auto simp: fixed_window_script_def Let_def window_start_mod window_end_def)
qed

lemma script_inv:
  assumes "redis_inv t db" "t \<le> now" "0 < w" "0 < n" "fixed_window_script now k n w db = (reply, db')"
  shows "redis_inv now db'"
  using assms(1,2) script_effect(2,3) [OF assms] window_bounds(1) [OF assms(3), of now] assms(3)
  by (auto simp: redis_inv_def redis_hash_ok_def window_end_def split: if_splits) force+


section \<open>The limiter provides the quota interface\<close>

lemma validated_numbers:
  assumes "validate_rate_limit_input r i p = Inr windowMs" "is_safe_integer windowMs"
  obtains n w where "rlp_requests p = num n" "windowMs = num w" "plain_policy p n w"
proof -
  from validate_ok_parts(2) [OF assms(1)] obtain n where n: "rlp_requests p = num n" "0 < n" "n \<le> max_safe"
    by (auto simp: is_positive_safe_num)
  from assms(2) obtain w where w: "windowMs = num w" by (auto simp: is_safe_integer_iff)
  from n w validate_ok_parts(1) [OF assms(1)] have "plain_policy p n w" by (simp add: plain_policy_def)
  with that n w show ?thesis by blast
qed

lemma redis_check_cases:
  assumes "redis_limiter_check digest pre now r i p db = (x, db')"
  obtains
    (refused) e where "x = Inl e" "db' = db" "\<And>n w. plain_policy p n w \<Longrightarrow> \<not> is_ok (validate_rate_limit_input r i p)"
  | (sent) n w a l m rs rt where "plain_policy p n w"
      "fixed_window_script now (redis_key digest pre r i) n w db = ((a, l, m, rs, rt), db')"
      "x = parse_reply (ReplyArray (map (\<lambda>i. RedisNumber (num i)) [a, l, m, rs, rt]))"
proof (cases "validate_rate_limit_input r i p")
  case (Inl e)
  with assms have "x = Inl e" "db' = db" by (simp_all add: redis_limiter_check_def redis_check_def)
  with refused Inl show ?thesis by simp
next
  case (Inr windowMs)
  show ?thesis
  proof (cases "is_safe_integer windowMs")
    case False
    with assms Inr have "\<exists>e. x = Inl e" "db' = db"
      by (auto simp: redis_limiter_check_def redis_check_def)
    moreover have "\<not> plain_policy p n w" for n w
      using False validate_plain [OF _ Inr, of n w] plain_policy_window [of p n w] by auto
    ultimately show ?thesis using refused by blast
  next
    case True
    from validated_numbers [OF Inr True] obtain n w
      where nw: "rlp_requests p = num n" "windowMs = num w" "plain_policy p n w" .
    from nw(3) plain_policy_window [OF nw(3)] have pos: "0 \<le> n" "0 \<le> w" by (simp_all add: plain_policy_def)
    obtain a l m rs rt db1 where scr: "fixed_window_script now (redis_key digest pre r i) n w db = ((a, l, m, rs, rt), db1)"
      by (metis prod.collapse)
    from assms Inr True nw(1,2) pos scr have "db1 = db'"
      and "x = parse_reply (ReplyArray (map (\<lambda>i. RedisNumber (num i)) [a, l, m, rs, rt]))"
      by (auto simp: redis_limiter_check_def redis_check_def redis_server_def redis_key_def Let_def)
    with sent nw scr show ?thesis by blast
  qed
qed

lemma parse_reply_numbers:
  assumes "0 < n" "n \<le> max_safe" "0 \<le> u" "u \<le> n" "0 \<le> now" "0 < w" "now + w < 2 ^ 53"
  shows "parse_reply (ReplyArray (map (\<lambda>i. RedisNumber (num i))
           [if u < n then 1 else 0, n, max 0 (n - (u + (if u < n then 1 else 0))), window_end w now,
            max 1 (- (- (window_end w now - now) div 1000))])) = Inr (window_answer n w now u)"
proof -
  note B = window_bounds [OF assms(6), of now]
  have e: "0 \<le> window_end w now" "window_end w now \<le> max_safe" "window_end w now - now \<le> max_safe" "0 < window_end w now - now"
    using B assms by (auto simp: window_end_def max_safe_def)
  define d where "d = window_end w now - now"
  have d: "- (- d div 1000) \<le> max_safe"
    using e(3,4) by (simp add: d_def [symmetric])
  show ?thesis
    using assms e d unfolding d_def [symmetric]
    by (simp add: parse_reply_def parse_integer_def window_answer_def max_safe_def d_def [symmetric])
qed

lemma redis_answer:
  assumes "redis_inv t db" "0 \<le> t" "t \<le> now" "now + w < 2 ^ 53" "plain_policy p n w"
    and "redis_limiter_check digest pre now r i p db = (x, db')" "is_ok (validate_rate_limit_input r i p)"
  shows "x = Inr (window_answer n w now (redis_used digest pre db r i n w now))"
    and "redis_used digest pre db' r i n w now
           = redis_used digest pre db r i n w now + (if redis_used digest pre db r i n w now < n then 1 else 0)"
proof -
  have w: "0 < w" and n: "0 < n" "n \<le> max_safe" and now: "0 \<le> now"
    using plain_policy_window [OF assms(5)] assms(2,3,5) by (simp_all add: plain_policy_def)
  from assms(6) have "x = Inr (window_answer n w now (redis_used digest pre db r i n w now)) \<and>
     redis_used digest pre db' r i n w now
           = redis_used digest pre db r i n w now + (if redis_used digest pre db r i n w now < n then 1 else 0)"
  proof (cases rule: redis_check_cases)
    case (refused e)
    with assms(5,7) show ?thesis by blast
  next
    case (sent n' w' a l m rs rt)
    with assms(5) have eq: "n' = n" "w' = w" by (auto simp: plain_policy_def)
    note S = script_effect [OF assms(1,3) w n(1) sent(2) [unfolded eq]]
    from S parse_reply_numbers [OF n _ _ now w assms(4)] sent(3) show ?thesis
      by (simp add: redis_used_def hash_used_def)
  qed
  then show "x = Inr (window_answer n w now (redis_used digest pre db r i n w now))"
    and "redis_used digest pre db' r i n w now
           = redis_used digest pre db r i n w now + (if redis_used digest pre db r i n w now < n then 1 else 0)"
    by simp_all
qed

lemma redis_check_inv:
  assumes "redis_inv t db" "t \<le> now" "redis_limiter_check digest pre now r i p db = (x, db')"
  shows "redis_inv now db'"
  using assms(3)
proof (cases rule: redis_check_cases)
  case (refused e)
  with assms(1,2) show ?thesis by (fastforce simp: redis_inv_def redis_hash_ok_def)
next
  case (sent n w a l m rs rt)
  with plain_policy_window [OF sent(1)] show ?thesis
    by (intro script_inv [OF assms(1,2) _ _ sent(2)]) (auto simp: plain_policy_def)
qed

lemma redis_frame:
  assumes "redis_inv t db" "t \<le> now" "digests_apart digest r i r' i'"
    and "redis_limiter_check digest pre now r' i' p db = (x, db')"
  shows "redis_used digest pre db' r i n w now = redis_used digest pre db r i n w now"
  using assms(4)
proof (cases rule: redis_check_cases)
  case (sent n' w' a l m rs rt)
  have "0 < w'" "0 < n'" using plain_policy_window [OF sent(1)] sent(1) by (simp_all add: plain_policy_def)
  from script_effect(2) [OF assms(1,2) this sent(2)] assms(3) show ?thesis
    by (simp add: redis_used_def redis_key_def digests_apart_def)
qed simp

lemma redis_error:
  assumes "redis_inv t db" "0 \<le> t" "t \<le> now" "now + w < 2 ^ 53" "plain_policy p n w"
    and "redis_limiter_check digest pre now r i p db = (Inl e, db')"
  shows "db' = db"
proof (cases "is_ok (validate_rate_limit_input r i p)")
  case True
  from redis_answer(1) [OF assms True] show ?thesis by simp
next
  case False
  then obtain e' where "validate_rate_limit_input r i p = Inl e'" by (cases "validate_rate_limit_input r i p") auto
  with assms(6) show ?thesis by (simp add: redis_limiter_check_def redis_check_def)
qed

lemma redis_used_bounds:
  assumes "redis_inv t db" "0 < n"
  shows "0 \<le> redis_used digest pre db r i n w now \<and> redis_used digest pre db r i n w now \<le> n"
proof (cases "map_of db (redis_key digest pre r i)")
  case (Some he)
  then obtain h e where "map_of db (redis_key digest pre r i) = Some (h, e)" by (cases he) auto
  moreover from this assms have "redis_hash_ok t h e" by (simp add: redis_inv_def)
  ultimately show ?thesis using assms(2) by (auto simp: redis_used_def hash_used_def redis_hash_ok_def)
next
  case None
  with assms(2) show ?thesis by (simp add: redis_used_def hash_used_def)
qed

lemma redis_answered_valid:
  "redis_limiter_check digest pre now r i p db = (Inr res, db') \<Longrightarrow> is_ok (validate_rate_limit_input r i p)"
  by (cases "validate_rate_limit_input r i p") (auto simp: redis_limiter_check_def redis_check_def)

interpretation redis: rate_limiter "redis_limiter_check digest pre" redis_inv
  "redis_used digest pre" "digests_apart digest" for digest pre
proof unfold_locales
  show "redis_used digest pre s r i n w now = redis_used digest pre s r i n w now'"
    if "now div w = now' div w" for now w now' s r i n
    using that by (simp add: redis_used_def hash_used_def split: option.split prod.split)
  show "res = window_answer n w now (redis_used digest pre s r i n w now)
      \<and> redis_used digest pre s' r i n w now
          = redis_used digest pre s r i n w now + (if rl_allowed res then 1 else 0)"
    if "redis_inv t s" "0 \<le> t" "t \<le> now" "now + w < 2 ^ 53" "plain_policy p n w"
      "redis_limiter_check digest pre now r i p s = (Inr res, s')" for t s now w p n r i res s'
    using redis_answer [OF that(1-6) redis_answered_valid [OF that(6)]] by simp
qed (auto intro: redis_check_inv redis_frame redis_used_bounds [THEN conjunct1] redis_used_bounds [THEN conjunct2]
      dest: redis_error)

section \<open>Properties\<close>

text \<open>What a well-formed answer is, and the answers of a limiter started empty.\<close>

definition answer_ok :: "rate_limit_result \<Rightarrow> bool" where
  "answer_ok res \<longleftrightarrow> 0 < rl_limit res \<and> 0 \<le> rl_remaining res \<and> rl_remaining res \<le> rl_limit res
     \<and> is_safe_integer (rl_resetAt res) \<and> is_positive_safe (rl_retryAfterSeconds res)"

lemma parse_integer_safe: "parse_integer v = Some i \<Longrightarrow> is_safe_integer (num i)"
  by (auto simp: parse_integer_def Let_def is_safe_integer_iff split: redis_value.splits if_splits option.splits)

lemma redis_used_empty [simp]: "redis_used digest pre [] r i n w now = 0"
  by (simp add: redis_used_def hash_used_def)

lemma redis_inv_empty [simp]: "redis_inv t []"
  by (simp add: redis_inv_def)

lemma parse_reply_answer: "parse_reply reply = Inr res \<Longrightarrow> answer_ok res"
  by (auto simp: parse_reply_def answer_ok_def is_positive_safe_def dest!: parse_integer_safe
      split: option.splits if_splits redis_reply.splits list.splits)

lemma parse_reply_error: "parse_reply reply = Inl e \<Longrightarrow> e = invalid_reply"
  by (auto simp: parse_reply_def split: option.splits if_splits redis_reply.splits list.splits)

lemma redis_check_answers:
  "fst (redis_check digest pre transport r i p s) = Inr res \<Longrightarrow> answer_ok res"
  by (auto simp: redis_check_def Let_def intro: parse_reply_answer split: sum.splits if_splits prod.splits)

lemma redis_check_errors:
  "fst (redis_check digest pre transport r i p s) = Inl e \<Longrightarrow> \<exists>m. e = RateLimiterError m"
  by (auto simp: redis_check_def Let_def invalid_reply_def dest!: parse_reply_error validate_error
      split: sum.splits if_splits prod.splits)

text \<open>C11: Refinement. The distributed limiter, run against its script on one Redis server, answers the
  calls of a key within one window exactly as the specification of a fixed window does, whatever
  keys with other digests are checked in between.\<close>

theorem redis_refines_window:
  assumes "redis_inv t db" "0 \<le> t" "calls_in_window (digests_apart digest) r i p w k t cs" "plain_policy p n w"
    and "run_checks (redis_limiter_check digest pre) cs db = (xs, db')"
  shows "map snd (key_answers r i cs xs)
           = spec_answers n w (redis_used digest pre db r i n w (k * w)) (map fst (key_answers r i cs xs))"
  using assms by (rule redis.window_refinement)

text \<open>C12: Equivalence. Started empty, the distributed and the in-memory limiter give the same answers
  (admission, remaining quota, reset time, retry time) to the calls of a key within one window
  that both of them answer.\<close>

theorem limiters_agree:
  assumes "fw_buckets l = []" "fixed_window_inv t l" "0 \<le> t" "plain_policy p n w"
    and "calls_in_window (digests_apart digest) r i p w k t cs" "calls_in_window keys_apart r i p w k t cs"
    and "run_checks (\<lambda>now. fixed_window_check (num now)) cs l = (xs, l')"
    and "run_checks (redis_limiter_check digest pre) cs [] = (ys, db')"
    and "map fst (key_answers r i cs xs) = map fst (key_answers r i cs ys)"
  shows "key_answers r i cs xs = key_answers r i cs ys"
proof -
  have "map snd (key_answers r i cs xs) = spec_answers n w 0 (map fst (key_answers r i cs xs))"
    using fixed_window.window_refinement [OF assms(2,3,6,4,7)] assms(1)
    by (simp add: fixed_window_used_def bucket_used_def)
  moreover have "map snd (key_answers r i cs ys) = spec_answers n w 0 (map fst (key_answers r i cs ys))"
    using redis.window_refinement [OF redis_inv_empty assms(3,5,4,8)] by simp
  ultimately show ?thesis using assms(9) by (metis zip_map_fst_snd)
qed

text \<open>C25: Fail closed. Whatever the Redis transport does (an exception, a reply of any shape), a check
  ends in a \<open>RateLimiterError\<close> or in an answer whose numbers are consistent.\<close>

theorem redis_check_total:
  "case fst (redis_check digest pre transport r i p s) of
     Inl e \<Rightarrow> (\<exists>m. e = RateLimiterError m)
   | Inr res \<Rightarrow> answer_ok res"
  using redis_check_answers [of digest pre transport r i p s]
    redis_check_errors [of digest pre transport r i p s]
  by (cases "fst (redis_check digest pre transport r i p s)") auto

text \<open>A reply that is an array of any other length, or not an array, is refused.\<close>

lemma parse_reply_shape:
  "parse_reply (ReplyArray vs) = Inr res \<Longrightarrow> length vs = 5"
  by (auto simp: parse_reply_def split: list.splits)

subsection \<open>A concrete run\<close>

lemma demo_digests: "calls_in_window (digests_apart (\<lambda>s. s)) [97] [98] demo_policy 1000 5 0 demo_calls"
  by (simp add: demo_calls_def demo_call_def digests_apart_def hash_identity_def)

theorem redis_refines_window_witness:
  "\<exists>xs db'. run_checks (redis_limiter_check (\<lambda>s. s) []) demo_calls [] = (xs, db')
     \<and> map snd (key_answers [97] [98] demo_calls xs)
         = spec_answers 1 1000 0 (map fst (key_answers [97] [98] demo_calls xs))"
proof -
  obtain xs db' where run: "run_checks (redis_limiter_check (\<lambda>s. s) []) demo_calls [] = (xs, db')" by fastforce
  with redis_refines_window [OF redis_inv_empty order_refl demo_digests demo_plain run] show ?thesis by simp
qed

lemma demo_redis_times:
  "map fst (key_answers [97] [98] demo_calls (fst (run_checks (redis_limiter_check (\<lambda>s. s) []) demo_calls [])))
     = [5000, 5200]"
  by (simp add: demo_calls_def demo_call_def redis_limiter_check_def redis_check_def redis_server_def demo_validate demo_requests
      fixed_window_script_def live_hash_def hash_identity_def parse_reply_def parse_integer_def exact_arith js_def Let_def
      is_safe_integer_iff max_safe_def)
lemma demo_window_times:
  "map fst (key_answers [97] [98] demo_calls (fst (run_checks (\<lambda>now. fixed_window_check (num now)) demo_calls demo_limiter)))
     = [5000, 5200]"
  by (simp add: demo_step_defs Let_def)

theorem limiters_agree_witness:
  "\<exists>xs l' ys db'. run_checks (\<lambda>now. fixed_window_check (num now)) demo_calls demo_limiter = (xs, l')
     \<and> run_checks (redis_limiter_check (\<lambda>s. s) []) demo_calls [] = (ys, db')
     \<and> key_answers [97] [98] demo_calls xs = key_answers [97] [98] demo_calls ys
     \<and> length (key_answers [97] [98] demo_calls ys) = 2"
proof -
  obtain xs l' where xs: "run_checks (\<lambda>now. fixed_window_check (num now)) demo_calls demo_limiter = (xs, l')"
    by fastforce
  obtain ys db' where ys: "run_checks (redis_limiter_check (\<lambda>s. s) []) demo_calls [] = (ys, db')" by fastforce
  have times: "map fst (key_answers [97] [98] demo_calls xs) = [5000, 5200]"
      "map fst (key_answers [97] [98] demo_calls ys) = [5000, 5200]"
    using demo_window_times demo_redis_times xs ys by simp_all
  from arg_cong [OF times(2), of length] have "length (key_answers [97] [98] demo_calls ys) = 2" by simp
  with limiters_agree [OF _ demo_limiter_inv order_refl demo_plain demo_digests demo_window xs ys] times xs ys
  show ?thesis by (simp add: demo_limiter_def)
qed

end
