(* ===== verification/Transport.thy ===== *)
theory Transport imports JsString begin

text \<open>
  \<open>edge/src/transport.ts\<close>: which URLs may carry policy and upstream traffic. URLs are parsed by
  the host (\<open>new URL\<close>); a record holds the components of the parsed URL the code reads.
  \<open>node:net\<close>'s \<open>isIP\<close> is written out: dotted quads without leading zeros, and IPv6 groups with
  at most one \<open>::\<close>, an optional dotted quad at the end and an optional zone.
\<close>

record url =
  u_protocol :: ustr
  u_username :: ustr
  u_password :: ustr
  u_hostname :: ustr
  u_host :: ustr
  u_port :: ustr
  u_pathname :: ustr
  u_search :: ustr
  u_hash :: ustr

type_synonym url_parser = "ustr \<Rightarrow> url option"

section \<open>Addresses\<close>

definition ipv4_octet :: "ustr \<Rightarrow> bool" where
  "ipv4_octet w \<longleftrightarrow> all_digits w \<and> length w \<le> 3 \<and> (1 < length w \<longrightarrow> hd w \<noteq> 48) \<and> digits_value w \<le> 255"

definition is_ipv4 :: "ustr \<Rightarrow> bool" where
  "is_ipv4 s = (let ws = split_at 46 s in length ws = 4 \<and> list_all ipv4_octet ws)"

definition ipv6_word :: "ustr \<Rightarrow> bool" where
  "ipv6_word w \<longleftrightarrow> w \<noteq> [] \<and> length w \<le> 4 \<and> list_all (\<lambda>c. hex_value c \<noteq> None) w"

text \<open>How many 16-bit groups a run of words separated by colons stands for, if it is one.\<close>

fun ipv6_groups :: "bool \<Rightarrow> ustr list \<Rightarrow> nat option" where
  "ipv6_groups quad [] = Some 0"
| "ipv6_groups quad [w] = (if ipv6_word w then Some 1 else if quad \<and> is_ipv4 w then Some 2 else None)"
| "ipv6_groups quad (w # v # ws) =
     (if ipv6_word w then map_option Suc (ipv6_groups quad (v # ws)) else None)"

fun cut_double_colon :: "ustr \<Rightarrow> (ustr \<times> ustr) option" where
  "cut_double_colon (c # d # s) =
     (if c = 58 \<and> d = 58 then Some ([], s)
      else map_option (\<lambda>(a, b). (c # a, b)) (cut_double_colon (d # s)))"
| "cut_double_colon s = None"

definition ipv6_side :: "bool \<Rightarrow> ustr \<Rightarrow> nat option" where
  "ipv6_side quad s = (if s = [] then Some 0 else ipv6_groups quad (split_at 58 s))"

definition zone_char :: "nat \<Rightarrow> bool" where
  "zone_char c \<longleftrightarrow> is_digit c \<or> is_lower c \<or> is_upper c \<or> c = 45 \<or> c = 46 \<or> c = 58"

definition is_ipv6 :: "ustr \<Rightarrow> bool" where
  "is_ipv6 s =
     (let body = takeWhile (\<lambda>c. c \<noteq> 37) s; zone = dropWhile (\<lambda>c. c \<noteq> 37) s in
      (zone = [] \<or> (tl zone \<noteq> [] \<and> list_all zone_char (tl zone)))
      \<and> (case cut_double_colon body of
           None \<Rightarrow> ipv6_side True body = Some 8
         | Some (a, b) \<Rightarrow>
             (case (ipv6_side False a, ipv6_side True b) of
                (Some m, Some n) \<Rightarrow> m + n \<le> 7
              | _ \<Rightarrow> False)))"

definition is_ip :: "ustr \<Rightarrow> nat" where
  "is_ip s = (if is_ipv4 s then 4 else if is_ipv6 s then 6 else 0)"

section \<open>Loopback hosts\<close>

text \<open>\<open>.replace(/^\[|\]$/g, '')\<close> and \<open>.replace(/\.$/, '')\<close>.\<close>

definition strip_brackets :: "ustr \<Rightarrow> ustr" where
  "strip_brackets s =
     (let t = (if s \<noteq> [] \<and> hd s = 91 then tl s else s)
      in if t \<noteq> [] \<and> last t = 93 then butlast t else t)"

definition strip_dot :: "ustr \<Rightarrow> ustr" where
  "strip_dot s = (if s \<noteq> [] \<and> last s = 46 then butlast s else s)"

definition normalize_hostname :: "ustr \<Rightarrow> ustr" where
  "normalize_hostname hostname = strip_dot (strip_brackets (to_lower (trim hostname)))"

lemma length_normalize_hostname: "length (normalize_hostname h) \<le> length h"
proof -
  have "length (strip_dot s) \<le> length s" "length (strip_brackets s) \<le> length s" for s
    by (auto simp: strip_dot_def strip_brackets_def Let_def)
  then show ?thesis
    unfolding normalize_hostname_def using length_trim [of h] length_to_lower [of "trim h"]
    by (metis order_trans)
qed

definition mapped_prefix :: ustr where
  "mapped_prefix = [58, 58, 102, 102, 102, 102, 58]"

function is_loopback_hostname :: "ustr \<Rightarrow> bool" where
  "is_loopback_hostname hostname =
     (let normalized = normalize_hostname hostname in
      if starts_with mapped_prefix normalized
      then is_loopback_hostname (drop (length mapped_prefix) normalized)
      else normalized = js ''localhost''
        \<or> (is_ip normalized = 4 \<and> starts_with (js ''127.'') normalized)
        \<or> (is_ip normalized = 6 \<and> normalized = js ''::1''))"
  by pat_completeness auto
termination
proof (relation "measure length")
  fix hostname normalized
  assume n: "normalized = normalize_hostname hostname" and s: "starts_with mapped_prefix normalized"
  have "length (drop (length mapped_prefix) normalized) < length normalized"
    using s by (auto simp: starts_with_iff mapped_prefix_def)
  also have "\<dots> \<le> length hostname" using n length_normalize_hostname by simp
  finally show "(drop (length mapped_prefix) normalized, hostname) \<in> measure length" by simp
qed simp

declare is_loopback_hostname.simps [simp del]

definition uses_secure_transport :: "url \<Rightarrow> bool" where
  "uses_secure_transport u \<longleftrightarrow> u_protocol u = js ''https:''
     \<or> (u_protocol u = js ''http:'' \<and> is_loopback_hostname (u_hostname u))"

section \<open>Dotted quads\<close>

text \<open>A run of digits without a leading zero is the decimal numeral of its value.\<close>

lemma digits_value_nonneg: "list_all is_digit w \<Longrightarrow> 0 \<le> digits_value w"
  by (induction w rule: rev_induct) (auto simp: is_digit_def)

lemma digits_value_pos:
  assumes "list_all is_digit w" "w \<noteq> []" "hd w \<noteq> 48"
  shows "0 < digits_value w"
  using assms
proof (induction w rule: rev_induct)
  case (snoc c w)
  show ?case
  proof (cases "w = []")
    case True
    with snoc.prems show ?thesis by (simp add: is_digit_def digits_value_def)
  next
    case False
    with snoc have "0 < digits_value w" by simp
    with snoc.prems show ?thesis by (simp add: is_digit_def)
  qed
qed simp

lemma canonical_digits:
  assumes "all_digits w" "1 < length w \<longrightarrow> hd w \<noteq> 48"
  shows "w = dec (nat (digits_value w))"
  using assms
proof (induction w rule: rev_induct)
  case Nil
  then show ?case by (simp add: all_digits_def)
next
  case (snoc c w)
  have c: "48 \<le> c" "c \<le> 57" and w: "list_all is_digit w"
    using snoc.prems(1) by (auto simp: all_digits_def is_digit_def)
  show ?case
  proof (cases "w = []")
    case True
    have "c - 48 < 10" using c by simp
    with True c show ?thesis by (subst dec_step) (simp add: nat_diff_distrib digits_value_def)
  next
    case False
    then have hd: "hd w \<noteq> 48" using snoc.prems(2) by simp
    have IH: "w = dec (nat (digits_value w))"
      using snoc.IH False hd w by (simp add: all_digits_def)
    define v where "v = digits_value w"
    have pos: "0 < v" using digits_value_pos [OF w False hd] by (simp add: v_def)
    have n: "nat (digits_value (w @ [c])) = 10 * nat v + (c - 48)"
      using c pos by (simp add: v_def [symmetric] nat_add_distrib nat_mult_distrib nat_diff_distrib)
    have d: "(10 * m + e) div 10 = m" "(10 * m + e) mod 10 = e" if "e < 10" for m e :: nat
      using that by simp_all
    have "(10 * nat v + (c - 48)) div 10 = nat v" "(10 * nat v + (c - 48)) mod 10 = c - 48"
      using c by (intro d; simp)+
    moreover have "\<not> 10 * nat v + (c - 48) < 10" using pos by simp
    ultimately have "dec (10 * nat v + (c - 48)) = dec (nat v) @ [c]"
      using c by (subst dec_step) simp
    with IH n show ?thesis by (simp only: v_def)
  qed
qed

lemma ipv4_octet_iff: "ipv4_octet w \<longleftrightarrow> (\<exists>n \<le> 255. w = dec n)"
proof
  assume w: "ipv4_octet w"
  then have "w = dec (nat (digits_value w))" by (intro canonical_digits) (auto simp: ipv4_octet_def)
  moreover have "nat (digits_value w) \<le> 255" using w by (simp add: ipv4_octet_def nat_le_iff)
  ultimately show "\<exists>n \<le> 255. w = dec n" by blast
next
  assume "\<exists>n \<le> 255. w = dec n"
  then obtain n where n: "n \<le> 255" "w = dec n" by blast
  have "length (dec n) \<le> 3 \<and> (1 < length (dec n) \<longrightarrow> hd (dec n) \<noteq> 48)"
  proof (cases "n < 10")
    case True
    then show ?thesis by (simp add: dec_step [of n])
  next
    case False
    show ?thesis
    proof (cases "n < 100")
      case True
      with False have "\<not> n < 10" "n div 10 < 10" "0 < n div 10" by presburger+
      then show ?thesis by (simp add: dec_step [of n] dec_step [of "n div 10"])
    next
      case False
      then have "\<not> n < 10" "\<not> n div 10 < 10" "n div 10 div 10 < 10" "0 < n div 10 div 10" using n(1) by auto
      then show ?thesis
        by (simp add: dec_step [of n] dec_step [of "n div 10"] dec_step [of "n div 10 div 10"] del: div_div_eq_right)
    qed
  qed
  with n dec_all_digits [of n] show "ipv4_octet w" by (simp add: ipv4_octet_def)
qed

lemma dec_no_dot: "46 \<notin> set (dec n)"
  using dec_all_digits [of n] by (auto simp: all_digits_def list_all_iff is_digit_def)

definition dotted_quad :: "nat \<Rightarrow> nat \<Rightarrow> nat \<Rightarrow> nat \<Rightarrow> ustr" where
  "dotted_quad a b c d = dec a @ 46 # dec b @ 46 # dec c @ 46 # dec d"

lemma split_dotted_quad: "split_at 46 (dotted_quad a b c d) = [dec a, dec b, dec c, dec d]"
  by (simp add: dotted_quad_def split_at_append split_at_id dec_no_dot)

lemma is_ipv4_iff: "is_ipv4 s \<longleftrightarrow> (\<exists>a b c d. a \<le> 255 \<and> b \<le> 255 \<and> c \<le> 255 \<and> d \<le> 255 \<and> s = dotted_quad a b c d)"
proof
  assume "is_ipv4 s"
  then obtain v w x y where ws: "split_at 46 s = [v, w, x, y]" "list_all ipv4_octet [v, w, x, y]"
    by (auto simp: is_ipv4_def Let_def length_Suc_conv numeral_eq_Suc)
  have "s = v @ 46 # w @ 46 # x @ 46 # y" using join_split [of 46 s] by (simp add: ws)
  with ws(2) show "\<exists>a b c d. a \<le> 255 \<and> b \<le> 255 \<and> c \<le> 255 \<and> d \<le> 255 \<and> s = dotted_quad a b c d"
    by (auto simp: ipv4_octet_iff dotted_quad_def)
next
  assume "\<exists>a b c d. a \<le> 255 \<and> b \<le> 255 \<and> c \<le> 255 \<and> d \<le> 255 \<and> s = dotted_quad a b c d"
  then show "is_ipv4 s" by (auto simp: is_ipv4_def split_dotted_quad ipv4_octet_iff)
qed

section \<open>Property\<close>

text \<open>The hosts a loopback URL may name: \<open>localhost\<close>, an address of \<open>127.0.0.0/8\<close> or \<open>::1\<close>.\<close>

definition loopback_name :: "ustr \<Rightarrow> bool" where
  "loopback_name n \<longleftrightarrow> n = js ''localhost'' \<or> n = js ''::1''
     \<or> (\<exists>b c d. b \<le> 255 \<and> c \<le> 255 \<and> d \<le> 255 \<and> n = dotted_quad 127 b c d)"

text \<open>The names a host stands for: itself normalised, and the tail of an IPv4-mapped address.\<close>

inductive names_host :: "ustr \<Rightarrow> ustr \<Rightarrow> bool" where
  direct: "\<not> starts_with mapped_prefix (normalize_hostname h) \<Longrightarrow> names_host h (normalize_hostname h)"
| mapped: "normalize_hostname h = mapped_prefix @ t \<Longrightarrow> names_host t n \<Longrightarrow> names_host h n"

lemma dec_127: "dec n = js ''127'' \<longleftrightarrow> n = 127"
proof -
  have "dec 127 = js ''127''" by code_simp
  then show ?thesis by (metis dec_inject)
qed

lemma quad_127: "starts_with (js ''127.'') (dotted_quad a b c d) \<longleftrightarrow> a = 127"
proof
  assume "starts_with (js ''127.'') (dotted_quad a b c d)"
  then obtain r where r: "dotted_quad a b c d = js ''127'' @ 46 # r"
    by (auto simp: starts_with_iff js_def)
  have "46 \<notin> set (js ''127'')" by (simp add: js_def)
  then have "split_at 46 (dotted_quad a b c d) = js ''127'' # split_at 46 r"
    unfolding r by (rule split_at_append)
  then show "a = 127" by (simp add: split_dotted_quad dec_127)
next
  assume "a = 127"
  then have "dotted_quad a b c d = js ''127.'' @ (dec b @ 46 # dec c @ 46 # dec d)"
    by (simp add: dotted_quad_def dec_127 [THEN iffD2] js_def)
  then show "starts_with (js ''127.'') (dotted_quad a b c d)" unfolding starts_with_iff by blast
qed

lemma is_ip_4: "is_ip s = 4 \<longleftrightarrow> is_ipv4 s"
  by (simp add: is_ip_def)

lemma is_ip_one: "is_ip (js ''::1'') = 6"
  by code_simp

lemma loopback_base:
  "(n = js ''localhost'' \<or> (is_ip n = 4 \<and> starts_with (js ''127.'') n) \<or> (is_ip n = 6 \<and> n = js ''::1''))
     \<longleftrightarrow> loopback_name n"
proof -
  have "is_ip n = 4 \<and> starts_with (js ''127.'') n
     \<longleftrightarrow> (\<exists>b c d. b \<le> 255 \<and> c \<le> 255 \<and> d \<le> 255 \<and> n = dotted_quad 127 b c d)"
  proof
    assume "is_ip n = 4 \<and> starts_with (js ''127.'') n"
    then obtain a b c d where n: "b \<le> 255" "c \<le> 255" "d \<le> 255" "n = dotted_quad a b c d"
      and p: "starts_with (js ''127.'') n" unfolding is_ip_4 is_ipv4_iff by blast
    from p have "a = 127" unfolding n(4) quad_127 .
    with n show "\<exists>b c d. b \<le> 255 \<and> c \<le> 255 \<and> d \<le> 255 \<and> n = dotted_quad 127 b c d" by blast
  next
    assume "\<exists>b c d. b \<le> 255 \<and> c \<le> 255 \<and> d \<le> 255 \<and> n = dotted_quad 127 b c d"
    then obtain b c d where n: "b \<le> 255" "c \<le> 255" "d \<le> 255" "n = dotted_quad 127 b c d" by blast
    then have "is_ipv4 n" unfolding is_ipv4_iff by (intro exI [of _ 127] exI [of _ b] exI [of _ c] exI [of _ d]) simp
    with n(4) show "is_ip n = 4 \<and> starts_with (js ''127.'') n" by (simp add: is_ip_4 quad_127)
  qed
  then show ?thesis using is_ip_one by (auto simp: loopback_name_def)
qed

text \<open>The address edges bind to unless they are told otherwise.\<close>

lemma loopback_127: "is_loopback_hostname (js ''127.0.0.1'')"
proof -
  have quad: "dotted_quad 127 0 0 1 = js ''127.0.0.1''" by code_simp
  have "trim (js ''127.0.0.1'') = js ''127.0.0.1''" by (rule trim_id) (simp_all add: js_def is_space_def)
  moreover have "to_lower (js ''127.0.0.1'') = js ''127.0.0.1''" by code_simp
  ultimately have n: "normalize_hostname (js ''127.0.0.1'') = js ''127.0.0.1''"
    by (simp add: normalize_hostname_def strip_brackets_def strip_dot_def) (simp add: js_def)
  have "\<not> starts_with mapped_prefix (js ''127.0.0.1'')" by code_simp
  moreover have "loopback_name (js ''127.0.0.1'')"
    unfolding loopback_name_def quad [symmetric]
    by (intro disjI2 exI [of _ 0] exI [of _ 1]) simp
  ultimately show ?thesis
    using loopback_base [of "js ''127.0.0.1''"] by (simp add: is_loopback_hostname.simps [of "js ''127.0.0.1''"] n Let_def)
qed

text \<open>Loopback. A host name counts as loopback exactly when the name it stands for, after trimming,
  case folding, brackets, a trailing dot and IPv4-mapped prefixes, is \<open>localhost\<close>, a dotted quad
  \<open>127.b.c.d\<close> with octets up to 255, or \<open>::1\<close>: no other name or prefix (\<open>127.example.com\<close>)
  gets plain HTTP.\<close>

theorem loopback_exact:
  "is_loopback_hostname h = (\<exists>n. names_host h n \<and> loopback_name n)"
proof (induction h rule: is_loopback_hostname.induct)
  case (1 h)
  define n where "n = normalize_hostname h"
  show ?case
  proof (cases "starts_with mapped_prefix n")
    case True
    then obtain t where t: "n = mapped_prefix @ t" by (auto simp: starts_with_iff)
    have "is_loopback_hostname h = is_loopback_hostname t"
      using True t by (simp add: is_loopback_hostname.simps [of h] n_def [symmetric])
    also have "\<dots> = (\<exists>m. names_host t m \<and> loopback_name m)"
      using "1.IH" [OF n_def True] t by simp
    also have "\<dots> = (\<exists>m. names_host h m \<and> loopback_name m)"
      using t True by (auto simp: n_def names_host.simps [of h])
    finally show ?thesis .
  next
    case False
    then have "is_loopback_hostname h = loopback_name n"
      using loopback_base [of n] by (simp add: is_loopback_hostname.simps [of h] n_def [symmetric] Let_def)
    moreover have "names_host h m \<longleftrightarrow> m = n" for m
      using False by (subst names_host.simps) (auto simp: n_def [symmetric] starts_with_iff)
    ultimately show ?thesis by simp
  qed
qed

end
