(* ===== verification/Bytes.thy ===== *)
theory Bytes imports JsString "HOL-Library.Word" begin

text \<open>
  Bytes and their text forms, as \<open>edge/src/verify.ts\<close> uses them: UTF-8 (\<open>TextEncoder\<close>),
  base64 (\<open>atob\<close>, \<open>decodeBase64\<close>, \<open>decodeBase64Url\<close>), lower-case hexadecimal, and the comparison
  that takes the same time whatever differs. A byte is an \<open>8 word\<close>.
\<close>

unbundle bit_operations_syntax

section \<open>UTF-8\<close>

text \<open>Code points of a UTF-16 text; a lone surrogate becomes U+FFFD.\<close>

fun code_points :: "ustr \<Rightarrow> nat list" where
  "code_points [] = []"
| "code_points [c] = [if 55296 \<le> c \<and> c \<le> 57343 then 65533 else c]"
| "code_points (c # d # s) =
     (if 55296 \<le> c \<and> c \<le> 56319 \<and> 56320 \<le> d \<and> d \<le> 57343
      then (65536 + (c - 55296) * 1024 + (d - 56320)) # code_points s
      else (if 55296 \<le> c \<and> c \<le> 57343 then 65533 else c) # code_points (d # s))"

definition utf8_bytes :: "nat \<Rightarrow> 8 word list" where
  "utf8_bytes p = map of_nat
     (if p < 128 then [p]
      else if p < 2048 then [192 + p div 64, 128 + p mod 64]
      else if p < 65536 then [224 + p div 4096, 128 + p div 64 mod 64, 128 + p mod 64]
      else [240 + p div 262144, 128 + p div 4096 mod 64, 128 + p div 64 mod 64, 128 + p mod 64])"

definition utf8_encode :: "ustr \<Rightarrow> 8 word list" where
  "utf8_encode s = concat (map utf8_bytes (code_points s))"

section \<open>Base64\<close>

definition sextet :: "nat \<Rightarrow> nat option" where
  "sextet c = (if is_upper c then Some (c - 65) else if is_lower c then Some (c - 71)
     else if is_digit c then Some (c + 4) else if c = 43 then Some 62 else if c = 47 then Some 63 else None)"

fun join_sextets :: "nat list \<Rightarrow> 8 word list" where
  "join_sextets (a # b # c # d # r) =
     of_nat (a * 4 + b div 16) # of_nat (b mod 16 * 16 + c div 4) # of_nat (c mod 4 * 64 + d) # join_sextets r"
| "join_sextets [a, b, c] = [of_nat (a * 4 + b div 16), of_nat (b mod 16 * 16 + c div 4)]"
| "join_sextets [a, b] = [of_nat (a * 4 + b div 16)]"
| "join_sextets s = []"

definition ascii_blank :: "nat \<Rightarrow> bool" where
  "ascii_blank c \<longleftrightarrow> c = 9 \<or> c = 10 \<or> c = 12 \<or> c = 13 \<or> c = 32"

text \<open>\<open>atob\<close>: the bytes its result stands for, or \<open>None\<close> where it throws.\<close>

definition strip_padding :: "ustr \<Rightarrow> ustr" where
  "strip_padding s =
     (if length s mod 4 = 0 \<and> ends_with [61, 61] s then take (length s - 2) s
      else if length s mod 4 = 0 \<and> ends_with [61] s then take (length s - 1) s else s)"

definition atob :: "ustr \<Rightarrow> 8 word list option" where
  "atob value =
     (let s = strip_padding (filter (\<lambda>c. \<not> ascii_blank c) value) in
      if length s mod 4 = 1 \<or> list_ex (\<lambda>c. sextet c = None) s then None
      else Some (join_sextets (map (the \<circ> sextet) s)))"

definition decode_base64 :: "ustr \<Rightarrow> 8 word list result" where
  "decode_base64 value = (case atob value of
      None \<Rightarrow> Inl (BundleVerificationError (js ''value is not valid base64 data''))
    | Some b \<Rightarrow> Inr b)"

definition pad_end :: "nat \<Rightarrow> nat \<Rightarrow> ustr \<Rightarrow> ustr" where
  "pad_end n c s = s @ replicate (n - length s) c"

definition decode_base64url :: "ustr \<Rightarrow> 8 word list result" where
  "decode_base64url value =
     decode_base64 (pad_end ((length value + 3) div 4 * 4) 61
       (map (\<lambda>c. if c = 45 then 43 else if c = 95 then 47 else c) value))"

section \<open>Hexadecimal\<close>

definition hex_digit :: "nat \<Rightarrow> nat" where
  "hex_digit d = (if d < 10 then 48 + d else 87 + d)"

definition bytes_to_hex :: "8 word list \<Rightarrow> ustr" where
  "bytes_to_hex bs = concat (map (\<lambda>b. [hex_digit (unat b div 16), hex_digit (unat b mod 16)]) bs)"

section \<open>Comparison\<close>

fun byte_difference :: "8 word \<Rightarrow> 8 word list \<Rightarrow> 8 word list \<Rightarrow> 8 word" where
  "byte_difference difference (l # ls) (r # rs) = byte_difference (difference OR (l XOR r)) ls rs"
| "byte_difference difference ls rs = difference"

definition constant_time_equal :: "ustr \<Rightarrow> ustr \<Rightarrow> bool" where
  "constant_time_equal left right =
     (let l = utf8_encode left; r = utf8_encode right in
      if length l \<noteq> length r then False else byte_difference 0 l r = 0)"

section \<open>Facts\<close>

lemma or_eq_0: "a OR b = 0 \<longleftrightarrow> a = 0 \<and> b = (0 :: 8 word)"
  by (auto simp: or_eq_0_iff)

lemma xor_eq_0: "a XOR b = 0 \<longleftrightarrow> a = (b :: 8 word)"
proof
  assume "a XOR b = 0"
  then have "(a XOR b) XOR b = 0 XOR b" by simp
  then show "a = b" by (simp add: xor.assoc)
qed simp

lemma byte_difference_0:
  "length ls = length rs \<Longrightarrow> byte_difference d ls rs = 0 \<longleftrightarrow> d = 0 \<and> ls = rs"
proof (induction d ls rs rule: byte_difference.induct)
  case (1 d l ls r rs)
  then show ?case by (auto simp: or_eq_0 xor_eq_0)
qed auto

lemma constant_time_equal_iff: "constant_time_equal l r \<longleftrightarrow> utf8_encode l = utf8_encode r"
  by (auto simp: constant_time_equal_def Let_def byte_difference_0)

definition ascii_text :: "ustr \<Rightarrow> bool" where
  "ascii_text s \<longleftrightarrow> list_all (\<lambda>c. c < 128) s"

lemma code_points_ascii: "ascii_text s \<Longrightarrow> code_points s = s"
  by (induction s rule: code_points.induct) (auto simp: ascii_text_def)

lemma utf8_ascii: "ascii_text s \<Longrightarrow> utf8_encode s = map of_nat s"
proof -
  assume a: "ascii_text s"
  have "concat (map utf8_bytes s) = map of_nat s"
    using a by (induction s) (auto simp: ascii_text_def utf8_bytes_def)
  with a show ?thesis by (simp add: utf8_encode_def code_points_ascii)
qed

lemma of_nat_ascii_inj: "ascii_text s \<Longrightarrow> ascii_text t \<Longrightarrow> map (of_nat :: nat \<Rightarrow> 8 word) s = map of_nat t \<longleftrightarrow> s = t"
proof
  assume a: "ascii_text s" "ascii_text t" and m: "map (of_nat :: nat \<Rightarrow> 8 word) s = map of_nat t"
  have u: "map unat (map (of_nat :: nat \<Rightarrow> 8 word) r) = r" if "ascii_text r" for r
    using that by (induction r) (auto simp: ascii_text_def unat_of_nat)
  from arg_cong [OF m, of "map unat"] show "s = t" unfolding u [OF a(1)] u [OF a(2)] .
qed simp

lemma constant_time_equal_ascii:
  "ascii_text l \<Longrightarrow> ascii_text r \<Longrightarrow> constant_time_equal l r \<longleftrightarrow> l = r"
  by (simp add: constant_time_equal_iff utf8_ascii of_nat_ascii_inj)

lemma length_join_sextets: "length (join_sextets s) = length s * 6 div 8"
  by (induction s rule: join_sextets.induct) auto

lemma hex_digit_lower: "d < 16 \<Longrightarrow> is_lower_hex (hex_digit d)"
  by (auto simp: hex_digit_def is_lower_hex_def is_digit_def)

lemma hex_digit_inj: "d < 16 \<Longrightarrow> e < 16 \<Longrightarrow> hex_digit d = hex_digit e \<longleftrightarrow> d = e"
  by (auto simp: hex_digit_def split: if_splits)

lemma unat_byte_less: "unat (b :: 8 word) < 256"
  using unsigned_less [of b] by simp

lemma bytes_to_hex_lower: "list_all is_lower_hex (bytes_to_hex bs)"
proof (induction bs)
  case (Cons b bs)
  have "unat b div 16 < 16" "unat b mod 16 < 16" using unat_byte_less [of b] by auto
  with Cons show ?case by (simp add: bytes_to_hex_def hex_digit_lower)
qed (simp add: bytes_to_hex_def)

lemma length_bytes_to_hex: "length (bytes_to_hex bs) = 2 * length bs"
  by (induction bs) (simp_all add: bytes_to_hex_def)

lemma bytes_to_hex_inject: "bytes_to_hex bs = bytes_to_hex cs \<longleftrightarrow> bs = cs"
proof (induction bs arbitrary: cs)
  case Nil
  then show ?case by (cases cs) (simp_all add: bytes_to_hex_def)
next
  case (Cons b bs)
  show ?case
  proof (cases cs)
    case Nil
    then show ?thesis by (simp add: bytes_to_hex_def)
  next
    case (Cons c cs')
    have d: "unat b div 16 < 16" "unat b mod 16 < 16" "unat c div 16 < 16" "unat c mod 16 < 16"
      using unat_byte_less [of b] unat_byte_less [of c] by auto
    have "unat b div 16 = unat c div 16 \<and> unat b mod 16 = unat c mod 16 \<longleftrightarrow> b = c"
      unfolding word_unat_eq_iff [symmetric] by (metis div_mult_mod_eq word_unat_eq_iff)
    with d Cons.IH [of cs'] Cons show ?thesis
      by (auto simp: bytes_to_hex_def hex_digit_inj)
  qed
qed

lemma ascii_lower_hex: "list_all is_lower_hex s \<Longrightarrow> ascii_text s"
  by (auto simp: ascii_text_def list_all_iff is_lower_hex_def is_digit_def)

end
