(* ===== verification/NumberText.thy ===== *)
theory NumberText imports JsString begin

text \<open>
  \<open>String(value)\<close> of a JavaScript number: the shortest decimal digits that read back as the
  number, laid out with or without an exponent by its magnitude. A safe integer is written with
  its decimal digits.
\<close>

section \<open>Digits\<close>

text \<open>The \<open>n\<close> with \<open>10 ^ (n - 1) \<le> x < 10 ^ n\<close>.\<close>

definition decimal_exponent :: "rat \<Rightarrow> int" where
  "decimal_exponent x =
     (if 1 \<le> x then int (length (dec (nat \<lfloor>x\<rfloor>))) else 1 - int (length (dec (nat (\<lceil>1 / x\<rceil> - 1)))))"

definition pow10 :: "int \<Rightarrow> rat" where
  "pow10 e = (if 0 \<le> e then 10 ^ nat e else 1 / 10 ^ nat (- e))"

text \<open>The integers next to \<open>x\<close> at \<open>k\<close> digits that read back as \<open>x\<close>; the nearer one is taken.\<close>

definition digits_at :: "rat \<Rightarrow> int \<Rightarrow> nat \<Rightarrow> int option" where
  "digits_at x n k =
     (let u = pow10 (n - int k); lo = \<lfloor>x / u\<rfloor>; hi = lo + 1;
          lo_ok = (fl (of_int lo * u) = Fin x); hi_ok = (fl (of_int hi * u) = Fin x) in
      if lo_ok \<and> (\<not> hi_ok \<or> 2 * x < of_int (lo + hi) * u \<or> 2 * x = of_int (lo + hi) * u \<and> even lo) then Some lo
      else if hi_ok then Some hi else None)"

text \<open>Seventeen digits are enough for every double (\<open>shortest_digits_read\<close>), so the search ends there.\<close>

fun shortest_digits :: "rat \<Rightarrow> int \<Rightarrow> nat \<Rightarrow> nat \<Rightarrow> int \<times> nat" where
  "shortest_digits x n k 0 = (\<lfloor>x / pow10 (n - int k)\<rfloor>, k)"
| "shortest_digits x n k (Suc fuel) =
     (case digits_at x n k of Some s \<Rightarrow> (s, k) | None \<Rightarrow> shortest_digits x n (Suc k) fuel)"

definition strip_zeros :: "ustr \<Rightarrow> ustr" where
  "strip_zeros s = rev (dropWhile (\<lambda>c. c = 48) (rev s))"

definition exponent_text :: "int \<Rightarrow> ustr" where
  "exponent_text e = js ''e'' @ (if e < 0 then js ''-'' else js ''+'') @ dec (nat \<bar>e\<bar>)"

definition layout_digits :: "ustr \<Rightarrow> int \<Rightarrow> ustr" where
  "layout_digits ds n =
     (if int (length ds) \<le> n \<and> n \<le> 21 then ds @ replicate (nat n - length ds) 48
      else if 0 < n \<and> n \<le> 21 then take (nat n) ds @ js ''.'' @ drop (nat n) ds
      else if - 6 < n \<and> n \<le> 0 then js ''0.'' @ replicate (nat (- n)) 48 @ ds
      else if length ds = 1 then ds @ exponent_text (n - 1)
      else take 1 ds @ js ''.'' @ drop 1 ds @ exponent_text (n - 1))"

definition positive_text :: "rat \<Rightarrow> ustr" where
  "positive_text x =
     (let n = decimal_exponent x in
      case shortest_digits x n 1 17 of (s, k) \<Rightarrow>
        (let ds = dec (nat s) in layout_digits (strip_zeros ds) (n + int (length ds) - int k)))"

fun number_text :: "jsnum \<Rightarrow> ustr" where
  "number_text NaN = js ''NaN''"
| "number_text PInf = js ''Infinity''"
| "number_text NInf = js ''-Infinity''"
| "number_text (Fin x) =
     (if x = 0 then js ''0'' else if x < 0 then js ''-'' @ positive_text (- x) else positive_text x)"

section \<open>Safe integers\<close>

lemma dec_times_10: "0 < s \<Longrightarrow> dec (s * 10 ^ j) = dec s @ replicate j 48"
proof (induction j)
  case (Suc j)
  have "dec (s * 10 ^ Suc j) = dec (s * 10 ^ j) @ [48]"
    using Suc.prems by (subst dec_step) (simp add: algebra_simps)
  with Suc show ?case by (simp add: replicate_append_same)
qed simp

lemma length_dec_bounds: "0 < n \<Longrightarrow> 10 ^ (length (dec n) - 1) \<le> n \<and> n < 10 ^ length (dec n)"
proof (induction n rule: less_induct)
  case (less n)
  show ?case
  proof (cases "n < 10")
    case True
    with less.prems show ?thesis by (simp add: dec_step [of n])
  next
    case False
    then have "0 < n div 10" "n div 10 < n" by auto
    from less.IH [OF this(2,1)] False have IH: "10 ^ (length (dec (n div 10)) - 1) \<le> n div 10"
      "n div 10 < 10 ^ length (dec (n div 10))" by auto
    have "dec (n div 10) \<noteq> []" using dec_all_digits [of "n div 10"] by (simp add: all_digits_def)
    then obtain m where m: "length (dec (n div 10)) = Suc m" by (cases "dec (n div 10)") auto
    from IH(1) have "10 * 10 ^ m \<le> n" by (simp add: m less_eq_div_iff_mult_less_eq algebra_simps)
    moreover from IH(2) have "n < 10 * 10 ^ Suc m" unfolding m by (simp add: div_less_iff_less_mult algebra_simps)
    ultimately show ?thesis using False by (simp add: dec_step [of n] m)
  qed
qed

lemma hd_dec: "0 < n \<Longrightarrow> hd (dec n) \<noteq> 48"
proof (induction n rule: less_induct)
  case (less n)
  have ne: "dec m \<noteq> []" for m using dec_all_digits [of m] by (simp add: all_digits_def)
  from less ne show ?case by (subst dec_step) (auto simp: hd_append)
qed

lemma fl_large:
  assumes "2 ^ 53 < m" "fl (of_int m) = Fin y"
  shows "of_int (2 ^ 53) \<le> y"
proof -
  define x :: rat where "x = of_int m"
  define r where "r = rlog2 x"
  have m0: "0 < m" using assms(1) by (smt (verit) zero_less_power)
  then have x0: "0 < x" by (simp add: x_def)
  have "(of_int (2 ^ 53) :: rat) < x" unfolding x_def of_int_less_iff by (rule assms(1))
  then have x: "pow2 53 < x" using pow2_nat [of 53] by simp
  note b = rlog2_bounds [OF x0, folded r_def]
  from x b have "pow2 53 < pow2 (r + 1)" by linarith
  from pow2_less_cancel [OF this] have r: "53 \<le> r" by simp
  then have e: "fl_exponent x = r - 52" by (simp add: fl_exponent_def r_def)
  have "pow2 r = of_int (2 ^ 52) * pow2 (r - 52)" using pow2_add [of 52 "r - 52"] pow2_nat [of 52] by simp
  with b fl_magnitude_ge [OF e [symmetric], of "2 ^ 52"] have "pow2 r \<le> fl_magnitude x" by simp
  then have "pow2 53 \<le> fl_magnitude x" using pow2_mono [OF r] by linarith
  moreover have "y = fl_magnitude x"
    using assms(2) m0 by (auto simp: fl_def x_def Let_def split: if_splits)
  ultimately show ?thesis using pow2_nat [of 53] by simp
qed

lemma pow10_nat [simp]: "pow10 (int j) = 10 ^ j"
  by (simp add: pow10_def)

lemma decimal_exponent_int: "0 < n \<Longrightarrow> decimal_exponent (of_nat n) = int (length (dec n))"
  by (simp add: decimal_exponent_def)

lemma fl_multiple:
  assumes "0 < n" "int n \<le> max_safe" "fl (of_int (s * 10 ^ j)) = Fin (of_nat n)" "0 \<le> s"
  shows "s * 10 ^ j = int n"
proof (cases "s * 10 ^ j \<le> 2 ^ 53")
  case True
  have "0 \<le> s * 10 ^ j" using assms(4) by simp
  with True have "fl (of_int (s * 10 ^ j)) = num (s * 10 ^ j)" by (intro fl_of_int) linarith
  with assms(3) have "num (s * 10 ^ j) = num (int n)" by (simp add: num_def)
  then show ?thesis by (simp only: num_inject)
next
  case False
  then have "(of_int (2 ^ 53) :: rat) \<le> of_int (int n)" using fl_large [OF _ assms(3)] by simp
  then have "(2 :: int) ^ 53 \<le> int n" by (simp only: of_int_le_iff)
  with assms(2) show ?thesis by (simp add: max_safe_def)
qed

lemma digits_at_sound:
  assumes "0 < n" "int n \<le> max_safe" "k \<le> N" "digits_at (of_nat n) (int N) k = Some s"
  shows "0 \<le> s \<and> s * 10 ^ (N - k) = int n"
proof -
  have u: "pow10 (int N - int k) = of_int (10 ^ (N - k))" using assms(3) pow10_nat [of "N - k"]
    by (simp add: of_nat_diff)
  have "0 \<le> s \<and> fl (of_int (s * 10 ^ (N - k))) = Fin (of_nat n)"
    using assms(4) unfolding digits_at_def Let_def u of_int_mult [symmetric]
    by (auto split: if_splits)
  with fl_multiple [OF assms(1,2)] show ?thesis by blast
qed

lemma digits_at_full: "0 < n \<Longrightarrow> int n \<le> max_safe \<Longrightarrow> digits_at (of_nat n) (int N) N = Some (int n)"
proof -
  assume n: "0 < n" "int n \<le> max_safe"
  have u: "pow10 0 = 1" by (simp add: pow10_def)
  have "\<bar>int n\<bar> \<le> 2 ^ 53" "\<bar>int n + 1\<bar> \<le> 2 ^ 53" using n(2) by (simp_all add: max_safe_def)
  note fl_of_int [OF this(1)] fl_of_int [OF this(2)]
  then show ?thesis by (simp add: digits_at_def u num_def Let_def)
qed

lemma shortest_digits_int:
  assumes "0 < n" "int n \<le> max_safe" "k \<le> N" "N < k + fuel"
  shows "\<exists>s k'. shortest_digits (of_nat n) (int N) k fuel = (s, k') \<and> k' \<le> N \<and> 0 \<le> s \<and> s * 10 ^ (N - k') = int n"
  using assms(3,4)
proof (induction fuel arbitrary: k)
  case (Suc fuel)
  show ?case
  proof (cases "digits_at (of_nat n) (int N) k")
    case None
    with digits_at_full [OF assms(1,2)] Suc.prems have "k \<noteq> N" by auto
    with Suc.prems Suc.IH [of "Suc k"] None show ?thesis by auto
  next
    case (Some s)
    from digits_at_sound [OF assms(1,2) Suc.prems(1) this] Some Suc.prems(1) show ?thesis by auto
  qed
qed simp

lemma strip_zeros_form: "\<exists>j. s = strip_zeros s @ replicate j 48"
proof -
  define z where "z = takeWhile (\<lambda>c. c = 48) (rev s)"
  have z: "z = replicate (length z) 48"
    by (rule replicate_length_same [symmetric]) (auto simp: z_def dest: set_takeWhileD)
  have "rev s = z @ dropWhile (\<lambda>c. c = 48) (rev s)" by (simp add: z_def)
  then have "s = strip_zeros s @ rev z" by (metis rev_append rev_rev_ident strip_zeros_def)
  with z show ?thesis by (metis rev_replicate)
qed

lemma length_dec_safe: "0 < n \<Longrightarrow> int n \<le> max_safe \<Longrightarrow> length (dec n) \<le> 16"
proof -
  assume n: "0 < n" "int n \<le> max_safe"
  from length_dec_bounds [OF n(1)] have "10 ^ (length (dec n) - 1) \<le> n" by simp
  moreover have "n < 10 ^ 16" using n(2) by (simp add: max_safe_def)
  ultimately have "(10 :: nat) ^ (length (dec n) - 1) < 10 ^ 16" by linarith
  then have "length (dec n) - 1 < 16" by (rule power_less_imp_less_exp [rotated]) simp
  then show ?thesis by simp
qed

lemma positive_text_int: "0 < n \<Longrightarrow> int n \<le> max_safe \<Longrightarrow> positive_text (of_nat n) = dec n"
proof -
  assume n: "0 < n" "int n \<le> max_safe"
  define N where "N = length (dec n)"
  have "dec n \<noteq> []" using dec_all_digits [of n] by (simp add: all_digits_def)
  then have N1: "1 \<le> N" by (cases "dec n") (auto simp: N_def)
  have N: "N \<le> 16" using length_dec_safe [OF n] by (simp add: N_def)
  obtain s k where sk: "shortest_digits (of_nat n) (int N) 1 17 = (s, k)" "k \<le> N" "0 \<le> s" "s * 10 ^ (N - k) = int n"
    using shortest_digits_int [OF n N1, of 17] N by auto
  define m where "m = nat s"
  have "int (m * 10 ^ (N - k)) = int n" using sk(3,4) by (simp add: m_def)
  then have mn: "m * 10 ^ (N - k) = n" by (simp only: of_nat_eq_iff)
  with n(1) have "0 < m" by (cases m) auto
  from dec_times_10 [OF this, of "N - k"] have d: "dec n = dec m @ replicate (N - k) 48" by (simp add: mn)
  obtain j where j: "dec m = strip_zeros (dec m) @ replicate j 48" using strip_zeros_form by blast
  have "N = length (dec m) + (N - k)" unfolding N_def [symmetric]
    using arg_cong [OF d, of length] by (simp only: N_def length_append length_replicate)
  with sk(2) have len: "length (dec m) = k" by linarith
  have ls: "length (strip_zeros (dec m)) + j = k"
    using arg_cong [OF j, of length] len by (simp only: length_append length_replicate)
  have "positive_text (of_nat n) = layout_digits (strip_zeros (dec m)) (int N)"
    using sk(1) len by (simp add: positive_text_def decimal_exponent_int [OF n(1)] N_def [symmetric] m_def [symmetric] Let_def)
  also have "\<dots> = strip_zeros (dec m) @ replicate (N - length (strip_zeros (dec m))) 48"
    using N sk(2) ls by (simp add: layout_digits_def)
  also have "\<dots> = dec n"
  proof -
    have "N - length (strip_zeros (dec m)) = j + (N - k)" using ls sk(2) by linarith
    then have "strip_zeros (dec m) @ replicate (N - length (strip_zeros (dec m))) 48
        = (strip_zeros (dec m) @ replicate j 48) @ replicate (N - k) 48" by (simp add: replicate_add)
    also have "\<dots> = dec n" by (simp only: j [symmetric] d)
    finally show ?thesis .
  qed
  finally show ?thesis .
qed

text \<open>The digits of a safe integer are its decimal digits.\<close>

lemma number_text_int: "\<bar>i\<bar> \<le> max_safe \<Longrightarrow> number_text (num i) = dec_int i"
proof -
  assume i: "\<bar>i\<bar> \<le> max_safe"
  have p: "positive_text (of_int j) = dec (nat j)" if "0 < j" "j \<le> max_safe" for j
    using positive_text_int [of "nat j"] that by simp
  have z: "dec 0 = js ''0''" by (simp add: dec_def dec_rev.simps js_def)
  show ?thesis
  proof (cases "0 < i")
    case True
    with i p [of i] show ?thesis by (simp add: num_def dec_int_def)
  next
    case False
    with i p [of "- i"] z show ?thesis by (auto simp: num_def dec_int_def)
  qed
qed

section \<open>Doubles\<close>

text \<open>The finite numbers of the language: those that rounding leaves as they are.\<close>

fun is_double :: "jsnum \<Rightarrow> bool" where
  "is_double (Fin a) = (fl a = Fin a)"
| "is_double a = False"

lemma safe_integer_double: "is_safe_integer x \<Longrightarrow> is_double x"
  by (auto simp: is_safe_integer_iff max_safe_def num_def)

lemma is_double_num [simp]: "\<bar>i\<bar> \<le> 2 ^ 53 \<Longrightarrow> is_double (num i)"
  by (simp add: num_def)

lemma fl_neg: "fl (- x) = jneg (fl x)"
  by (simp add: fl_def Let_def sgn_minus)

lemma pow2_sign [simp]: "0 \<le> pow2 e" "\<not> pow2 e < 0"
  using pow2_pos [of e] by (simp_all only: not_less less_imp_le)

lemma round_half_even_near: "\<bar>y - of_int m\<bar> < 1 / 2 \<Longrightarrow> round_half_even y = m"
proof -
  assume "\<bar>y - of_int m\<bar> < 1 / 2"
  then have "y < of_int (m + 1) - 1 / 2" "of_int (m - 1) + 1 / 2 < y" by linarith+
  from round_half_even_less [OF this(1)] round_half_even_greater [OF this(2)] show ?thesis by simp
qed

lemma fl_magnitude_near:
  assumes "x = of_int m * pow2 (fl_exponent v)" "\<bar>v - x\<bar> < pow2 (fl_exponent v) / 2"
  shows "fl_magnitude v = x"
proof -
  define u where "u = pow2 (fl_exponent v)"
  have u: "0 < u" by (simp add: u_def)
  have "v / u - of_int m = (v - x) / u" using u by (simp add: assms(1) u_def [symmetric] diff_divide_distrib)
  then have "\<bar>v / u - of_int m\<bar> < 1 / 2" using assms(2) u by (simp add: u_def [symmetric] abs_divide field_simps)
  then show ?thesis using round_half_even_near [of "v / u" m] by (simp add: fl_magnitude_def u_def [symmetric] assms(1))
qed

lemma fl_fixed:
  assumes "0 < x" "fl x = Fin x"
  shows "fl_magnitude x = x" "rlog2 x < 1024"
  using assms by (auto simp: fl_def Let_def split: if_splits)

lemma multiple_pow2_mono:
  assumes "x = of_int m * pow2 e" "e' \<le> e"
  shows "\<exists>m'. x = of_int m' * pow2 e'"
proof -
  define d where "d = nat (e - e')"
  have "e = int d + e'" using assms(2) by (simp add: d_def)
  then have "x = of_int (m * 2 ^ d) * pow2 e'" using assms(1) by (simp add: pow2_add pow2_nat)
  then show ?thesis by blast
qed

text \<open>A double next to a multiple of its unit in the last place stays a unit below it.\<close>

lemma multiple_less:
  assumes "of_int m * pow2 e < pow2 k" "e \<le> k"
  shows "of_int m * pow2 e + pow2 e \<le> pow2 k"
proof -
  define d where "d = nat (k - e)"
  have "k = int d + e" using assms(2) by (simp add: d_def)
  then have k: "pow2 k = of_int (2 ^ d) * pow2 e" by (simp add: pow2_add pow2_nat)
  from assms(1) have "(of_int m :: rat) < of_int (2 ^ d)" unfolding k by (rule mult_right_less_imp_less) simp
  then have "m + 1 \<le> 2 ^ d" unfolding of_int_less_iff by simp
  then have "(of_int (m + 1) :: rat) \<le> of_int (2 ^ d)" by (simp only: of_int_le_iff)
  then have "of_int (m + 1) * pow2 e \<le> pow2 k" unfolding k by (rule mult_right_mono) simp
  then show ?thesis by (simp add: algebra_simps)
qed

text \<open>Whatever is as near to a double as seventeen digits allow reads back as the double.\<close>

lemma fl_near:
  assumes "0 < x" "fl x = Fin x" "2 * 10 ^ 16 * \<bar>v - x\<bar> \<le> x"
  shows "fl v = Fin x"
proof -
  define e e' where "e = fl_exponent x" and "e' = fl_exponent v"
  note F = fl_fixed [OF assms(1,2)]
  have m: "x = of_int m * pow2 e" if "m = round_half_even (x / pow2 e)" for m
    using F(1) that by (simp add: fl_magnitude_def e_def)
  then obtain m where m: "x = of_int m * pow2 e" by blast
  have up: "v - x \<le> x / 20000000000000000" and down: "x - v \<le> x / 20000000000000000"
    using assms(3) by (simp_all add: abs_if split: if_splits)
  have v0: "0 < v" using assms(1) down by simp
  note bx = rlog2_bounds [OF assms(1)] and bv = rlog2_bounds [OF v0]
  have top: "pow2 (r + 1) \<le> 2 ^ 53 * pow2 f" if "r - 52 \<le> f" for r f
    using pow2_mono [of "r + 1" "53 + f"] that pow2_nat [of 53] by (simp add: pow2_add)
  have ex: "x < 9007199254740992 * pow2 e" using bx top [of "rlog2 x" e] by (simp add: e_def fl_exponent_def)
  have ev: "v < 9007199254740992 * pow2 e'" using bv top [of "rlog2 v" e'] by (simp add: e'_def fl_exponent_def)
  have "0 < m" using assms(1) by (simp add: m zero_less_mult_iff)
  then have "1 * pow2 e \<le> of_int m * pow2 e" by (intro mult_right_mono) auto
  then have "pow2 e \<le> x" by (simp only: m mult_1)
  with bx have "pow2 e < pow2 (rlog2 x + 1)" by linarith
  from pow2_less_cancel [OF this] have "x + pow2 e \<le> pow2 (rlog2 x + 1)"
    using multiple_less [of m e "rlog2 x + 1"] bx by (simp add: m [symmetric])
  moreover have "v - x < pow2 e" using up ex pow2_pos [of e] by linarith
  ultimately have "v < pow2 (rlog2 x + 1)" by linarith
  with v0 have "rlog2 v \<le> rlog2 x" using rlog2_less [of v "rlog2 x + 1"] by simp
  then have "e' \<le> e" by (simp add: e_def e'_def fl_exponent_def)
  from multiple_pow2_mono [OF m this] obtain m' where m': "x = of_int m' * pow2 e'" by blast
  have "\<bar>v - x\<bar> < pow2 e' / 2" using up down ev pow2_pos [of "e'"] by linarith
  then have "fl_magnitude v = x" using fl_magnitude_near m' by (simp add: e'_def)
  with v0 F(2) show ?thesis by (simp add: fl_def Let_def)
qed

section \<open>Seventeen digits\<close>

lemma pow10_pos [simp]: "0 < pow10 e"
  by (simp add: pow10_def)

lemma pow10_minus_nat: "pow10 (- int j) = 1 / 10 ^ j"
proof (cases "j = 0")
  case False
  then have "\<not> 0 \<le> - int j" "nat (- (- int j)) = j" by simp_all
  then show ?thesis by (simp only: pow10_def if_False)
qed (simp add: pow10_def)

lemma pow10_powi: "pow10 e = 10 powi e"
  by (cases "0 \<le> e") (simp_all only: pow10_def power_int_def if_True if_False power_one_over inverse_eq_divide)

lemma pow10_add: "pow10 (a + b) = pow10 a * pow10 b"
  by (simp add: pow10_powi power_int_add)

lemma pow10_mono: "a \<le> b \<Longrightarrow> pow10 a \<le> pow10 b"
  by (simp add: pow10_powi power_int_increasing)

lemma decimal_exponent_bounds:
  assumes "0 < x"
  shows "pow10 (decimal_exponent x - 1) \<le> x \<and> x < pow10 (decimal_exponent x)"
proof (cases "1 \<le> x")
  case True
  define n where "n = nat \<lfloor>x\<rfloor>"
  have n: "0 < n" "of_nat n \<le> x" "x < of_nat n + 1" using True by (simp_all add: n_def) linarith+
  define L where "L = length (dec n)"
  have b: "10 ^ (L - 1) \<le> n" "n + 1 \<le> 10 ^ L" using length_dec_bounds [OF n(1)] by (simp_all add: L_def)
  have "(of_nat (10 ^ (L - 1)) :: rat) \<le> of_nat n" "of_nat (n + 1) \<le> (of_nat (10 ^ L) :: rat)"
    unfolding of_nat_le_iff by (fact b)+
  then have "(10 :: rat) ^ (L - 1) \<le> of_nat n" "of_nat n + 1 \<le> (10 :: rat) ^ L" by simp_all
  with n have "10 ^ (L - 1) \<le> x" "x < 10 ^ L" by linarith+
  moreover have "decimal_exponent x = int L" using True by (simp add: decimal_exponent_def n_def L_def)
  moreover have "L \<noteq> 0" using dec_all_digits [of n] by (auto simp: L_def all_digits_def)
  ultimately show ?thesis using pow10_nat [of "L - 1"] by (simp add: of_nat_diff)
next
  case False
  define y where "y = 1 / x"
  define n where "n = nat (\<lceil>y\<rceil> - 1)"
  have y: "1 < y" using False assms by (simp add: y_def)
  have "1 < \<lceil>y\<rceil>" using y by (simp only: one_less_ceiling)
  then have "0 < n" "of_nat n = of_int \<lceil>y\<rceil> - (1 :: rat)" by (simp_all add: n_def)
  then have n: "0 < n" "of_nat n < y" "y \<le> of_nat n + 1" using ceiling_correct [of y] by linarith+
  define L where "L = length (dec n)"
  have b: "10 ^ (L - 1) \<le> n" "n + 1 \<le> 10 ^ L" using length_dec_bounds [OF n(1)] by (simp_all add: L_def)
  have "(of_nat (10 ^ (L - 1)) :: rat) \<le> of_nat n" "of_nat (n + 1) \<le> (of_nat (10 ^ L) :: rat)"
    unfolding of_nat_le_iff by (fact b)+
  then have "(10 :: rat) ^ (L - 1) \<le> of_nat n" "of_nat n + 1 \<le> (10 :: rat) ^ L" by simp_all
  with n have y2: "10 ^ (L - 1) < y" "y \<le> 10 ^ L" by linarith+
  have "decimal_exponent x = 1 - int L" using False by (simp add: decimal_exponent_def n_def L_def y_def)
  moreover have "pow10 (1 - int L) = 1 / 10 ^ (L - 1)" "pow10 (- int L) = 1 / 10 ^ L"
  proof -
    have "L \<noteq> 0" using dec_all_digits [of n] by (auto simp: L_def all_digits_def)
    then have "1 - int L = - int (L - 1)" by simp
    then show "pow10 (1 - int L) = 1 / 10 ^ (L - 1)" "pow10 (- int L) = 1 / 10 ^ L"
      by (simp_all only: pow10_minus_nat)
  qed
  moreover have "x < 1 / p" if "p < 1 / x" "0 < p" for p using that assms by (simp add: less_divide_eq mult.commute)
  from this [OF y2(1) [unfolded y_def]] have "x < 1 / 10 ^ (L - 1)" by simp
  moreover have "1 / p \<le> x" if "1 / x \<le> p" "0 < p" for p using that assms by (simp add: divide_le_eq mult.commute)
  from this [OF y2(2) [unfolded y_def]] have "1 / 10 ^ L \<le> x" by simp
  ultimately show ?thesis by simp
qed

lemma digits_at_seventeen:
  assumes "0 < x" "fl x = Fin x"
  shows "digits_at x (decimal_exponent x) 17 \<noteq> None"
proof -
  define u where "u = pow10 (decimal_exponent x - int 17)"
  define lo where "lo = \<lfloor>x / u\<rfloor>"
  have u: "0 < u" by (simp add: u_def)
  have "decimal_exponent x - 1 = 16 + (decimal_exponent x - int 17)" by simp
  then have "pow10 (decimal_exponent x - 1) = 10 ^ 16 * u" by (simp only: pow10_add u_def) (simp add: pow10_def)
  then have ux: "10 ^ 16 * u \<le> x" using decimal_exponent_bounds [OF assms(1)] by simp
  have "of_int lo \<le> x / u" "x / u < of_int lo + 1" unfolding lo_def by linarith+
  then have b: "of_int lo * u \<le> x" "x < (of_int lo + 1) * u" using u by (simp_all add: field_simps)
  have near: "fl v = Fin x" if "2 * \<bar>v - x\<bar> \<le> u" for v using fl_near [OF assms, of v] that ux by simp
  have "fl (of_int lo * u) = Fin x \<or> fl (of_int (lo + 1) * u) = Fin x"
  proof (cases "2 * (x - of_int lo * u) \<le> u")
    case True
    with near [of "of_int lo * u"] b show ?thesis by simp
  next
    case False
    with near [of "of_int (lo + 1) * u"] b show ?thesis by (simp add: algebra_simps)
  qed
  then show ?thesis by (auto simp: digits_at_def Let_def u_def lo_def)
qed

lemma digits_at_reads: "digits_at x n k = Some s \<Longrightarrow> fl (of_int s * pow10 (n - int k)) = Fin x"
  by (auto simp: digits_at_def Let_def split: if_splits)

lemma digits_at_nonneg: "0 \<le> x \<Longrightarrow> digits_at x n k = Some s \<Longrightarrow> 0 \<le> s"
proof -
  assume "0 \<le> x" "digits_at x n k = Some s"
  moreover have "0 \<le> \<lfloor>x / pow10 (n - int k)\<rfloor>" using \<open>0 \<le> x\<close> by (simp add: less_imp_le)
  ultimately show ?thesis by (auto simp: digits_at_def Let_def split: if_splits)
qed

text \<open>The digits found read back as the number.\<close>

lemma shortest_digits_read:
  assumes "0 < x" "fl x = Fin x"
  shows "\<exists>s k. shortest_digits x (decimal_exponent x) 1 17 = (s, k) \<and> 0 < s
     \<and> fl (of_int s * pow10 (decimal_exponent x - int k)) = Fin x"
proof -
  have "\<exists>s k'. shortest_digits x (decimal_exponent x) k fuel = (s, k')
       \<and> digits_at x (decimal_exponent x) k' = Some s" if "k \<le> 17" "17 < k + fuel" for k fuel
    using that
  proof (induction fuel arbitrary: k)
    case (Suc fuel)
    show ?case
    proof (cases "digits_at x (decimal_exponent x) k")
      case None
      with digits_at_seventeen [OF assms] Suc.prems have "k \<noteq> 17" by auto
      with Suc.prems Suc.IH [of "Suc k"] None show ?thesis by auto
    qed auto
  qed simp
  from this [of 1 17] obtain s k where s: "shortest_digits x (decimal_exponent x) 1 17 = (s, k)"
    "digits_at x (decimal_exponent x) k = Some s" by auto
  note r = digits_at_reads [OF s(2)]
  have "s \<noteq> 0" using r assms(1) by (auto simp: fl_def)
  with digits_at_nonneg [OF _ s(2)] assms(1) s r show ?thesis by force
qed

section \<open>The layout denotes the digits\<close>

lemma digits_value_append: "digits_value (s @ t) = digits_value s * 10 ^ length t + digits_value t"
proof (induction t rule: rev_induct)
  case (snoc c t)
  have "digits_value (s @ t @ [c]) = 10 * digits_value (s @ t) + (int c - 48)"
    using digits_value_snoc [of "s @ t" c] by simp
  with snoc show ?case by (simp add: algebra_simps)
qed simp

lemma digits_value_zeros [simp]: "digits_value (replicate j 48) = 0"
proof (induction j)
  case (Suc j)
  have "replicate (Suc j) (48 :: nat) = replicate j 48 @ [48]" by (simp add: replicate_append_same)
  with Suc show ?case by (simp only: digits_value_snoc)
qed simp

text \<open>A literal: integer digits, fraction digits and an exponent.\<close>

definition literal_text :: "ustr \<Rightarrow> ustr \<Rightarrow> int option \<Rightarrow> ustr" where
  "literal_text ds fs expo =
     ds @ (if fs = [] then [] else 46 # fs) @ (case expo of None \<Rightarrow> [] | Some e \<Rightarrow> exponent_text e)"

definition literal_value :: "ustr \<Rightarrow> ustr \<Rightarrow> int option \<Rightarrow> rat" where
  "literal_value ds fs expo =
     (of_int (digits_value ds) + of_int (digits_value fs) / 10 ^ length fs) * pow10 (case expo of None \<Rightarrow> 0 | Some e \<Rightarrow> e)"

definition literal_ok :: "ustr \<Rightarrow> ustr \<Rightarrow> bool" where
  "literal_ok ds fs \<longleftrightarrow> all_digits ds \<and> (hd ds = 48 \<longrightarrow> length ds = 1) \<and> list_all is_digit fs"

lemma literal_fraction:
  "of_int (digits_value ds) + of_int (digits_value fs) / 10 ^ length fs
     = (of_int (digits_value (ds @ fs)) * pow10 (- int (length fs)) :: rat)"
  by (simp add: digits_value_append pow10_minus_nat add_divide_distrib)

lemma literal_value_eq:
  "literal_value ds fs expo = of_int (digits_value (ds @ fs)) * pow10 ((case expo of None \<Rightarrow> 0 | Some e \<Rightarrow> e) - int (length fs))"
proof -
  have "pow10 ((case expo of None \<Rightarrow> 0 | Some e \<Rightarrow> e) - int (length fs))
      = pow10 (- int (length fs)) * pow10 (case expo of None \<Rightarrow> 0 | Some e \<Rightarrow> e)" by (simp flip: pow10_add)
  then show ?thesis unfolding literal_value_def literal_fraction by (simp add: mult.assoc)
qed

lemma layout_literal:
  assumes "all_digits ds" "hd ds \<noteq> 48"
  shows "\<exists>is fs expo. layout_digits ds n = literal_text is fs expo \<and> literal_ok is fs
     \<and> literal_value is fs expo = of_int (digits_value ds) * pow10 (n - int (length ds))"
proof -
  have ds: "ds \<noteq> []" "list_all is_digit ds" using assms(1) by (auto simp: all_digits_def)
  have sub: "list_all is_digit (take m ds)" "list_all is_digit (drop m ds)" for m
    using ds(2) by (auto simp: list_all_iff dest: in_set_takeD in_set_dropD)
  have head: "hd (take m ds) \<noteq> 48" "take m ds \<noteq> []" if "0 < m" for m
    using that ds(1) assms(2) by (cases ds; cases m; simp)+
  consider "int (length ds) \<le> n" "n \<le> 21" | "n < int (length ds)" "0 < n" "n \<le> 21"
    | "- 6 < n" "n \<le> 0" | "n \<le> - 6 \<or> 21 < n" "length ds = 1" | "n \<le> - 6 \<or> 21 < n" "length ds \<noteq> 1" by linarith
  then show ?thesis
  proof cases
    case 1
    define j where "j = nat n - length ds"
    have "layout_digits ds n = literal_text (ds @ replicate j 48) [] None"
      using 1 by (simp add: layout_digits_def literal_text_def j_def)
    moreover have "literal_ok (ds @ replicate j 48) []"
      using ds assms(2) by (auto simp: literal_ok_def all_digits_def list_all_iff is_digit_def hd_append)
    moreover have "n - int (length ds) = int j" using 1 by (simp add: j_def)
    ultimately show ?thesis
      by (intro exI [of _ "ds @ replicate j 48"] exI [of _ "[]"] exI [of _ None])
        (simp add: literal_value_def digits_value_append, simp add: pow10_def)
  next
    case 2
    have "drop (nat n) ds \<noteq> []" using 2 by simp
    with 2 have "layout_digits ds n = literal_text (take (nat n) ds) (drop (nat n) ds) None"
      by (simp add: layout_digits_def literal_text_def js_def)
    moreover have "literal_ok (take (nat n) ds) (drop (nat n) ds)"
      using 2 sub head [of "nat n"] by (simp add: literal_ok_def all_digits_def)
    moreover have "0 - int (length (drop (nat n) ds)) = n - int (length ds)" using 2 by simp
    ultimately show ?thesis
      by (intro exI [of _ "take (nat n) ds"] exI [of _ "drop (nat n) ds"] exI [of _ None])
        (simp only: literal_value_eq option.case append_take_drop_id simp_thms)
  next
    case 3
    define fs where "fs = replicate (nat (- n)) 48 @ ds"
    have "\<not> int (length ds) \<le> n" using 3 ds(1) by (cases ds) auto
    then have "layout_digits ds n = literal_text [48] fs None"
      using 3 ds(1) by (simp add: layout_digits_def literal_text_def js_def fs_def)
    moreover have "literal_ok [48] fs"
      using ds by (auto simp: literal_ok_def all_digits_def fs_def list_all_iff is_digit_def)
    moreover have "digits_value ([48] @ fs) = digits_value ds"
      using digits_value_append [of "[48]" fs] by (simp add: fs_def digits_value_append) (simp add: digits_value_def)
    moreover have "0 - int (length fs) = n - int (length ds)" using 3 by (simp add: fs_def)
    ultimately show ?thesis
      by (intro exI [of _ "[48]"] exI [of _ fs] exI [of _ None]) (simp only: literal_value_eq option.case simp_thms)
  next
    case 4
    then have "layout_digits ds n = literal_text ds [] (Some (n - 1))"
      by (auto simp: layout_digits_def literal_text_def)
    moreover have "literal_ok ds []" using assms by (simp add: literal_ok_def)
    ultimately show ?thesis using 4
      by (intro exI [of _ ds] exI [of _ "[]"] exI [of _ "Some (n - 1)"]) (simp add: literal_value_eq)
  next
    case 5
    then have l: "1 < length ds" using ds(1) by (cases ds) auto
    then have "drop 1 ds \<noteq> []" by simp
    with 5 have "layout_digits ds n = literal_text (take 1 ds) (drop 1 ds) (Some (n - 1))"
      by (auto simp: layout_digits_def literal_text_def js_def)
    moreover have "literal_ok (take 1 ds) (drop 1 ds)"
      using sub head [of 1] by (simp add: literal_ok_def all_digits_def)
    moreover have "n - 1 - int (length (drop 1 ds)) = n - int (length ds)" using l by simp
    ultimately show ?thesis
      by (intro exI [of _ "take 1 ds"] exI [of _ "drop 1 ds"] exI [of _ "Some (n - 1)"])
        (simp only: literal_value_eq option.case append_take_drop_id simp_thms)
  qed
qed

text \<open>The text of a positive double is a literal that denotes what rounds to it.\<close>

lemma positive_text_literal:
  assumes "0 < x" "fl x = Fin x"
  shows "\<exists>is fs expo. positive_text x = literal_text is fs expo \<and> literal_ok is fs \<and> fl (literal_value is fs expo) = Fin x"
proof -
  define n where "n = decimal_exponent x"
  obtain s k where s: "shortest_digits x n 1 17 = (s, k)" "0 < s" "fl (of_int s * pow10 (n - int k)) = Fin x"
    using shortest_digits_read [OF assms] by (auto simp: n_def)
  define ds where "ds = strip_zeros (dec (nat s))"
  obtain j where j: "dec (nat s) = ds @ replicate j 48" using strip_zeros_form by (auto simp: ds_def)
  have h: "hd (dec (nat s)) \<noteq> 48" "dec (nat s) \<noteq> []" "list_all is_digit (dec (nat s))"
    using hd_dec [of "nat s"] dec_all_digits [of "nat s"] s(2) by (simp_all add: all_digits_def)
  then have ne: "ds \<noteq> []" using j by (cases j) auto
  with h j have ds: "all_digits ds" "hd ds \<noteq> 48" by (auto simp: all_digits_def)
  have v: "s = digits_value ds * 10 ^ j"
    using digits_value_dec [of "nat s"] s(2) unfolding j by (simp add: digits_value_append)
  define l where "l = n + int (length (dec (nat s))) - int k"
  have "l - int (length ds) = int j + (n - int k)" by (simp add: l_def j)
  then have "of_int (digits_value ds) * pow10 (l - int (length ds)) = of_int s * pow10 (n - int k)"
    by (simp only: pow10_add v) (simp add: pow10_def)
  with layout_literal [OF ds, of l] s(3) have "\<exists>is fs expo. layout_digits ds l = literal_text is fs expo
      \<and> literal_ok is fs \<and> fl (literal_value is fs expo) = Fin x" by metis
  moreover have "positive_text x = layout_digits ds l"
    using s(1) by (simp add: positive_text_def Let_def n_def [symmetric] ds_def l_def)
  ultimately show ?thesis by simp
qed

section \<open>Characters\<close>

definition plain_ascii :: "ustr \<Rightarrow> bool" where
  "plain_ascii s \<longleftrightarrow> list_all (\<lambda>c. 32 \<le> c \<and> c < 128) s"

lemma plain_ascii_append [simp]:
  "plain_ascii []" "plain_ascii (c # s) \<longleftrightarrow> 32 \<le> c \<and> c < 128 \<and> plain_ascii s"
  "plain_ascii (s @ t) \<longleftrightarrow> plain_ascii s \<and> plain_ascii t" "plain_ascii (replicate n c) \<longleftrightarrow> n = 0 \<or> 32 \<le> c \<and> c < 128"
  by (auto simp: plain_ascii_def list_all_iff)

lemma plain_ascii_sub: "set t \<subseteq> set s \<Longrightarrow> plain_ascii s \<Longrightarrow> plain_ascii t"
  by (auto simp: plain_ascii_def list_all_iff)

lemma plain_ascii_dec: "plain_ascii (dec n)"
  using dec_all_digits [of n] by (auto simp: plain_ascii_def all_digits_def list_all_iff is_digit_def)

lemma plain_ascii_layout: "plain_ascii ds \<Longrightarrow> plain_ascii (layout_digits ds n)"
  using plain_ascii_sub [of "take m ds" ds for m] plain_ascii_sub [of "drop m ds" ds for m]
  by (simp add: layout_digits_def exponent_text_def plain_ascii_dec js_def set_take_subset set_drop_subset)

lemma plain_ascii_number: "plain_ascii (number_text x)"
proof -
  have "set (strip_zeros s) \<subseteq> set s" for s
    by (auto simp: strip_zeros_def dest: set_dropWhileD)
  then have "plain_ascii (strip_zeros (dec n))" for n by (rule plain_ascii_sub [OF _ plain_ascii_dec])
  then have "plain_ascii (positive_text q)" for q
    by (auto simp: positive_text_def Let_def split: prod.split intro!: plain_ascii_layout)
  then show ?thesis by (cases x) (simp_all add: js_def)
qed

end
