(* ===== verification/Json.thy ===== *)
theory Json imports Bytes NumberText begin

text \<open>
  JSON: the values of the language, \<open>JSON.parse\<close> and \<open>JSON.stringify\<close>. The configuration client
  parses response bodies with it, the synchronizer event payloads; the gateway, the audit log and
  the application write with it. Object members stand in the order \<open>Object.keys\<close> lists them: array
  indices first, ascending, then the other keys in order of creation.
\<close>

datatype json = JNull | JBool bool | JNumber jsnum | JString ustr | JArray "json list" | JObject "(ustr \<times> json) list"

section \<open>Reading\<close>

definition json_space :: "nat \<Rightarrow> bool" where
  "json_space c \<longleftrightarrow> c = 32 \<or> c = 9 \<or> c = 10 \<or> c = 13"

definition skip_space :: "ustr \<Rightarrow> ustr" where
  "skip_space s = dropWhile json_space s"

definition hex4 :: "nat \<Rightarrow> nat \<Rightarrow> nat \<Rightarrow> nat \<Rightarrow> nat option" where
  "hex4 a b c d =
     (case (hex_value a, hex_value b, hex_value c, hex_value d) of
        (Some w, Some x, Some y, Some z) \<Rightarrow> Some (4096 * w + 256 * x + 16 * y + z)
      | _ \<Rightarrow> None)"

text \<open>The letter after a backslash, and the unit it stands for.\<close>

definition simple_escapes :: "(nat \<times> nat) list" where
  "simple_escapes = [(34, 34), (92, 92), (47, 47), (98, 8), (102, 12), (110, 10), (114, 13), (116, 9)]"

text \<open>The characters of a string literal after its opening quote, and what follows the closing one.\<close>

fun json_chars :: "ustr \<Rightarrow> (ustr \<times> ustr) option" where
  "json_chars [] = None"
| "json_chars (c # s) =
     (if c = 34 then Some ([], s)
      else if c < 32 then None
      else if c = 92 then
        (case s of
           [] \<Rightarrow> None
         | e # r \<Rightarrow>
             (if e = 117 then
                (case r of
                   h1 # h2 # h3 # h4 # r' \<Rightarrow>
                     (case hex4 h1 h2 h3 h4 of
                        None \<Rightarrow> None
                      | Some u \<Rightarrow> map_option (\<lambda>(t, q). (u # t, q)) (json_chars r'))
                 | _ \<Rightarrow> None)
              else (case map_of simple_escapes e of
                  None \<Rightarrow> None
                | Some u \<Rightarrow> map_option (\<lambda>(t, q). (u # t, q)) (json_chars r))))
      else map_option (\<lambda>(t, q). (c # t, q)) (json_chars s))"

text \<open>A number literal: its text and what follows.\<close>

definition json_unsigned :: "bool \<Rightarrow> ustr \<Rightarrow> (jsnum \<times> ustr) option" where
  "json_unsigned neg u =
     (let ds = takeWhile is_digit u; r = dropWhile is_digit u;
          point = (r \<noteq> [] \<and> hd r = 46); fs = (if point then takeWhile is_digit (tl r) else []);
          r1 = (if point then dropWhile is_digit (tl r) else r);
          expo = (r1 \<noteq> [] \<and> hd r1 \<in> {101, 69});
          sign = (if expo \<and> tl r1 \<noteq> [] \<and> hd (tl r1) \<in> {43, 45} then [hd (tl r1)] else []);
          es = (if expo then takeWhile is_digit (drop (1 + length sign) r1) else []);
          r2 = (if expo then dropWhile is_digit (drop (1 + length sign) r1) else r1) in
      if ds = [] \<or> (hd ds = 48 \<and> length ds \<noteq> 1) \<or> (point \<and> fs = []) \<or> (expo \<and> es = []) then None
      else Some (decimal_number neg (ds @ (if point then 46 # fs else []) @ (if expo then 101 # sign @ es else [])), r2))"

definition json_number :: "ustr \<Rightarrow> (jsnum \<times> ustr) option" where
  "json_number s = (if s \<noteq> [] \<and> hd s = 45 then json_unsigned True (tl s) else json_unsigned False s)"

text \<open>The order of the members of an object.\<close>

definition array_index :: "ustr \<Rightarrow> bool" where
  "array_index k \<longleftrightarrow> all_digits k \<and> k = dec (nat (digits_value k)) \<and> digits_value k < 4294967295"

definition own_order :: "(ustr \<times> 'a) list \<Rightarrow> (ustr \<times> 'a) list" where
  "own_order ms = sort_key (\<lambda>kv. digits_value (fst kv)) (filter (\<lambda>kv. array_index (fst kv)) ms)
     @ filter (\<lambda>kv. \<not> array_index (fst kv)) ms"

definition make_object :: "(ustr \<times> json) list \<Rightarrow> json" where
  "make_object ms = JObject (own_order (foldl (\<lambda>m kv. AList.update (fst kv) (snd kv) m) [] ms))"

text \<open>
  A value, the elements of an array from its first value on, the members of an object from its
  first key on. The fuel bounds the depth of calls; a call that passes text on has removed a
  character from it at least every second time, so twice the length of the text is enough.
\<close>

fun json_value :: "nat \<Rightarrow> ustr \<Rightarrow> (json \<times> ustr) option"
  and json_elements :: "nat \<Rightarrow> ustr \<Rightarrow> (json list \<times> ustr) option"
  and json_members :: "nat \<Rightarrow> ustr \<Rightarrow> ((ustr \<times> json) list \<times> ustr) option" where
  "json_value 0 s = None"
| "json_value (Suc n) s =
     (case skip_space s of
        [] \<Rightarrow> None
      | c # r \<Rightarrow>
          if c = 34 then map_option (\<lambda>(t, q). (JString t, q)) (json_chars r)
          else if c = 91 then
            (case skip_space r of
               [] \<Rightarrow> None
             | d # q \<Rightarrow> if d = 93 then Some (JArray [], q)
                 else map_option (\<lambda>(vs, q). (JArray vs, q)) (json_elements n (d # q)))
          else if c = 123 then
            (case skip_space r of
               [] \<Rightarrow> None
             | d # q \<Rightarrow> if d = 125 then Some (JObject [], q)
                 else map_option (\<lambda>(ms, q). (make_object ms, q)) (json_members n (d # q)))
          else if starts_with (js ''null'') (c # r) then Some (JNull, drop 4 (c # r))
          else if starts_with (js ''true'') (c # r) then Some (JBool True, drop 4 (c # r))
          else if starts_with (js ''false'') (c # r) then Some (JBool False, drop 5 (c # r))
          else map_option (\<lambda>(x, q). (JNumber x, q)) (json_number (c # r)))"
| "json_elements 0 s = None"
| "json_elements (Suc n) s =
     (case json_value n s of
        None \<Rightarrow> None
      | Some (v, r) \<Rightarrow>
          (case skip_space r of
             [] \<Rightarrow> None
           | c # q \<Rightarrow>
               if c = 93 then Some ([v], q)
               else if c = 44 then map_option (\<lambda>(vs, p). (v # vs, p)) (json_elements n q)
               else None))"
| "json_members 0 s = None"
| "json_members (Suc n) s =
     (case skip_space s of
        [] \<Rightarrow> None
      | c # r \<Rightarrow>
          if c \<noteq> 34 then None
          else (case json_chars r of
              None \<Rightarrow> None
            | Some (k, r1) \<Rightarrow>
                (case skip_space r1 of
                   [] \<Rightarrow> None
                 | d # r2 \<Rightarrow>
                     if d \<noteq> 58 then None
                     else (case json_value n r2 of
                         None \<Rightarrow> None
                       | Some (v, r3) \<Rightarrow>
                           (case skip_space r3 of
                              [] \<Rightarrow> None
                            | e # q \<Rightarrow>
                                if e = 125 then Some ([(k, v)], q)
                                else if e = 44 then map_option (\<lambda>(ms, p). ((k, v) # ms, p)) (json_members n q)
                                else None)))))"

definition json_parse :: "ustr \<Rightarrow> json option" where
  "json_parse s =
     (case json_value (2 * length s + 2) s of
        None \<Rightarrow> None
      | Some (v, r) \<Rightarrow> if skip_space r = [] then Some v else None)"

section \<open>Writing\<close>

definition unit_escape :: "nat \<Rightarrow> ustr" where
  "unit_escape u = [92, 117, hex_digit (u div 4096 mod 16), hex_digit (u div 256 mod 16),
     hex_digit (u div 16 mod 16), hex_digit (u mod 16)]"

text \<open>How one unit is written, a lone surrogate and a control character escaped.\<close>

definition plain_char_text :: "nat \<Rightarrow> ustr" where
  "plain_char_text c =
     (if c = 34 then [92, 34] else if c = 92 then [92, 92] else if c = 8 then [92, 98]
      else if c = 12 then [92, 102] else if c = 10 then [92, 110] else if c = 13 then [92, 114]
      else if c = 9 then [92, 116]
      else if c < 32 \<or> (55296 \<le> c \<and> c \<le> 57343) then unit_escape c else [c])"

fun string_chars :: "ustr \<Rightarrow> ustr" where
  "string_chars [] = []"
| "string_chars [c] = plain_char_text c"
| "string_chars (c # d # s) =
     (if 55296 \<le> c \<and> c \<le> 56319 \<and> 56320 \<le> d \<and> d \<le> 57343 then c # d # string_chars s
      else plain_char_text c @ string_chars (d # s))"

definition string_text :: "ustr \<Rightarrow> ustr" where
  "string_text s = 34 # string_chars s @ [34]"

text \<open>A number that is not finite is written \<open>null\<close>.\<close>

fun json_text :: "json \<Rightarrow> ustr" where
  "json_text JNull = js ''null''"
| "json_text (JBool b) = (if b then js ''true'' else js ''false'')"
| "json_text (JNumber x) = (if is_finite x then number_text x else js ''null'')"
| "json_text (JString s) = string_text s"
| "json_text (JArray vs) = 91 # join_with [44] (map json_text vs) @ [93]"
| "json_text (JObject ms) =
     123 # join_with [44] (map (\<lambda>kv. string_text (fst kv) @ 58 # json_text (snd kv)) ms) @ [125]"

section \<open>The fuel is enough\<close>

lemma json_chars_shorter: "json_chars s = Some x \<Longrightarrow> length (snd x) < length s"
proof (induction "length s" arbitrary: s x rule: less_induct)
  case less
  have step: "\<exists>y. json_chars s' = Some y \<and> snd x = snd y \<Longrightarrow> length s' < length s \<Longrightarrow> length (snd x) < length s" for s'
    using less.hyps [of s'] by force
  show ?case
  proof (cases s)
    case (Cons c r)
    note step = step [unfolded Cons]
    show ?thesis
    proof (cases "c = 34 \<or> c < 32 \<or> c \<noteq> 92")
      case True
      with less.prems step [of r] show ?thesis by (auto simp: Cons split: if_splits)
    next
      case False
      then obtain e q where r: "r = e # q" using less.prems by (cases r) (auto simp: Cons)
      show ?thesis
      proof (cases "e = 117")
        case True
        with less.prems step [of "drop 4 q"] False show ?thesis by (auto simp: Cons r split: list.splits option.splits)
      next
        case e: False
        with less.prems step [of q] False show ?thesis by (auto simp: Cons r split: option.splits)
      qed
    qed
  qed (use less.prems in simp)
qed

lemma json_unsigned_shorter: 
  assumes "json_unsigned neg s = Some x" shows "length (snd x) < length s"
proof -
  have le: "length (dropWhile P t) \<le> length t" for P and t :: ustr by (rule length_dropWhile_le)
  define r where "r = dropWhile is_digit s"
  define r1 where "r1 = (if r \<noteq> [] \<and> hd r = 46 then dropWhile is_digit (tl r) else r)"
  have r1: "length r1 \<le> length r" using le [of is_digit "tl r"] by (auto simp: r1_def)
  have ds: "takeWhile is_digit s \<noteq> []" and "\<exists>k P. snd x = r1 \<or> snd x = dropWhile is_digit (drop k r1)"
    using assms unfolding json_unsigned_def Let_def r_def [symmetric] r1_def [symmetric]
    by (auto split: if_split_asm)
  then have "length (snd x) \<le> length r1" by (metis diff_le_self le le_trans length_drop order_refl)
  moreover have "length r < length s"
    using ds arg_cong [OF takeWhile_dropWhile_id [of is_digit s], of length]
    by (cases "takeWhile is_digit s") (auto simp: r_def)
  ultimately show ?thesis using r1 by linarith
qed

lemma json_number_shorter: "json_number s = Some x \<Longrightarrow> length (snd x) < length s"
  using json_unsigned_shorter [of True "tl s" x] json_unsigned_shorter [of False s x]
  by (cases s) (auto simp: json_number_def split: if_splits)

lemma skip_space_shorter: "skip_space s = c # r \<Longrightarrow> length r < length s"
  using length_dropWhile_le [of json_space s] by (simp add: skip_space_def)

lemma json_shorter:
  "json_value n s = Some x \<Longrightarrow> length (snd x) < length s"
  "json_elements n s = Some y \<Longrightarrow> length (snd y) < length s"
  "json_members n s = Some z \<Longrightarrow> length (snd z) < length s"
proof (induction n s and n s and n s arbitrary: x and y and z
    rule: json_value_json_elements_json_members.induct)
  case (2 n s)
  then show ?case
    by (fastforce split: if_splits list.splits dest!: skip_space_shorter json_chars_shorter json_number_shorter)
next
  case (4 n s)
  then show ?case
    by (fastforce split: if_splits list.splits option.splits dest!: skip_space_shorter)
next
  case (6 n s)
  then show ?case
    by (fastforce split: if_splits list.splits option.splits dest!: skip_space_shorter json_chars_shorter)
qed auto


text \<open>Any fuel from twice the length of the text on gives the same result.\<close>

lemma json_fuel_step:
  "(2 * length s < n \<longrightarrow> json_value (Suc n) s = json_value n s)
     \<and> (2 * length s + 1 < n \<longrightarrow> json_elements (Suc n) s = json_elements n s \<and> json_members (Suc n) s = json_members n s)"
proof (induction n arbitrary: s)
  case (Suc n)
  have V: "json_value (Suc n) t = json_value n t" if "length t \<le> length s" "2 * length s + 1 < Suc n" for t
    using Suc [of t] that by simp
  have E: "json_elements (Suc n) t = json_elements n t" "json_members (Suc n) t = json_members n t"
    if "length t < length s" "2 * length s < Suc n" for t
    using Suc [of t] that by simp_all
  have F: "json_elements (Suc n) t = json_elements n t" "json_members (Suc n) t = json_members n t"
    if "length t < length s" "2 * length s + 1 < Suc n" for t
    using Suc [of t] that by simp_all
  have val: "json_value (Suc (Suc n)) s = json_value (Suc n) s" if n: "2 * length s < Suc n"
  proof (cases "skip_space s")
    case (Cons c r)
    from skip_space_shorter [OF this] have r: "length r < length s" .
    then have "length (skip_space r) < length s" using length_dropWhile_le [of json_space r] by (simp add: skip_space_def)
    then have "json_elements (Suc n) (d # q) = json_elements n (d # q)" "json_members (Suc n) (d # q) = json_members n (d # q)"
      if "skip_space r = d # q" for d q using that n E by simp_all
    then show ?thesis unfolding json_value.simps(2) Cons list.case by (simp split: list.split del: json_elements.simps json_members.simps)
  qed simp
  have elements: "json_elements (Suc (Suc n)) s = json_elements (Suc n) s" if n: "2 * length s + 1 < Suc n"
  proof (cases "json_value n s")
    case (Some vr)
    obtain v r where vr: "vr = (v, r)" by (rule prod.exhaust)
    have "length q < length s" if "skip_space r = c # q" for c q
      using json_shorter(1) [OF Some] skip_space_shorter [OF that] by (simp add: vr)
    with n F(1) V [OF order_refl n] Some vr show ?thesis
      unfolding json_elements.simps(2) by (simp split: list.split del: json_elements.simps json_value.simps)
  qed (use V [OF order_refl n] in \<open>simp add: json_elements.simps(2) del: json_value.simps\<close>)
  have members: "json_members (Suc (Suc n)) s = json_members (Suc n) s" if n: "2 * length s + 1 < Suc n"
  proof -
    have *: "(case json_value (Suc n) r2 of None \<Rightarrow> None
        | Some (v, r3) \<Rightarrow> (case skip_space r3 of [] \<Rightarrow> None
          | e # q \<Rightarrow> if e = 125 then Some ([(k, v)], q)
              else if e = 44 then map_option (\<lambda>(ms, p). ((k, v) # ms, p)) (json_members (Suc n) q) else None))
      = (case json_value n r2 of None \<Rightarrow> None
        | Some (v, r3) \<Rightarrow> (case skip_space r3 of [] \<Rightarrow> None
          | e # q \<Rightarrow> if e = 125 then Some ([(k, v)], q)
              else if e = 44 then map_option (\<lambda>(ms, p). ((k, v) # ms, p)) (json_members n q) else None))"
      if r2: "length r2 < length s" for r2 k
    proof (cases "json_value n r2")
      case None
      with V [of r2] r2 n show ?thesis by simp
    next
      case (Some vr)
      obtain v r where vr: "vr = (v, r)" by (rule prod.exhaust)
      have "length q < length s" if "skip_space r = c # q" for c q
        using json_shorter(1) [OF Some] skip_space_shorter [OF that] r2 by (simp add: vr)
      with n F(2) V [of r2] r2 Some vr show ?thesis by (simp split: list.split del: json_members.simps json_value.simps)
    qed
    have "length r2 < length s" if "skip_space s = c # r" "json_chars r = Some (k, r1)" "skip_space r1 = d # r2" for c r k r1 d r2
      using skip_space_shorter [OF that(1)] json_chars_shorter [OF that(2)] skip_space_shorter [OF that(3)] by simp
    with * show ?thesis unfolding json_members.simps(2) by (simp split: list.split option.split)
  qed
  from val elements members show ?case by blast
qed simp

lemma json_fuel: "2 * length s < n \<Longrightarrow> json_value (n + k) s = json_value n s"
  by (induction k) (simp_all add: json_fuel_step del: json_value.simps)

text \<open>So the fuel of \<open>json_parse\<close> does not show.\<close>

lemma json_parse_fuel:
  assumes "2 * length s < n"
  shows "json_parse s = (case json_value n s of None \<Rightarrow> None | Some (v, r) \<Rightarrow> if skip_space r = [] then Some v else None)"
proof -
  have "json_value n s = json_value (n + (2 * length s + 2)) s"
    by (simp only: json_fuel [OF assms])
  moreover have "json_value (2 * length s + 2) s = json_value (n + (2 * length s + 2)) s"
    by (subst add.commute) (simp only: json_fuel)
  ultimately show ?thesis by (simp add: json_parse_def del: json_value.simps)
qed

section \<open>Reading back what was written\<close>

text \<open>Values whose texts are made of 16-bit units and whose numbers are finite.\<close>

fun json_ok :: "json \<Rightarrow> bool" where
  "json_ok JNull = True"
| "json_ok (JBool b) = True"
| "json_ok (JNumber x) = is_double x"
| "json_ok (JString s) = list_all (\<lambda>c. c < 65536) s"
| "json_ok (JArray vs) = list_all json_ok vs"
| "json_ok (JObject ms) = (map_ok ms \<and> own_order ms = ms
     \<and> list_all (\<lambda>kv. list_all (\<lambda>c. c < 65536) (fst kv) \<and> json_ok (snd kv)) ms)"

lemma hex_value_digit [simp]: "d < 16 \<Longrightarrow> hex_value (hex_digit d) = Some d"
  by (auto simp: hex_value_def hex_digit_def is_digit_def)

lemma hex4_escape:
  assumes "c < 65536"
  shows "hex4 (hex_digit (c div 4096 mod 16)) (hex_digit (c div 256 mod 16)) (hex_digit (c div 16 mod 16))
     (hex_digit (c mod 16)) = Some c"
proof -
  have d: "c div 256 = c div 16 div 16" "c div 4096 = c div 16 div 16 div 16" by (simp_all flip: div_mult2_eq)
  have "c div 16 div 16 div 16 < 16" using assms by (simp flip: div_mult2_eq)
  then have "c div 16 div 16 div 16 mod 16 = c div 16 div 16 div 16" by simp
  then have "4096 * (c div 4096 mod 16) + 256 * (c div 256 mod 16) + 16 * (c div 16 mod 16) + c mod 16 = c"
    unfolding d using div_mult_mod_eq [of c 16] div_mult_mod_eq [of "c div 16" 16]
      div_mult_mod_eq [of "c div 16 div 16" 16] by linarith
  moreover have "x mod 16 < 16" for x :: nat by simp
  ultimately show ?thesis 
    unfolding hex4_def hex_value_digit [OF \<open>\<And>x :: nat. x mod 16 < 16\<close>] prod.case option.case by (simp only:)
qed

lemma json_chars_plain:
  "c < 65536 \<Longrightarrow> json_chars (plain_char_text c @ r) = map_option (\<lambda>(t, q). (c # t, q)) (json_chars r)"
  using hex4_escape [of c] by (auto simp: plain_char_text_def unit_escape_def simple_escapes_def)

lemma json_chars_text:
  "list_all (\<lambda>c. c < 65536) s \<Longrightarrow> json_chars (string_chars s @ 34 # rest) = Some (s, rest)"
  by (induction s rule: string_chars.induct) (simp_all add: json_chars_plain)

text \<open>What may follow a value inside a text.\<close>

definition delimited :: "ustr \<Rightarrow> bool" where
  "delimited rest \<longleftrightarrow> rest = [] \<or> hd rest \<in> {44, 93, 125}"

lemma digits_dec: "list_all is_digit (dec n)" and dec_neq_Nil [simp]: "dec n \<noteq> []"
  using dec_all_digits [of n] by (simp_all add: all_digits_def)

lemma span_digits:
  assumes "list_all is_digit ds" "t = [] \<or> \<not> is_digit (hd t)"
  shows "takeWhile is_digit (ds @ t) = ds" "dropWhile is_digit (ds @ t) = t"
  using assms by (cases t; simp add: takeWhile_append2 dropWhile_append2 list_all_iff)+

lemma delimited_head:
  assumes "delimited rest"
  shows "rest = [] \<or> \<not> is_digit (hd rest)" "\<not> (rest \<noteq> [] \<and> hd rest = 46)" "\<not> (rest \<noteq> [] \<and> hd rest \<in> {101, 69})"
  using assms by (auto simp: delimited_def is_digit_def)

text \<open>What follows the digits of a literal.\<close>

definition literal_exponent :: "int option \<Rightarrow> ustr" where
  "literal_exponent expo = (case expo of None \<Rightarrow> [] | Some e \<Rightarrow> exponent_text e)"

lemma literal_exponent_head: "literal_exponent expo @ rest \<noteq> [] \<Longrightarrow> delimited rest \<Longrightarrow> \<not> is_digit (hd (literal_exponent expo @ rest))
     \<and> hd (literal_exponent expo @ rest) \<noteq> 46"
  by (cases expo; cases rest) (auto simp: literal_exponent_def exponent_text_def js_def delimited_def is_digit_def)

lemma scan_exponent_literal: "scan_exponent (literal_exponent expo) = Some (case expo of None \<Rightarrow> 0 | Some e \<Rightarrow> e)"
  using dec_all_digits by (cases expo) (auto simp: literal_exponent_def exponent_text_def js_def scan_exponent_def Let_def)

lemma decimal_literal:
  assumes "literal_ok ds fs"
  shows "decimal_number neg (literal_text ds fs expo) = fl (if neg then - literal_value ds fs expo else literal_value ds fs expo)"
proof -
  have ds: "ds \<noteq> []" "list_all is_digit ds" "list_all is_digit fs" using assms by (auto simp: literal_ok_def all_digits_def)
  let ?e = "literal_exponent expo"
  have e: "?e = [] \<or> \<not> is_digit (hd ?e)" "?e \<noteq> [] \<Longrightarrow> hd ?e \<noteq> 46"
    using literal_exponent_head [of expo "[]"] by (auto simp: delimited_def)
  have "literal_text ds fs expo \<noteq> js ''Infinity''"
    using ds by (cases ds) (auto simp: literal_text_def js_def is_digit_def)
  moreover have "scan_amount (literal_text ds fs expo) = Some (ds, fs, ?e)"
  proof (cases fs)
    case Nil
    with span_digits [OF ds(2) e(1)] e(2) ds(1) show ?thesis
      by (auto simp: scan_amount_def literal_text_def Let_def literal_exponent_def [symmetric])
  next
    case (Cons c t)
    have "46 # fs @ ?e = [] \<or> \<not> is_digit (hd (46 # fs @ ?e))" by (simp add: is_digit_def)
    with span_digits [OF ds(2) this] span_digits [OF ds(3) e(1)] ds(1) Cons show ?thesis
      by (simp add: scan_amount_def literal_text_def Let_def literal_exponent_def [symmetric])
  qed
  ultimately show ?thesis
    by (cases expo) (simp_all add: decimal_number_def scan_exponent_literal literal_value_def pow10_def Let_def)
qed

lemma json_unsigned_literal:
  assumes "literal_ok ds fs" "delimited rest"
  shows "json_unsigned neg (literal_text ds fs expo @ rest)
     = Some (fl (if neg then - literal_value ds fs expo else literal_value ds fs expo), rest)"
proof -
  have ds: "ds \<noteq> []" "list_all is_digit ds" "list_all is_digit fs" "\<not> (hd ds = 48 \<and> length ds \<noteq> 1)"
    using assms(1) by (auto simp: literal_ok_def all_digits_def)
  define q where "q = literal_exponent expo @ rest"
  define t where "t = (if fs = [] then q else 46 # fs @ q)"
  have q: "q = [] \<or> \<not> is_digit (hd q)" "\<not> (q \<noteq> [] \<and> hd q = 46)"
    using literal_exponent_head [OF _ assms(2), of expo] by (auto simp: q_def)
  then have "t = [] \<or> \<not> is_digit (hd t)" by (simp add: t_def is_digit_def)
  note D = span_digits [OF ds(2) this] and F = span_digits [OF ds(3) q(1)]
  have whole: "literal_text ds fs expo @ rest = ds @ t" by (simp add: literal_text_def t_def q_def literal_exponent_def)
  have point: "(t \<noteq> [] \<and> hd t = 46) = (fs \<noteq> [])" using q(2) by (simp add: t_def)
  have fraction: "(if fs \<noteq> [] then takeWhile is_digit (tl t) else []) = fs" "(if fs \<noteq> [] then dropWhile is_digit (tl t) else t) = q"
    using F by (simp_all add: t_def)
  have expo: "(q \<noteq> [] \<and> hd q \<in> {101, 69}) = (expo \<noteq> None)"
    using delimited_head(3) [OF assms(2)] by (cases expo) (auto simp: q_def literal_exponent_def exponent_text_def js_def)
  have denoted: "decimal_number neg (ds @ (if fs \<noteq> [] then 46 # fs else []) @ literal_exponent expo)
      = fl (if neg then - literal_value ds fs expo else literal_value ds fs expo)"
    using decimal_literal [OF assms(1), of neg expo] by (cases "fs = []") (simp_all add: literal_text_def literal_exponent_def)
  show ?thesis
  proof (cases expo)
    case None
    with denoted ds(1,4) show ?thesis
      unfolding whole json_unsigned_def Let_def D point fraction expo by (simp add: q_def literal_exponent_def)
  next
    case (Some e)
    define c where "c = (if e < 0 then 45 else 43 :: nat)"
    have et: "literal_exponent expo = 101 # c # dec (nat \<bar>e\<bar>)"
      by (simp add: Some literal_exponent_def exponent_text_def js_def c_def)
    have c: "c \<in> {43, 45}" by (simp add: c_def)
    note E = span_digits [OF digits_dec delimited_head(1) [OF assms(2)], of "nat \<bar>e\<bar>"]
    have q: "q = 101 # c # dec (nat \<bar>e\<bar>) @ rest" by (simp add: q_def et)
    show ?thesis
      unfolding whole json_unsigned_def Let_def D point fraction expo
      using Some denoted [unfolded et] c ds(1,4) E by (cases "fs = []"; cases neg) (simp_all add: q)
  qed
qed

text \<open>Every finite number is read back from its text.\<close>

lemma positive_text_read:
  assumes "0 < x" "fl x = Fin x" "delimited rest"
  shows "json_unsigned neg (positive_text x @ rest) = Some (Fin (if neg then - x else x), rest)"
proof -
  from positive_text_literal [OF assms(1,2)] obtain ds fs expo where l: "positive_text x = literal_text ds fs expo"
    "literal_ok ds fs" "fl (literal_value ds fs expo) = Fin x" by blast
  then have "fl (- literal_value ds fs expo) = Fin (- x)" by (simp add: fl_neg)
  with l json_unsigned_literal [OF l(2) assms(3), of neg expo] show ?thesis by simp
qed

lemma positive_text_head:
  assumes "0 < x" "fl x = Fin x"
  shows "\<exists>c t. positive_text x = c # t \<and> is_digit c"
proof -
  from positive_text_literal [OF assms] obtain ds fs expo where l: "positive_text x = literal_text ds fs expo"
    "literal_ok ds fs" by blast
  then show ?thesis by (cases ds) (auto simp: literal_ok_def all_digits_def literal_text_def)
qed

lemma number_text_head:
  assumes "is_double x"
  shows "\<exists>c t. number_text x = c # t \<and> (is_digit c \<or> c = 45)"
proof -
  from assms obtain a where a: "x = Fin a" "fl a = Fin a" by (cases x) auto
  then have "fl (- a) = Fin (- a)" by (simp add: fl_neg)
  with a positive_text_head [of a] positive_text_head [of "- a"] show ?thesis
    by (cases "a = 0"; cases "a < 0") (auto simp: js_def is_digit_def)
qed

lemma json_number_text:
  assumes "is_double x" "delimited rest"
  shows "json_number (number_text x @ rest) = Some (x, rest)"
proof -
  from assms(1) obtain a where a: "x = Fin a" "fl a = Fin a" by (cases x) auto
  then have n: "fl (- a) = Fin (- a)" by (simp add: fl_neg)
  consider "a = 0" | "a < 0" | "0 < a" by linarith
  then show ?thesis
  proof cases
    case 1
    have "literal_ok [48] []" by (simp add: literal_ok_def all_digits_def is_digit_def)
    from json_unsigned_literal [OF this assms(2), of False None] a 1 show ?thesis
      by (simp add: json_number_def js_def literal_text_def literal_value_def digits_value_def)
  next
    case 2
    with positive_text_read [OF _ n assms(2), of True] a show ?thesis by (simp add: json_number_def js_def)
  next
    case 3
    with positive_text_head [OF _ a(2)] have "hd (positive_text a @ rest) \<noteq> 45" by (auto simp: is_digit_def)
    with 3 positive_text_read [OF _ a(2) assms(2), of False] a show ?thesis by (simp add: json_number_def)
  qed
qed

text \<open>The first character of a text decides how it is read.\<close>

lemma skip_space_id [simp]: "\<not> json_space c \<Longrightarrow> skip_space (c # s) = c # s"
  by (simp add: skip_space_def)

lemma starts_with_hd: "starts_with (c # p) (d # s) \<Longrightarrow> c = d"
  by (simp add: starts_with_def)

lemma json_value_number:
  assumes "is_digit c \<or> c = 45"
  shows "json_value (Suc n) (c # s) = map_option (\<lambda>(x, q). (JNumber x, q)) (json_number (c # s))"
proof -
  have "\<not> starts_with (js ''null'') (c # s)" "\<not> starts_with (js ''true'') (c # s)" "\<not> starts_with (js ''false'') (c # s)"
    using assms by (auto simp: js_def is_digit_def dest: starts_with_hd)
  with assms show ?thesis by (auto simp: json_space_def is_digit_def)
qed

lemma json_number_written:
  assumes "is_double x" "delimited rest"
  shows "json_value (Suc n) (json_text (JNumber x) @ rest) = Some (JNumber x, rest)"
proof -
  obtain c t where t: "number_text x = c # t" "is_digit c \<or> c = 45" using number_text_head [OF assms(1)] by blast
  have "is_finite x" using assms(1) by (cases x) auto
  with json_value_number [OF t(2), of n "t @ rest"] json_number_text [OF assms] show ?thesis
    by (simp add: t(1) del: json_value.simps)
qed

lemma json_literals:
  "json_value (Suc n) (js ''null'' @ rest) = Some (JNull, rest)"
  "json_value (Suc n) (js ''true'' @ rest) = Some (JBool True, rest)"
  "json_value (Suc n) (js ''false'' @ rest) = Some (JBool False, rest)"
  by (simp_all add: js_def starts_with_def json_space_def)

lemma json_string_written:
  "list_all (\<lambda>c. c < 65536) s \<Longrightarrow> json_value (Suc n) (string_text s @ rest) = Some (JString s, rest)"
  using json_chars_text [of s rest] by (simp add: string_text_def json_space_def)

text \<open>A text begins with none of the characters that end an array or an object.\<close>

lemma json_text_Cons: "json_ok v \<Longrightarrow> \<exists>c t. json_text v = c # t \<and> c < 128 \<and> \<not> json_space c \<and> c \<noteq> 93 \<and> c \<noteq> 125"
proof (cases v)
  case (JNumber x)
  assume "json_ok v"
  then have x: "is_double x" by (simp add: JNumber)
  then have "is_finite x" by (cases x) auto
  with number_text_head [OF x] show ?thesis
    by (auto simp: JNumber is_digit_def json_space_def)
qed (auto simp: js_def json_space_def string_text_def)

lemma map_update_distinct:
  "map_ok (m @ ms) \<Longrightarrow> foldl (\<lambda>m kv. AList.update (fst kv) (snd kv) m) m ms = m @ ms"
proof (induction ms arbitrary: m)
  case (Cons kv ms)
  have "AList.update k v m = m @ [(k, v)]" if "k \<notin> fst ` set m" for k v and m :: "('a \<times> 'b) list"
    using that by (induction m) auto
  with Cons show ?case by (auto simp: map_ok_def)
qed simp

lemma make_object_id: "map_ok ms \<Longrightarrow> own_order ms = ms \<Longrightarrow> make_object ms = JObject ms"
  using map_update_distinct [of "[]" ms] by (simp add: make_object_def)

lemma json_elements_written:
  assumes IH: "\<And>v n rest. v \<in> set vs \<Longrightarrow> delimited rest \<Longrightarrow> 2 * length (json_text v) \<le> n \<Longrightarrow>
      json_value n (json_text v @ rest) = Some (v, rest)"
    and "vs \<noteq> []" "2 * length (join_with [44] (map json_text vs)) < n"
  shows "json_elements n (join_with [44] (map json_text vs) @ 93 # rest) = Some (vs, rest)"
  using assms
proof (induction vs arbitrary: n)
  case (Cons v vs)
  then obtain k where n: "n = Suc k" by (cases n) auto
  show ?case
  proof (cases vs)
    case Nil
    with Cons.prems(1) [of v "93 # rest" k] Cons.prems(3) n show ?thesis by (simp add: delimited_def json_space_def)
  next
    case (Cons w ws)
    define more where "more = join_with [44] (map json_text vs)"
    have t: "join_with [44] (map json_text (v # vs)) = json_text v @ 44 # more" by (simp add: more_def Cons)
    with Cons.prems(3) n have k: "2 * length (json_text v) \<le> k" "2 * length more < k" by auto
    from Cons.prems(1) [of v "44 # more @ 93 # rest" k] k
    have "json_value k (json_text v @ 44 # more @ 93 # rest) = Some (v, 44 # more @ 93 # rest)"
      by (simp add: delimited_def)
    moreover have "json_elements k (more @ 93 # rest) = Some (vs, rest)"
      unfolding more_def using Cons k(2) by (intro Cons.IH Cons.prems(1)) (auto simp: more_def)
    ultimately show ?thesis unfolding t by (simp add: n json_space_def)
  qed
qed simp

lemma json_members_written:
  assumes IH: "\<And>kv n rest. kv \<in> set ms \<Longrightarrow> delimited rest \<Longrightarrow> 2 * length (json_text (snd kv)) \<le> n \<Longrightarrow>
      json_value n (json_text (snd kv) @ rest) = Some (snd kv, rest)"
    and keys: "list_all (\<lambda>kv. list_all (\<lambda>c. c < 65536) (fst kv)) ms"
    and "ms \<noteq> []" "2 * length (join_with [44] (map (\<lambda>kv. string_text (fst kv) @ 58 # json_text (snd kv)) ms)) < n"
  shows "json_members n (join_with [44] (map (\<lambda>kv. string_text (fst kv) @ 58 # json_text (snd kv)) ms) @ 125 # rest)
     = Some (ms, rest)"
  using assms
proof (induction ms arbitrary: n)
  case (Cons kv ms)
  then obtain k where n: "n = Suc k" by (cases n) auto
  obtain key v where kv: "kv = (key, v)" by (rule prod.exhaust)
  have key: "json_chars (string_chars key @ 34 # r) = Some (key, r)" for r
    using json_chars_text Cons.prems(2) by (simp add: kv)
  show ?case
  proof (cases ms)
    case Nil
    with Cons.prems(1) [of kv "125 # rest" k] Cons.prems(4) n key show ?thesis
      by (simp add: kv delimited_def json_space_def string_text_def)
  next
    case (Cons w ws)
    define more where "more = join_with [44] (map (\<lambda>kv. string_text (fst kv) @ 58 # json_text (snd kv)) ms)"
    have t: "join_with [44] (map (\<lambda>kv. string_text (fst kv) @ 58 # json_text (snd kv)) (kv # ms))
        = string_text key @ 58 # json_text v @ 44 # more" by (simp add: more_def Cons kv)
    with Cons.prems(4) n have k: "2 * length (json_text v) \<le> k" "2 * length more < k" by auto
    from Cons.prems(1) [of kv "44 # more @ 125 # rest" k] k
    have "json_value k (json_text v @ 44 # more @ 125 # rest) = Some (v, 44 # more @ 125 # rest)"
      by (simp add: kv delimited_def)
    moreover have "json_members k (more @ 125 # rest) = Some (ms, rest)"
      unfolding more_def using Cons k(2) Cons.prems(2) by (intro Cons.IH Cons.prems(1)) (auto simp: more_def)
    ultimately show ?thesis unfolding t by (simp add: n kv key json_space_def string_text_def)
  qed
qed simp

lemma json_value_written:
  "json_ok v \<Longrightarrow> delimited rest \<Longrightarrow> 2 * length (json_text v) \<le> n \<Longrightarrow> json_value n (json_text v @ rest) = Some (v, rest)"
proof (induction v arbitrary: n rest rule: json_text.induct)
  case 1
  then obtain k where "n = Suc k" by (cases n) auto
  with json_literals show ?case by simp
next
  case (2 b)
  then obtain k where "n = Suc k" by (cases n) (auto split: if_splits)
  with json_literals show ?case by simp
next
  case (3 x)
  from json_text_Cons [OF "3.prems"(1)] "3.prems"(3) obtain k where "n = Suc k" by (cases n) auto
  with json_number_written [of x rest k] "3.prems" show ?case by (simp del: json_value.simps json_text.simps)
next
  case (4 s)
  then obtain k where "n = Suc k" by (cases n) (auto simp: string_text_def)
  with json_string_written 4 show ?case by simp
next
  case (5 vs)
  then obtain k where n: "n = Suc k" by (cases n) auto
  show ?case
  proof (cases vs)
    case Nil
    then show ?thesis by (simp add: n json_space_def)
  next
    case (Cons w ws)
    have "json_elements k (join_with [44] (map json_text vs) @ 93 # rest) = Some (vs, rest)"
      using 5 Cons n by (intro json_elements_written) (auto simp: list_all_iff)
    moreover from 5 Cons obtain c t where "join_with [44] (map json_text vs) = c # t" "\<not> json_space c" "c \<noteq> 93"
      using json_text_Cons [of w] by (cases ws) auto
    ultimately show ?thesis by (simp add: n json_space_def)
  qed
next
  case (6 ms)
  then obtain k where n: "n = Suc k" by (cases n) auto
  define j where "j = join_with [44] (map (\<lambda>kv. string_text (fst kv) @ 58 # json_text (snd kv)) ms)"
  show ?case
  proof (cases ms)
    case Nil
    then show ?thesis by (simp add: n json_space_def)
  next
    case (Cons w ws)
    have ok: "json_ok (snd kv)" if "kv \<in> set ms" for kv using that "6.prems"(1) by (simp add: list_all_iff)
    have "json_members k (j @ 125 # rest) = Some (ms, rest)"
      unfolding j_def
    proof (rule json_members_written)
      fix kv n rest
      assume "kv \<in> set ms" "delimited rest" "2 * length (json_text (snd kv)) \<le> n"
      with "6.IH" [OF this(1) ok] show "json_value n (json_text (snd kv) @ rest) = Some (snd kv, rest)"
        by blast
    qed (use "6.prems" Cons n in \<open>auto simp: list_all_iff\<close>)
    moreover obtain t where "j = 34 # t" by (cases ws) (auto simp: j_def Cons string_text_def)
    moreover have "make_object ms = JObject ms" using "6.prems"(1) by (intro make_object_id) auto
    ultimately show ?thesis by (simp add: n json_space_def j_def [symmetric])
  qed
qed

text \<open>What is written is read back.\<close>

lemma json_round_trip: "json_ok v \<Longrightarrow> json_parse (json_text v) = Some v"
  using json_value_written [of v "[]" "2 * length (json_text v) + 2"]
  by (simp add: json_parse_def delimited_def skip_space_def)

text \<open>Member names of the source are not array indices, and its texts are made of 16-bit units.\<close>

lemma own_order_names: "list_all (\<lambda>kv. \<not> all_digits (fst kv)) ms \<Longrightarrow> own_order ms = ms"
proof -
  assume "list_all (\<lambda>kv. \<not> all_digits (fst kv)) ms"
  then have *: "\<forall>kv \<in> set ms. \<not> array_index (fst kv)" by (auto simp: list_all_iff array_index_def)
  then have "filter (\<lambda>kv. array_index (fst kv)) ms = []" "filter (\<lambda>kv. \<not> array_index (fst kv)) ms = ms"
    by (simp_all add: filter_empty_conv filter_id_conv)
  then show ?thesis by (simp add: own_order_def)
qed

lemma units_js [simp]: "list_all (\<lambda>c. c < 65536) (js s)"
proof -
  have "(of_char c :: nat) < 65536" for c :: char by (rule less_trans [OF nat_of_char_less_256]) simp
  then show ?thesis by (simp add: js_def list_all_iff)
qed

lemma all_digits_js: "all_digits (js s) \<longleftrightarrow> s \<noteq> [] \<and> list_all (\<lambda>c. is_digit (of_char c)) s"
  by (auto simp: all_digits_def js_def list_all_iff)

end
