(* ===== verification/Bundle.thy ===== *)
theory Bundle imports BundleTypes Transport Json begin

text \<open>
  The parser of signed bundles (\<open>edge/src/bundle.ts\<close>), on the values of \<open>Json\<close>; a property that an object lacks is \<open>undefined\<close>, here \<open>None\<close>. The URL parser and the
  regular expression engine are arguments. Each \<open>expect\<close> function returns the value or the
  \<open>BundleValidationError\<close> it throws.
\<close>

named_theorems parser_simps \<open>when the elementary parsers succeed\<close>

section \<open>Elementary parsers\<close>

definition fail_at :: "ustr \<Rightarrow> ustr \<Rightarrow> 'a result" where
  "fail_at path message = Inl (BundleValidationError (path @ js '' '' @ message))"

definition sub_path :: "ustr \<Rightarrow> string \<Rightarrow> ustr" where
  "sub_path path name = path @ js ''.'' @ js name"

definition at_index :: "ustr \<Rightarrow> nat \<Rightarrow> ustr" where
  "at_index path i = path @ js ''['' @ dec i @ js '']''"

definition member :: "(ustr \<times> json) list \<Rightarrow> string \<Rightarrow> json option" where
  "member obj key = map_of obj (js key)"

fun expect_object :: "json option \<Rightarrow> ustr \<Rightarrow> (ustr \<times> json) list result" where
  "expect_object (Some (JObject obj)) path = Inr obj"
| "expect_object v path = fail_at path (js ''must be an object'')"

fun expect_array :: "json option \<Rightarrow> ustr \<Rightarrow> json list result" where
  "expect_array (Some (JArray vs)) path = Inr vs"
| "expect_array v path = fail_at path (js ''must be an array'')"

definition expect_non_empty_array :: "json option \<Rightarrow> ustr \<Rightarrow> json list result" where
  "expect_non_empty_array v path =
     bind_result (expect_array v path) (\<lambda>vs. if vs = [] then fail_at path (js ''must not be empty'') else Inr vs)"

fun expect_non_empty_string :: "json option \<Rightarrow> ustr \<Rightarrow> ustr result" where
  "expect_non_empty_string (Some (JString s)) path =
     (if trim s = [] then fail_at path (js ''must be a non-empty string'') else Inr s)"
| "expect_non_empty_string v path = fail_at path (js ''must be a non-empty string'')"

definition expect_non_empty_string_array :: "json option \<Rightarrow> ustr \<Rightarrow> ustr list result" where
  "expect_non_empty_string_array v path =
     bind_result (expect_non_empty_array v path)
       (map_result (\<lambda>i item. expect_non_empty_string (Some item) (at_index path i)) 0)"

fun expect_positive_integer :: "json option \<Rightarrow> ustr \<Rightarrow> jsnum result" where
  "expect_positive_integer (Some (JNumber n)) path =
     (if \<not> is_safe_integer n \<or> jle n (num 0) then fail_at path (js ''must be a positive integer'') else Inr n)"
| "expect_positive_integer v path = fail_at path (js ''must be a positive integer'')"

definition expect_pattern :: "json option \<Rightarrow> (ustr \<Rightarrow> bool) \<Rightarrow> ustr \<Rightarrow> ustr result" where
  "expect_pattern v pattern path =
     bind_result (expect_non_empty_string v path)
       (\<lambda>text. if \<not> pattern text then fail_at path (js ''has an invalid format'') else Inr text)"

text \<open>The allowed values are texts, each with what the model stands for it.\<close>

fun expect_enum :: "json option \<Rightarrow> (ustr \<times> 'a) list \<Rightarrow> ustr \<Rightarrow> 'a result" where
  "expect_enum (Some (JString s)) allowed path =
     (case map_of allowed s of
        Some x \<Rightarrow> Inr x
      | None \<Rightarrow> fail_at path (js ''must be one of: '' @ join_with (js '', '') (map fst allowed)))"
| "expect_enum v allowed path = fail_at path (js ''must be one of: '' @ join_with (js '', '') (map fst allowed))"

definition expect_http_url :: "url_parser \<Rightarrow> json option \<Rightarrow> ustr \<Rightarrow> bool \<Rightarrow> ustr result" where
  "expect_http_url parse_url v path requireHttps =
     bind_result (expect_non_empty_string v path) (\<lambda>text.
       case parse_url text of
         None \<Rightarrow> fail_at path (js ''must be a valid URL'')
       | Some u \<Rightarrow>
           if u_protocol u \<noteq> js ''http:'' \<and> u_protocol u \<noteq> js ''https:''
           then fail_at path (js ''must use HTTP or HTTPS'')
           else if u_username u \<noteq> [] \<or> u_password u \<noteq> []
           then fail_at path (js ''must not contain embedded credentials'')
           else if requireHttps \<and> u_protocol u \<noteq> js ''https:''
           then fail_at path (js ''must use HTTPS'')
           else if \<not> requireHttps \<and> \<not> uses_secure_transport u
           then fail_at path (js ''must use HTTPS unless it targets loopback'')
           else Inr text)"

fun assert_exact_keys :: "(ustr \<times> json) list \<Rightarrow> ustr list \<Rightarrow> ustr \<Rightarrow> unit result" where
  "assert_exact_keys [] allowed path = Inr ()"
| "assert_exact_keys ((key, v) # obj) allowed path =
     (if key \<notin> set allowed then fail_at (path @ js ''.'' @ key) (js ''is not supported'')
      else assert_exact_keys obj allowed path)"

text \<open>The fixed patterns of the parser.\<close>

definition digest_pattern :: "ustr \<Rightarrow> bool" where
  "digest_pattern s \<longleftrightarrow> starts_with (js ''sha256:'') s \<and> length s = 71 \<and> list_all is_lower_hex (drop 7 s)"

definition base64url_char :: "nat \<Rightarrow> bool" where
  "base64url_char c \<longleftrightarrow> is_upper c \<or> is_lower c \<or> is_digit c \<or> c = 95 \<or> c = 45"

definition signature_pattern :: "ustr \<Rightarrow> bool" where
  "signature_pattern s \<longleftrightarrow> length s = 86 \<and> list_all base64url_char s"

definition method_pattern :: "ustr \<Rightarrow> bool" where
  "method_pattern s \<longleftrightarrow> s \<noteq> [] \<and> list_all is_upper s"

text \<open>\<open>if (hasOwn(object, key))\<close> around the parser of an optional member.\<close>

definition parse_optional :: "json option \<Rightarrow> 'a result \<Rightarrow> 'a option result" where
  "parse_optional v r = (if v = None then Inr None else map_sum id Some r)"

section \<open>The parts of a bundle\<close>

definition bundle_schema_version :: ustr where "bundle_schema_version = js ''shieldward.bundle/v1alpha1''"
definition signature_algorithm :: ustr where "signature_algorithm = js ''Ed25519''"

definition parse_waf_rule :: "json \<Rightarrow> ustr \<Rightarrow> waf_rule result" where
  "parse_waf_rule v path =
     bind_result (expect_object (Some v) path) (\<lambda>obj.
     bind_result (assert_exact_keys obj (map js [''id'', ''target'', ''pattern'', ''flags'', ''action'']) path) (\<lambda>_.
     bind_result (expect_non_empty_string (member obj ''id'') (sub_path path ''id'')) (\<lambda>i.
     bind_result (expect_enum (member obj ''target'')
         [(js ''path'', TargetPath), (js ''query'', TargetQuery), (js ''headers'', TargetHeaders), (js ''body'', TargetBody)]
         (sub_path path ''target'')) (\<lambda>target.
     bind_result (expect_non_empty_string (member obj ''pattern'') (sub_path path ''pattern'')) (\<lambda>pattern.
     bind_result (expect_enum (member obj ''action'') [(js ''block'', ActionBlock), (js ''log'', ActionLog)]
         (sub_path path ''action'')) (\<lambda>action.
     bind_result (parse_optional (member obj ''flags'') (expect_enum (member obj ''flags'') [(js ''i'', js ''i'')] (sub_path path ''flags''))) (\<lambda>flags.
       Inr \<lparr>wr_id = i, wr_target = target, wr_pattern = pattern, wr_flags = flags, wr_action = action\<rparr>)))))))"

definition parse_rate_limit :: "json option \<Rightarrow> ustr \<Rightarrow> rate_limit_policy result" where
  "parse_rate_limit v path =
     bind_result (expect_object v path) (\<lambda>obj.
     bind_result (assert_exact_keys obj (map js [''requests'', ''window'', ''key'']) path) (\<lambda>_.
     bind_result (expect_positive_integer (member obj ''requests'') (sub_path path ''requests'')) (\<lambda>requests.
     bind_result (expect_non_empty_string (member obj ''window'') (sub_path path ''window'')) (\<lambda>window.
     bind_result (expect_enum (member obj ''key'') [(js ''client-ip'', KeyClientIp), (js ''jwt.sub'', KeyJwtSub)]
         (sub_path path ''key'')) (\<lambda>key.
       Inr \<lparr>rlp_requests = requests, rlp_window = window, rlp_key = key\<rparr>)))))"

definition parse_jwt_policy :: "url_parser \<Rightarrow> json option \<Rightarrow> ustr \<Rightarrow> jwt_policy result" where
  "parse_jwt_policy parse_url v path =
     bind_result (expect_object v path) (\<lambda>obj.
     bind_result (assert_exact_keys obj (map js [''required'', ''issuer'', ''audience'', ''jwksUrl'']) path) (\<lambda>_.
     bind_result (if member obj ''required'' \<noteq> Some (JBool True)
         then fail_at (sub_path path ''required'') (js ''must be true'') else Inr ()) (\<lambda>_.
     bind_result (expect_http_url parse_url (member obj ''issuer'') (sub_path path ''issuer'') True) (\<lambda>issuer.
     bind_result (expect_non_empty_string_array (member obj ''audience'') (sub_path path ''audience'')) (\<lambda>audience.
     bind_result (expect_http_url parse_url (member obj ''jwksUrl'') (sub_path path ''jwksUrl'') True) (\<lambda>jwksUrl.
       Inr \<lparr>jp_issuer = issuer, jp_audience = audience, jp_jwksUrl = jwksUrl\<rparr>))))))"

definition parse_route_match :: "json option \<Rightarrow> ustr \<Rightarrow> route_match result" where
  "parse_route_match v path =
     bind_result (expect_object v path) (\<lambda>obj.
     bind_result (assert_exact_keys obj (map js [''methods'', ''path'']) path) (\<lambda>_.
     bind_result (expect_non_empty_string (member obj ''path'') (sub_path path ''path'')) (\<lambda>routePath.
     bind_result (if \<not> starts_with (js ''/'') routePath
         then fail_at (sub_path path ''path'') (js ''must begin with \"/\"'') else Inr ()) (\<lambda>_.
     bind_result (expect_non_empty_string_array (member obj ''methods'') (sub_path path ''methods'')) (\<lambda>methods.
     bind_result (map_result (\<lambda>i m. if \<not> method_pattern m
           then fail_at (at_index (sub_path path ''methods'') i) (js ''must be an uppercase HTTP method'') else Inr ())
         0 methods) (\<lambda>_.
       Inr \<lparr>rm_methods = methods, rm_path = routePath\<rparr>))))))"

definition parse_route :: "url_parser \<Rightarrow> json \<Rightarrow> ustr \<Rightarrow> compiled_route result" where
  "parse_route parse_url v path =
     bind_result (expect_object (Some v) path) (\<lambda>obj.
     bind_result (assert_exact_keys obj (map js [''id'', ''match'', ''upstream'', ''jwt'', ''rateLimit'', ''waf'']) path) (\<lambda>_.
     bind_result (expect_non_empty_string (member obj ''id'') (sub_path path ''id'')) (\<lambda>i.
     bind_result (parse_route_match (member obj ''match'') (sub_path path ''match'')) (\<lambda>m.
     bind_result (expect_http_url parse_url (member obj ''upstream'') (sub_path path ''upstream'') False) (\<lambda>upstream.
     bind_result (parse_optional (member obj ''jwt'') (parse_jwt_policy parse_url (member obj ''jwt'') (sub_path path ''jwt''))) (\<lambda>jwt.
     bind_result (parse_optional (member obj ''rateLimit'') (parse_rate_limit (member obj ''rateLimit'') (sub_path path ''rateLimit''))) (\<lambda>rateLimit.
     bind_result (parse_optional (member obj ''waf'') (bind_result (expect_array (member obj ''waf'') (sub_path path ''waf''))
           (map_result (\<lambda>k rule. parse_waf_rule rule (at_index (sub_path path ''waf'') k)) 0))) (\<lambda>waf.
       Inr \<lparr>cr_id = i, cr_match = m, cr_upstream = upstream, cr_jwt = jwt, cr_rateLimit = rateLimit, cr_waf = waf\<rparr>))))))))"

definition parse_matcher :: "regexp_engine \<Rightarrow> json \<Rightarrow> ustr \<Rightarrow> method_matcher result" where
  "parse_matcher engine v path =
     bind_result (expect_object (Some v) path) (\<lambda>obj.
     bind_result (assert_exact_keys obj (map js [''method'', ''regex'', ''routeIds'']) path) (\<lambda>_.
     bind_result (expect_pattern (member obj ''method'') method_pattern (sub_path path ''method'')) (\<lambda>method.
     bind_result (expect_non_empty_string (member obj ''regex'') (sub_path path ''regex'')) (\<lambda>regex.
     bind_result (if engine regex [] = None
         then fail_at (sub_path path ''regex'') (js ''must be a valid regular expression'') else Inr ()) (\<lambda>_.
     bind_result (expect_non_empty_string_array (member obj ''routeIds'') (sub_path path ''routeIds'')) (\<lambda>routeIds.
       Inr \<lparr>mm_method = method, mm_regex = regex, mm_routeIds = routeIds\<rparr>))))))"

definition parse_bundle :: "regexp_engine \<Rightarrow> url_parser \<Rightarrow> json option \<Rightarrow> policy_bundle result" where
  "parse_bundle engine parse_url v =
     (let path = js ''envelope.bundle'' in
     bind_result (expect_object v path) (\<lambda>obj.
     bind_result (assert_exact_keys obj
         (map js [''schemaVersion'', ''policyName'', ''defaultDecision'', ''matchers'', ''routes'', ''version'']) path) (\<lambda>_.
     bind_result (expect_enum (member obj ''schemaVersion'') [(bundle_schema_version, bundle_schema_version)]
         (sub_path path ''schemaVersion'')) (\<lambda>schemaVersion.
     bind_result (expect_enum (member obj ''defaultDecision'') [(js ''allow'', AllowDecision), (js ''deny'', DenyDecision)]
         (sub_path path ''defaultDecision'')) (\<lambda>defaultDecision.
     bind_result (bind_result (expect_non_empty_array (member obj ''matchers'') (sub_path path ''matchers''))
         (map_result (\<lambda>i m. parse_matcher engine m (at_index (sub_path path ''matchers'') i)) 0)) (\<lambda>matchers.
     bind_result (bind_result (expect_non_empty_array (member obj ''routes'') (sub_path path ''routes''))
         (map_result (\<lambda>i r. parse_route parse_url r (at_index (sub_path path ''routes'') i)) 0)) (\<lambda>routes.
     bind_result (expect_non_empty_string (member obj ''policyName'') (sub_path path ''policyName'')) (\<lambda>policyName.
     bind_result (expect_pattern (member obj ''version'') digest_pattern (sub_path path ''version'')) (\<lambda>version.
       Inr \<lparr>b_schemaVersion = schemaVersion, b_policyName = policyName, b_defaultDecision = defaultDecision,
            b_matchers = matchers, b_routes = routes, b_version = version\<rparr>)))))))))"

definition parse_bundle_envelope :: "regexp_engine \<Rightarrow> url_parser \<Rightarrow> json \<Rightarrow> signed_bundle_envelope result" where
  "parse_bundle_envelope engine parse_url v =
     (let path = js ''envelope'' in
     bind_result (expect_object (Some v) path) (\<lambda>obj.
     bind_result (assert_exact_keys obj (map js [''algorithm'', ''keyId'', ''bundle'', ''signature'']) path) (\<lambda>_.
     bind_result (expect_enum (member obj ''algorithm'') [(signature_algorithm, signature_algorithm)]
         (sub_path path ''algorithm'')) (\<lambda>algorithm.
     bind_result (expect_pattern (member obj ''keyId'') digest_pattern (sub_path path ''keyId'')) (\<lambda>keyId.
     bind_result (expect_pattern (member obj ''signature'') signature_pattern (sub_path path ''signature'')) (\<lambda>signature.
     bind_result (parse_bundle engine parse_url (member obj ''bundle'')) (\<lambda>b.
       Inr \<lparr>e_algorithm = algorithm, e_keyId = keyId, e_bundle = b, e_signature = signature\<rparr>)))))))"

section \<open>Writing a bundle\<close>

text \<open>The JavaScript objects the parser builds, as JSON values with their keys in insertion order.\<close>

definition strings_json :: "ustr list \<Rightarrow> json" where
  "strings_json ss = JArray (map JString ss)"

fun target_text :: "waf_target \<Rightarrow> ustr" where
  "target_text TargetPath = js ''path''"
| "target_text TargetQuery = js ''query''"
| "target_text TargetHeaders = js ''headers''"
| "target_text TargetBody = js ''body''"

fun action_text :: "waf_action \<Rightarrow> ustr" where
  "action_text ActionBlock = js ''block''"
| "action_text ActionLog = js ''log''"

fun limit_key_text :: "rate_limit_key \<Rightarrow> ustr" where
  "limit_key_text KeyClientIp = js ''client-ip''"
| "limit_key_text KeyJwtSub = js ''jwt.sub''"

fun decision_text :: "default_decision \<Rightarrow> ustr" where
  "decision_text AllowDecision = js ''allow''"
| "decision_text DenyDecision = js ''deny''"

definition waf_rule_json :: "waf_rule \<Rightarrow> json" where
  "waf_rule_json r = JObject ([(js ''id'', JString (wr_id r)), (js ''target'', JString (target_text (wr_target r))),
     (js ''pattern'', JString (wr_pattern r)), (js ''action'', JString (action_text (wr_action r)))]
     @ (case wr_flags r of None \<Rightarrow> [] | Some f \<Rightarrow> [(js ''flags'', JString f)]))"

definition rate_limit_json :: "rate_limit_policy \<Rightarrow> json" where
  "rate_limit_json p = JObject [(js ''requests'', JNumber (rlp_requests p)), (js ''window'', JString (rlp_window p)),
     (js ''key'', JString (limit_key_text (rlp_key p)))]"

definition jwt_policy_json :: "jwt_policy \<Rightarrow> json" where
  "jwt_policy_json p = JObject [(js ''required'', JBool True), (js ''issuer'', JString (jp_issuer p)),
     (js ''audience'', strings_json (jp_audience p)), (js ''jwksUrl'', JString (jp_jwksUrl p))]"

definition route_match_json :: "route_match \<Rightarrow> json" where
  "route_match_json m = JObject [(js ''methods'', strings_json (rm_methods m)), (js ''path'', JString (rm_path m))]"

definition route_json :: "compiled_route \<Rightarrow> json" where
  "route_json r = JObject ([(js ''id'', JString (cr_id r)), (js ''match'', route_match_json (cr_match r)),
     (js ''upstream'', JString (cr_upstream r))]
     @ (case cr_jwt r of None \<Rightarrow> [] | Some p \<Rightarrow> [(js ''jwt'', jwt_policy_json p)])
     @ (case cr_rateLimit r of None \<Rightarrow> [] | Some p \<Rightarrow> [(js ''rateLimit'', rate_limit_json p)])
     @ (case cr_waf r of None \<Rightarrow> [] | Some rs \<Rightarrow> [(js ''waf'', JArray (map waf_rule_json rs))]))"

definition matcher_json :: "method_matcher \<Rightarrow> json" where
  "matcher_json m = JObject [(js ''method'', JString (mm_method m)), (js ''regex'', JString (mm_regex m)),
     (js ''routeIds'', strings_json (mm_routeIds m))]"

text \<open>A bundle without its version, which is what the version is the digest of, and the whole.\<close>

definition unversioned_members :: "policy_bundle \<Rightarrow> (ustr \<times> json) list" where
  "unversioned_members b = [(js ''schemaVersion'', JString (b_schemaVersion b)),
     (js ''policyName'', JString (b_policyName b)), (js ''defaultDecision'', JString (decision_text (b_defaultDecision b))),
     (js ''matchers'', JArray (map matcher_json (b_matchers b))), (js ''routes'', JArray (map route_json (b_routes b)))]"

definition bundle_json :: "policy_bundle \<Rightarrow> json" where
  "bundle_json b = JObject (unversioned_members b @ [(js ''version'', JString (b_version b))])"

definition envelope_json :: "signed_bundle_envelope \<Rightarrow> json" where
  "envelope_json e = JObject [(js ''algorithm'', JString (e_algorithm e)), (js ''keyId'', JString (e_keyId e)),
     (js ''bundle'', bundle_json (e_bundle e)), (js ''signature'', JString (e_signature e))]"

section \<open>Well-formed bundles\<close>

definition url_ok :: "url_parser \<Rightarrow> bool \<Rightarrow> ustr \<Rightarrow> bool" where
  "url_ok parse_url requireHttps text \<longleftrightarrow> trim text \<noteq> [] \<and> (case parse_url text of None \<Rightarrow> False
     | Some u \<Rightarrow> u_username u = [] \<and> u_password u = []
         \<and> (if requireHttps then u_protocol u = js ''https:'' else uses_secure_transport u))"

definition strings_ok :: "ustr list \<Rightarrow> bool" where
  "strings_ok ss \<longleftrightarrow> ss \<noteq> [] \<and> (\<forall>s \<in> set ss. trim s \<noteq> [])"

definition waf_rule_ok :: "waf_rule \<Rightarrow> bool" where
  "waf_rule_ok r \<longleftrightarrow> trim (wr_id r) \<noteq> [] \<and> trim (wr_pattern r) \<noteq> [] \<and> (wr_flags r = None \<or> wr_flags r = Some (js ''i''))"

definition rate_limit_ok :: "rate_limit_policy \<Rightarrow> bool" where
  "rate_limit_ok p \<longleftrightarrow> is_safe_integer (rlp_requests p) \<and> \<not> jle (rlp_requests p) (num 0) \<and> trim (rlp_window p) \<noteq> []"

definition jwt_policy_ok :: "url_parser \<Rightarrow> jwt_policy \<Rightarrow> bool" where
  "jwt_policy_ok parse_url p \<longleftrightarrow> url_ok parse_url True (jp_issuer p) \<and> strings_ok (jp_audience p)
     \<and> url_ok parse_url True (jp_jwksUrl p)"

definition route_match_ok :: "route_match \<Rightarrow> bool" where
  "route_match_ok m \<longleftrightarrow> trim (rm_path m) \<noteq> [] \<and> starts_with (js ''/'') (rm_path m) \<and> strings_ok (rm_methods m)
     \<and> (\<forall>x \<in> set (rm_methods m). method_pattern x)"

definition route_ok :: "url_parser \<Rightarrow> compiled_route \<Rightarrow> bool" where
  "route_ok parse_url r \<longleftrightarrow> trim (cr_id r) \<noteq> [] \<and> route_match_ok (cr_match r) \<and> url_ok parse_url False (cr_upstream r)
     \<and> (\<forall>p. cr_jwt r = Some p \<longrightarrow> jwt_policy_ok parse_url p) \<and> (\<forall>p. cr_rateLimit r = Some p \<longrightarrow> rate_limit_ok p)
     \<and> (\<forall>rs. cr_waf r = Some rs \<longrightarrow> (\<forall>x \<in> set rs. waf_rule_ok x))"

definition matcher_ok :: "regexp_engine \<Rightarrow> method_matcher \<Rightarrow> bool" where
  "matcher_ok engine m \<longleftrightarrow> trim (mm_method m) \<noteq> [] \<and> method_pattern (mm_method m) \<and> trim (mm_regex m) \<noteq> []
     \<and> engine (mm_regex m) [] \<noteq> None \<and> strings_ok (mm_routeIds m)"

definition bundle_ok :: "regexp_engine \<Rightarrow> url_parser \<Rightarrow> policy_bundle \<Rightarrow> bool" where
  "bundle_ok engine parse_url b \<longleftrightarrow> b_schemaVersion b = bundle_schema_version \<and> trim (b_policyName b) \<noteq> []
     \<and> b_matchers b \<noteq> [] \<and> (\<forall>m \<in> set (b_matchers b). matcher_ok engine m)
     \<and> b_routes b \<noteq> [] \<and> (\<forall>r \<in> set (b_routes b). route_ok parse_url r)
     \<and> trim (b_version b) \<noteq> [] \<and> digest_pattern (b_version b)"

definition envelope_ok :: "regexp_engine \<Rightarrow> url_parser \<Rightarrow> signed_bundle_envelope \<Rightarrow> bool" where
  "envelope_ok engine parse_url e \<longleftrightarrow> e_algorithm e = signature_algorithm
     \<and> trim (e_keyId e) \<noteq> [] \<and> digest_pattern (e_keyId e) \<and> trim (e_signature e) \<noteq> [] \<and> signature_pattern (e_signature e)
     \<and> bundle_ok engine parse_url (e_bundle e)"

section \<open>When a parser succeeds\<close>

lemma expect_object_Inr [parser_simps]: "expect_object v path = Inr obj \<longleftrightarrow> v = Some (JObject obj)"
  by (cases "(v, path)" rule: expect_object.cases) (auto simp: fail_at_def)

lemma expect_array_Inr [parser_simps]: "expect_array v path = Inr vs \<longleftrightarrow> v = Some (JArray vs)"
  by (cases "(v, path)" rule: expect_array.cases) (auto simp: fail_at_def)

lemma expect_non_empty_array_Inr [parser_simps]:
  "expect_non_empty_array v path = Inr vs \<longleftrightarrow> v = Some (JArray vs) \<and> vs \<noteq> []"
  by (auto simp: expect_non_empty_array_def bind_result_Inr expect_array_Inr fail_at_def)

lemma expect_non_empty_string_Inr [parser_simps]:
  "expect_non_empty_string v path = Inr s \<longleftrightarrow> v = Some (JString s) \<and> trim s \<noteq> []"
  by (cases "(v, path)" rule: expect_non_empty_string.cases) (auto simp: fail_at_def)

lemma expect_positive_integer_Inr [parser_simps]:
  "expect_positive_integer v path = Inr n \<longleftrightarrow> v = Some (JNumber n) \<and> is_safe_integer n \<and> \<not> jle n (num 0)"
  by (cases "(v, path)" rule: expect_positive_integer.cases) (auto simp: fail_at_def)

lemma expect_pattern_Inr [parser_simps]:
  "expect_pattern v pattern path = Inr s \<longleftrightarrow> v = Some (JString s) \<and> trim s \<noteq> [] \<and> pattern s"
  by (auto simp: expect_pattern_def bind_result_Inr expect_non_empty_string_Inr fail_at_def)

lemma expect_enum_Inr:
  "expect_enum v allowed path = Inr x \<longleftrightarrow> (\<exists>s. v = Some (JString s) \<and> map_of allowed s = Some x)"
proof (cases "\<exists>s. v = Some (JString s)")
  case True
  then obtain s where "v = Some (JString s)" by blast
  then show ?thesis by (cases "map_of allowed s") (simp_all add: fail_at_def)
next
  case False
  then have "\<exists>m. expect_enum v allowed path = fail_at path m"
    by (cases "(v, allowed, path)" rule: expect_enum.cases) auto
  with False show ?thesis by (auto simp: fail_at_def)
qed

lemma fail_else_Inr [parser_simps]: "(if c then fail_at path message else r) = Inr w \<longleftrightarrow> \<not> c \<and> r = Inr w"
  by (simp add: fail_at_def)

lemma expect_http_url_Inr [parser_simps]:
  "expect_http_url parse_url v path https = Inr s \<longleftrightarrow> v = Some (JString s) \<and> url_ok parse_url https s"
proof -
  have secure: "u_protocol u \<noteq> js ''http:'' \<and> u_protocol u \<noteq> js ''https:'' \<Longrightarrow> \<not> uses_secure_transport u" for u
    by (simp add: uses_secure_transport_def)
  have "(case parse_url t of
         None \<Rightarrow> fail_at path (js ''must be a valid URL'')
       | Some u \<Rightarrow>
           if u_protocol u \<noteq> js ''http:'' \<and> u_protocol u \<noteq> js ''https:''
           then fail_at path (js ''must use HTTP or HTTPS'')
           else if u_username u \<noteq> [] \<or> u_password u \<noteq> []
           then fail_at path (js ''must not contain embedded credentials'')
           else if https \<and> u_protocol u \<noteq> js ''https:''
           then fail_at path (js ''must use HTTPS'')
           else if \<not> https \<and> \<not> uses_secure_transport u
           then fail_at path (js ''must use HTTPS unless it targets loopback'')
           else Inr t) = Inr s \<longleftrightarrow> t = s \<and> (trim t \<noteq> [] \<longrightarrow> url_ok parse_url https t)" if "trim t \<noteq> []" for t
  proof (cases "parse_url t")
    case None
    then show ?thesis using that by (simp add: url_ok_def fail_at_def)
  next
    case (Some u)
    then show ?thesis
      using secure [of u] that by (cases https) (auto simp: url_ok_def fail_else_Inr)
  qed
  then show ?thesis
    by (auto simp: expect_http_url_def bind_result_Inr expect_non_empty_string_Inr) (auto simp: url_ok_def)
qed

lemma assert_exact_keys_Inr [parser_simps]:
  "assert_exact_keys obj allowed path = Inr u \<longleftrightarrow> fst ` set obj \<subseteq> set allowed"
  by (induction obj allowed path rule: assert_exact_keys.induct) (auto simp: fail_at_def)

lemma map_sum_Inr [parser_simps]: "map_sum f g r = Inr y \<longleftrightarrow> (\<exists>x. r = Inr x \<and> y = g x)"
  by (cases r) auto

text \<open>A list is parsed when each element is, and by its parser.\<close>

lemma map_result_exact:
  assumes "\<And>i x y. f i x = Inr y \<longleftrightarrow> ok y \<and> R x (g y)"
  shows "map_result f k xs = Inr ys \<longleftrightarrow> (\<forall>y \<in> set ys. ok y) \<and> list_all2 R xs (map g ys)"
proof (induction xs arbitrary: k ys)
  case (Cons x xs)
  show ?case
  proof (cases ys)
    case Nil
    then show ?thesis by (auto split: sum.split)
  next
    case ys: (Cons y zs)
    from Cons.IH [of "Suc k" zs] assms [of k x y] show ?thesis
      by (auto simp: ys split: sum.split)
  qed
qed auto

lemma string_array_Inr [parser_simps]:
  "expect_non_empty_string_array v path = Inr ss \<longleftrightarrow> v = Some (strings_json ss) \<and> strings_ok ss"
proof
  assume "expect_non_empty_string_array v path = Inr ss"
  then obtain vs where vs: "v = Some (JArray vs)" "vs \<noteq> []"
    and m: "map_result (\<lambda>i item. expect_non_empty_string (Some item) (at_index path i)) 0 vs = Inr ss"
    by (auto simp: expect_non_empty_string_array_def bind_result_Inr parser_simps)
  have "length ss = length vs" by (rule map_result_length [OF m])
  moreover have "vs ! k = JString (ss ! k) \<and> trim (ss ! k) \<noteq> []" if "k < length vs" for k
    using map_result_nth [OF m that] by (simp add: parser_simps)
  ultimately have "vs = map JString ss" "\<forall>s \<in> set ss. trim s \<noteq> []"
    by (auto intro!: nth_equalityI simp: in_set_conv_nth)
  with vs show "v = Some (strings_json ss) \<and> strings_ok ss" by (auto simp: strings_json_def strings_ok_def)
next
  assume "v = Some (strings_json ss) \<and> strings_ok ss"
  then show "expect_non_empty_string_array v path = Inr ss"
    using map_result_exact [of "\<lambda>i item. expect_non_empty_string (Some item) (at_index path i)" "\<lambda>s. trim s \<noteq> []" "(=)" JString]
    by (auto simp: expect_non_empty_string_array_def bind_result_Inr parser_simps strings_json_def strings_ok_def
        list.rel_eq)
qed

section \<open>The same value\<close>

text \<open>
  Two values are the same where the members of objects are compared by name: what a reader of the
  members of an object can tell apart. The order of members and what a first member of the same name
  hides do not count; nothing else is forgiven, in particular no other member.
\<close>

inductive same_json :: "json \<Rightarrow> json \<Rightarrow> bool" where
  same_value: "same_json v v"
| same_array: "list_all2 same_json vs ws \<Longrightarrow> same_json (JArray vs) (JArray ws)"
| same_object: "(\<And>key. rel_option same_json (map_of obj key) (map_of obj' key)) \<Longrightarrow> same_json (JObject obj) (JObject obj')"

inductive_simps same_string [parser_simps]: "same_json v (JString s)"
inductive_simps same_number [parser_simps]: "same_json v (JNumber n)"
inductive_simps same_bool [parser_simps]: "same_json v (JBool b)"
inductive_simps same_array_cases: "same_json v (JArray ws)"
inductive_simps same_object_cases: "same_json v (JObject obj)"

lemma same_array_iff [parser_simps]: "same_json v (JArray ws) \<longleftrightarrow> (\<exists>vs. v = JArray vs \<and> list_all2 same_json vs ws)"
  unfolding same_array_cases by (auto simp: same_value list.rel_refl)

lemma same_object_iff: "same_json v (JObject obj')
     \<longleftrightarrow> (\<exists>obj. v = JObject obj \<and> (\<forall>key. rel_option same_json (map_of obj key) (map_of obj' key)))"
  unfolding same_object_cases by (auto simp: same_value option.rel_refl)

lemma rel_option_simps [parser_simps]:
  "rel_option R v None \<longleftrightarrow> v = None" "rel_option R v (Some y) \<longleftrightarrow> (\<exists>x. v = Some x \<and> R x y)"
  by (cases v; simp)+

text \<open>An object given by its names, each with the value it has or none.\<close>

definition present :: "(string \<times> json option) list \<Rightarrow> (ustr \<times> json) list" where
  "present ms = concat (map (\<lambda>(key, v). case v of None \<Rightarrow> [] | Some x \<Rightarrow> [(js key, x)]) ms)"

lemma present_simps:
  "present [] = []"
  "present ((key, v) # ms) = (case v of None \<Rightarrow> present ms | Some x \<Rightarrow> (js key, x) # present ms)"
  by (auto simp: present_def split: option.split)

lemma map_of_present_None: "name \<notin> js ` fst ` set ms \<Longrightarrow> map_of (present ms) name = None"
  by (induction ms) (auto simp: present_simps split: option.split)

lemma map_of_present: "distinct (map fst ms) \<Longrightarrow> (key, v) \<in> set ms \<Longrightarrow> map_of (present ms) (js key) = v"
proof (induction ms)
  case (Cons m ms)
  then have "js key \<notin> js ` fst ` set ms" if "fst m = key" using that by (auto simp: image_iff)
  with Cons map_of_present_None [of "js key" ms] show ?case
    by (cases m) (force simp: present_simps split: option.split)
qed simp

lemma same_present:
  assumes "distinct (map fst ms)"
  shows "same_json v (JObject (present ms)) \<longleftrightarrow>
     (\<exists>obj. v = JObject obj \<and> fst ` set obj \<subseteq> js ` fst ` set ms
        \<and> (\<forall>(key, w) \<in> set ms. rel_option same_json (member obj key) w))"
proof -
  have "(\<forall>name. rel_option same_json (map_of obj name) (map_of (present ms) name)) \<longleftrightarrow>
      fst ` set obj \<subseteq> js ` fst ` set ms \<and> (\<forall>(key, w) \<in> set ms. rel_option same_json (member obj key) w)" for obj
  proof (intro iffI conjI allI)
    assume all: "\<forall>name. rel_option same_json (map_of obj name) (map_of (present ms) name)"
    show "fst ` set obj \<subseteq> js ` fst ` set ms"
    proof
      fix name assume "name \<in> fst ` set obj"
      then have "map_of obj name \<noteq> None" by (simp add: map_of_eq_None_iff)
      with all [rule_format, of name] have "map_of (present ms) name \<noteq> None" by (auto simp: option_rel_Some1)
      with map_of_present_None [of name ms] show "name \<in> js ` fst ` set ms" by blast
    qed
    show "\<forall>(key, w) \<in> set ms. rel_option same_json (member obj key) w"
      using all map_of_present [OF assms] by (auto simp: member_def)
  next
    fix name
    assume r: "fst ` set obj \<subseteq> js ` fst ` set ms \<and> (\<forall>(key, w) \<in> set ms. rel_option same_json (member obj key) w)"
    show "rel_option same_json (map_of obj name) (map_of (present ms) name)"
    proof (cases "name \<in> js ` fst ` set ms")
      case True
      then obtain key w where k: "(key, w) \<in> set ms" "name = js key" by auto
      with r map_of_present [OF assms k(1)] show ?thesis by (auto simp: member_def)
    next
      case False
      with r have "map_of obj name = None" by (auto simp: map_of_eq_None_iff)
      with False show ?thesis by (simp add: map_of_present_None)
    qed
  qed
  then show ?thesis by (simp add: same_object_iff)
qed

section \<open>What is parsed, and as what\<close>

text \<open>
  For each part: it is parsed as \<open>x\<close> exactly when \<open>x\<close> is well formed and the value is the one \<open>x\<close> is
  written as. The lists of names are those of the writers.
\<close>

named_theorems written_members \<open>the objects the writers build, by name\<close>

lemma written [written_members]:
  "waf_rule_json r = JObject (present [(''id'', Some (JString (wr_id r))), (''target'', Some (JString (target_text (wr_target r)))),
     (''pattern'', Some (JString (wr_pattern r))), (''action'', Some (JString (action_text (wr_action r)))),
     (''flags'', map_option JString (wr_flags r))])"
  "rate_limit_json p = JObject (present [(''requests'', Some (JNumber (rlp_requests p))),
     (''window'', Some (JString (rlp_window p))), (''key'', Some (JString (limit_key_text (rlp_key p))))])"
  "jwt_policy_json j = JObject (present [(''required'', Some (JBool True)), (''issuer'', Some (JString (jp_issuer j))),
     (''audience'', Some (strings_json (jp_audience j))), (''jwksUrl'', Some (JString (jp_jwksUrl j)))])"
  "route_match_json m = JObject (present [(''methods'', Some (strings_json (rm_methods m))),
     (''path'', Some (JString (rm_path m)))])"
  "route_json route = JObject (present [(''id'', Some (JString (cr_id route))),
     (''match'', Some (route_match_json (cr_match route))), (''upstream'', Some (JString (cr_upstream route))),
     (''jwt'', map_option jwt_policy_json (cr_jwt route)), (''rateLimit'', map_option rate_limit_json (cr_rateLimit route)),
     (''waf'', map_option (\<lambda>rs. JArray (map waf_rule_json rs)) (cr_waf route))])"
  "matcher_json mm = JObject (present [(''method'', Some (JString (mm_method mm))),
     (''regex'', Some (JString (mm_regex mm))), (''routeIds'', Some (strings_json (mm_routeIds mm)))])"
  "bundle_json b = JObject (present [(''schemaVersion'', Some (JString (b_schemaVersion b))),
     (''policyName'', Some (JString (b_policyName b))),
     (''defaultDecision'', Some (JString (decision_text (b_defaultDecision b)))),
     (''matchers'', Some (JArray (map matcher_json (b_matchers b)))), (''routes'', Some (JArray (map route_json (b_routes b)))),
     (''version'', Some (JString (b_version b)))])"
  "envelope_json e = JObject (present [(''algorithm'', Some (JString (e_algorithm e))), (''keyId'', Some (JString (e_keyId e))),
     (''bundle'', Some (bundle_json (e_bundle e))), (''signature'', Some (JString (e_signature e)))])"
  by (auto simp: waf_rule_json_def rate_limit_json_def jwt_policy_json_def route_match_json_def route_json_def
      matcher_json_def bundle_json_def unversioned_members_def envelope_json_def present_simps split: option.split)

lemma same_strings [parser_simps]: "same_json v (strings_json ss) \<longleftrightarrow> v = strings_json ss"
proof -
  have "list_all2 same_json vs (map JString ss) \<longleftrightarrow> vs = map JString ss" for vs
    by (induction ss arbitrary: vs) (auto simp: list_all2_Cons2 parser_simps)
  then show ?thesis by (auto simp: strings_json_def parser_simps)
qed

lemma parse_optional_Inr:
  "parse_optional v r = Inr y \<longleftrightarrow> (v = None \<and> y = None) \<or> (\<exists>x. v \<noteq> None \<and> r = Inr x \<and> y = Some x)"
  by (auto simp: parse_optional_def map_sum_Inr)

lemma enum_exact:
  assumes "\<And>s. map_of allowed s = Some x \<longleftrightarrow> s = t"
  shows "expect_enum v allowed path = Inr x \<longleftrightarrow> v = Some (JString t)"
  using assms by (auto simp: expect_enum_Inr)

lemma enums_exact [parser_simps]:
  "expect_enum v [(js ''path'', TargetPath), (js ''query'', TargetQuery), (js ''headers'', TargetHeaders), (js ''body'', TargetBody)] path
     = Inr t \<longleftrightarrow> v = Some (JString (target_text t))"
  "expect_enum v [(js ''block'', ActionBlock), (js ''log'', ActionLog)] path = Inr a \<longleftrightarrow> v = Some (JString (action_text a))"
  "expect_enum v [(js ''client-ip'', KeyClientIp), (js ''jwt.sub'', KeyJwtSub)] path = Inr k
     \<longleftrightarrow> v = Some (JString (limit_key_text k))"
  "expect_enum v [(js ''allow'', AllowDecision), (js ''deny'', DenyDecision)] path = Inr d
     \<longleftrightarrow> v = Some (JString (decision_text d))"
  "expect_enum v [(c, c)] path = Inr x \<longleftrightarrow> v = Some (JString c) \<and> x = c"
proof -
  show "expect_enum v [(js ''path'', TargetPath), (js ''query'', TargetQuery), (js ''headers'', TargetHeaders), (js ''body'', TargetBody)] path
     = Inr t \<longleftrightarrow> v = Some (JString (target_text t))" by (rule enum_exact) (cases t; simp)
  show "expect_enum v [(js ''block'', ActionBlock), (js ''log'', ActionLog)] path = Inr a
     \<longleftrightarrow> v = Some (JString (action_text a))" by (rule enum_exact) (cases a; simp)
  show "expect_enum v [(js ''client-ip'', KeyClientIp), (js ''jwt.sub'', KeyJwtSub)] path = Inr k
     \<longleftrightarrow> v = Some (JString (limit_key_text k))" by (rule enum_exact) (cases k; simp)
  show "expect_enum v [(js ''allow'', AllowDecision), (js ''deny'', DenyDecision)] path = Inr d
     \<longleftrightarrow> v = Some (JString (decision_text d))" by (rule enum_exact) (cases d; simp)
  show "expect_enum v [(c, c)] path = Inr x \<longleftrightarrow> v = Some (JString c) \<and> x = c" by (auto simp: expect_enum_Inr)
qed

lemma waf_rule_exact: "parse_waf_rule v path = Inr r \<longleftrightarrow> waf_rule_ok r \<and> same_json v (waf_rule_json r)"
  unfolding written_members
  by (cases r; cases "wr_flags r")
    (auto simp: parse_waf_rule_def bind_result_Inr parser_simps parse_optional_Inr waf_rule_ok_def same_present)

lemma rate_limit_exact:
  "parse_rate_limit v path = Inr p \<longleftrightarrow> rate_limit_ok p \<and> (\<exists>w. v = Some w \<and> same_json w (rate_limit_json p))"
  unfolding written_members
  by (cases p) (auto simp: parse_rate_limit_def bind_result_Inr parser_simps rate_limit_ok_def same_present)

lemma jwt_policy_exact:
  "parse_jwt_policy parse_url v path = Inr p
     \<longleftrightarrow> jwt_policy_ok parse_url p \<and> (\<exists>w. v = Some w \<and> same_json w (jwt_policy_json p))"
  unfolding written_members
  by (cases p) (auto simp: parse_jwt_policy_def bind_result_Inr parser_simps jwt_policy_ok_def same_present)

lemma methods_exact [parser_simps]:
  "(\<exists>us. map_result (\<lambda>i m. if \<not> P m then fail_at (q i) msg else Inr ()) k ms = Inr us) \<longleftrightarrow> (\<forall>m \<in> set ms. P m)"
proof (induction ms arbitrary: k)
  case (Cons m ms)
  from Cons.IH [of "Suc k"] show ?case by (auto simp: fail_at_def split: sum.split)
qed simp

lemma route_match_exact:
  "parse_route_match v path = Inr m \<longleftrightarrow> route_match_ok m \<and> (\<exists>w. v = Some w \<and> same_json w (route_match_json m))"
  unfolding written_members
  by (cases m) (auto simp: parse_route_match_def bind_result_Inr parser_simps route_match_ok_def same_present)

lemma matcher_exact: "parse_matcher engine v path = Inr m \<longleftrightarrow> matcher_ok engine m \<and> same_json v (matcher_json m)"
  unfolding written_members
  by (cases m) (auto simp: parse_matcher_def bind_result_Inr parser_simps matcher_ok_def same_present)

lemma waf_rules_exact [parser_simps]:
  "map_result (\<lambda>k rule. parse_waf_rule rule (q k)) 0 vs = Inr rs
     \<longleftrightarrow> (\<forall>r \<in> set rs. waf_rule_ok r) \<and> list_all2 same_json vs (map waf_rule_json rs)"
  by (rule map_result_exact) (rule waf_rule_exact)

lemma matchers_exact [parser_simps]:
  "map_result (\<lambda>i m. parse_matcher engine m (q i)) 0 vs = Inr ms
     \<longleftrightarrow> (\<forall>m \<in> set ms. matcher_ok engine m) \<and> list_all2 same_json vs (map matcher_json ms)"
  by (rule map_result_exact) (rule matcher_exact)

lemma route_exact: "parse_route parse_url v path = Inr r \<longleftrightarrow> route_ok parse_url r \<and> same_json v (route_json r)"
  unfolding written(5)
  by (cases r; cases "cr_jwt r"; cases "cr_rateLimit r"; cases "cr_waf r")
    (auto simp: parse_route_def bind_result_Inr parser_simps parse_optional_Inr route_ok_def same_present
      route_match_exact jwt_policy_exact rate_limit_exact)

lemma routes_exact [parser_simps]:
  "map_result (\<lambda>i r. parse_route parse_url r (q i)) 0 vs = Inr rs
     \<longleftrightarrow> (\<forall>r \<in> set rs. route_ok parse_url r) \<and> list_all2 same_json vs (map route_json rs)"
  by (rule map_result_exact) (rule route_exact)

lemma bundle_exact:
  "parse_bundle engine parse_url v = Inr b
     \<longleftrightarrow> bundle_ok engine parse_url b \<and> (\<exists>w. v = Some w \<and> same_json w (bundle_json b))"
  unfolding written(7)
  by (cases b) (auto simp: parse_bundle_def Let_def bind_result_Inr parser_simps bundle_ok_def same_present)

lemma envelope_exact:
  "parse_bundle_envelope engine parse_url v = Inr e \<longleftrightarrow> envelope_ok engine parse_url e \<and> same_json v (envelope_json e)"
  unfolding written(8)
  by (cases e) (auto simp: parse_bundle_envelope_def Let_def bind_result_Inr parser_simps envelope_ok_def same_present bundle_exact)

lemma envelope_read: "parse_bundle_envelope engine parse_url v = Inr e \<Longrightarrow> envelope_ok engine parse_url e"
  by (simp add: envelope_exact)

lemma envelope_write:
  "envelope_ok engine parse_url e \<Longrightarrow> parse_bundle_envelope engine parse_url (envelope_json e) = Inr e"
  by (simp add: envelope_exact same_value)

section \<open>Property\<close>

text \<open>C15: Parser exactness. A value is parsed as an envelope exactly when the envelope is well formed (allowed
  algorithm, digests, signature form, non-empty parts, transport rules on every URL, only supported
  values) and the value is the one the envelope is written as: the same names with the same values at
  every level, and no other. So every well-formed envelope is read back unchanged, nothing else is
  accepted, and nothing is read from a value that is not in it.\<close>

theorem bundle_parser_exact:
  "parse_bundle_envelope engine parse_url v = Inr e \<longleftrightarrow> envelope_ok engine parse_url e \<and> same_json v (envelope_json e)"
  by (rule envelope_exact)

section \<open>Errors\<close>

named_theorems fails_validly_intros \<open>parsers whose only error is a validation error\<close>

definition fails_validly :: "'a result \<Rightarrow> bool" where
  "fails_validly r \<longleftrightarrow> (\<forall>e. r = Inl e \<longrightarrow> (\<exists>m. e = BundleValidationError m))"

lemma fails_validly_basic [fails_validly_intros]:
  "fails_validly (Inr x)" "fails_validly (fail_at path message)"
  by (simp_all add: fails_validly_def fail_at_def)

lemma fails_validly_if [fails_validly_intros]:
  "fails_validly a \<Longrightarrow> fails_validly b \<Longrightarrow> fails_validly (if c then a else b)"
  by simp

lemma fails_validly_bind [fails_validly_intros]:
  "fails_validly r \<Longrightarrow> (\<And>x. fails_validly (f x)) \<Longrightarrow> fails_validly (bind_result r f)"
  by (cases r) (auto simp: fails_validly_def)

lemma fails_validly_optional [fails_validly_intros]: "fails_validly r \<Longrightarrow> fails_validly (parse_optional v r)"
  by (cases r) (auto simp: fails_validly_def parse_optional_def)

lemmas fails_validly_rules = fails_validly_basic fails_validly_if

lemma fails_validly_map [fails_validly_intros]:
  "(\<And>i x. fails_validly (f i x)) \<Longrightarrow> fails_validly (map_result f k xs)"
proof (induction xs arbitrary: k)
  case (Cons x xs)
  have IH: "fails_validly (map_result f (Suc k) xs)" by (rule Cons.IH [OF Cons.prems])
  with Cons.prems [of k x] show ?case
    by (cases "f k x"; cases "map_result f (Suc k) xs") (auto simp: fails_validly_def)
qed (simp add: fails_validly_def)

lemma fails_validly_expect [fails_validly_intros]:
  "fails_validly (expect_object v path)"
  "fails_validly (expect_array v path)"
  "fails_validly (expect_non_empty_string v path)"
  "fails_validly (expect_positive_integer v path)"
  "fails_validly (assert_exact_keys obj allowed path)"
proof -
  show "fails_validly (expect_object v path)"
    by (cases "(v, path)" rule: expect_object.cases) (simp_all add: fails_validly_rules)
  show "fails_validly (expect_array v path)"
    by (cases "(v, path)" rule: expect_array.cases) (simp_all add: fails_validly_rules)
  show "fails_validly (expect_non_empty_string v path)"
    by (cases "(v, path)" rule: expect_non_empty_string.cases) (simp_all add: fails_validly_rules)
  show "fails_validly (expect_positive_integer v path)"
    by (cases "(v, path)" rule: expect_positive_integer.cases) (simp_all add: fails_validly_rules)
  show "fails_validly (assert_exact_keys obj allowed path)"
    by (induction obj allowed path rule: assert_exact_keys.induct) (auto intro: fails_validly_rules)
qed

lemma fails_validly_enum [fails_validly_intros]: "fails_validly (expect_enum v allowed path)"
  by (cases "(v, allowed, path)" rule: expect_enum.cases)
    (auto simp: fails_validly_rules(1,2) split: option.split)

lemma fails_validly_composed [fails_validly_intros]:
  "fails_validly (expect_non_empty_array v path)"
  "fails_validly (expect_non_empty_string_array v path)"
  "fails_validly (expect_pattern v pattern path)"
  unfolding expect_non_empty_array_def expect_non_empty_string_array_def expect_pattern_def
  by (intro fails_validly_intros)+

lemma fails_validly_url [fails_validly_intros]: "fails_validly (expect_http_url parse_url v path https)"
  unfolding expect_http_url_def
proof (intro fails_validly_intros)
  fix t
  show "fails_validly (case parse_url t of
         None \<Rightarrow> fail_at path (js ''must be a valid URL'')
       | Some u \<Rightarrow>
           if u_protocol u \<noteq> js ''http:'' \<and> u_protocol u \<noteq> js ''https:''
           then fail_at path (js ''must use HTTP or HTTPS'')
           else if u_username u \<noteq> [] \<or> u_password u \<noteq> []
           then fail_at path (js ''must not contain embedded credentials'')
           else if https \<and> u_protocol u \<noteq> js ''https:''
           then fail_at path (js ''must use HTTPS'')
           else if \<not> https \<and> \<not> uses_secure_transport u
           then fail_at path (js ''must use HTTPS unless it targets loopback'')
           else Inr t)"
    by (cases "parse_url t") (simp_all only: option.case fails_validly_rules if_cancel)
qed

lemma fails_validly_parts [fails_validly_intros]:
  "fails_validly (parse_waf_rule j path)"
  "fails_validly (parse_rate_limit v path)"
  "fails_validly (parse_jwt_policy parse_url v path)"
  "fails_validly (parse_route_match v path)"
  "fails_validly (parse_matcher engine j path)"
  unfolding parse_waf_rule_def parse_rate_limit_def parse_jwt_policy_def parse_route_match_def parse_matcher_def
  by (intro fails_validly_intros)+

lemma fails_validly_route [fails_validly_intros]: "fails_validly (parse_route parse_url j path)"
  unfolding parse_route_def by (intro fails_validly_intros)+

lemma fails_validly_bundle [fails_validly_intros]: "fails_validly (parse_bundle engine parse_url v)"
  unfolding parse_bundle_def Let_def by (intro fails_validly_intros)+

lemma fails_validly_envelope: "fails_validly (parse_bundle_envelope engine parse_url v)"
  unfolding parse_bundle_envelope_def Let_def by (intro fails_validly_intros)+

text \<open>Errors of the parser. Whatever value is parsed, the outcome is an envelope, read from an object
  with no other keys than an envelope's four, or a \<open>BundleValidationError\<close>.\<close>

theorem bundle_parser_errors:
  "(case parse_bundle_envelope engine parse_url v of
      Inl err \<Rightarrow> (\<exists>m. err = BundleValidationError m)
    | Inr e \<Rightarrow> (\<exists>obj. v = JObject obj \<and> fst ` set obj \<subseteq> set (map js [''algorithm'', ''keyId'', ''bundle'', ''signature''])))"
proof (cases "parse_bundle_envelope engine parse_url v")
  case (Inl err)
  with fails_validly_envelope [of engine parse_url v] show ?thesis by (simp add: fails_validly_def)
next
  case (Inr e)
  then obtain obj where "v = JObject obj"
    "fst ` set obj \<subseteq> set (map js [''algorithm'', ''keyId'', ''bundle'', ''signature''])"
    unfolding parse_bundle_envelope_def Let_def bind_result_Inr expect_object_Inr assert_exact_keys_Inr by blast
  with Inr show ?thesis by auto
qed

end
