(* ===== verification/Verify.thy ===== *)
theory Verify imports Bundle Bytes begin

text \<open>
  Verification of a signed bundle (\<open>edge/src/verify.ts\<close>) and the trusted keys
  (\<open>edge/src/trusted-keys.ts\<close>). The cryptographic primitives of the host, and the third-party
  \<open>canonicalize\<close>, are arguments, gathered in a record: keys are imported and exported, messages
  digested and signatures checked, each possibly failing.
\<close>

section \<open>Primitives\<close>

record 'k crypto =
  import_spki :: "8 word list \<Rightarrow> 'k option"
  export_raw :: "'k \<Rightarrow> 8 word list option"
  sha256 :: "8 word list \<Rightarrow> 8 word list"
  ed25519_verify :: "'k \<Rightarrow> 8 word list \<Rightarrow> 8 word list \<Rightarrow> bool option"
  canonicalize :: "json \<Rightarrow> ustr option"

type_synonym trusted_keyring = "ustr js_map"

definition ed25519_signature_bytes :: nat where "ed25519_signature_bytes = 64"

section \<open>Keys\<close>

definition pem_header :: ustr where "pem_header = js ''-----BEGIN PUBLIC KEY-----''"
definition pem_footer :: ustr where "pem_footer = js ''-----END PUBLIC KEY-----''"

definition pem_char :: "nat \<Rightarrow> bool" where
  "pem_char c \<longleftrightarrow> is_upper c \<or> is_lower c \<or> is_digit c \<or> c = 43 \<or> c = 47 \<or> c = 61 \<or> is_space c"

text \<open>
  The pattern of \<open>decodePublicKeyPem\<close>: its group is a non-empty run of the class between the two
  lines, with blanks around it given to the neighbours; blanks are removed from it afterwards, so
  the run and the group give the same text.
\<close>

definition pem_group :: "ustr \<Rightarrow> ustr option" where
  "pem_group s =
     (let middle = drop (length pem_header) (take (length s - length pem_footer) s) in
      if length pem_header + length pem_footer \<le> length s \<and> starts_with pem_header s \<and> ends_with pem_footer s
         \<and> middle \<noteq> [] \<and> list_all pem_char middle
      then Some middle else None)"

definition decode_public_key_pem :: "ustr \<Rightarrow> 8 word list result" where
  "decode_public_key_pem pem =
     (case pem_group (trim pem) of
        None \<Rightarrow> Inl (BundleVerificationError (js ''trusted public key must use PUBLIC KEY PEM format''))
      | Some g \<Rightarrow> decode_base64 (filter (\<lambda>c. \<not> is_space c) g))"

definition digest_text :: "'k crypto \<Rightarrow> 8 word list \<Rightarrow> ustr" where
  "digest_text c bytes = js ''sha256:'' @ bytes_to_hex (sha256 c bytes)"

definition import_trusted_public_key :: "'k crypto \<Rightarrow> ustr \<Rightarrow> ustr \<Rightarrow> 'k result" where
  "import_trusted_public_key c pem expectedKeyId =
     bind_result (decode_public_key_pem pem) (\<lambda>spki.
       case import_spki c spki of
         None \<Rightarrow> Inl (BundleVerificationError (js ''trusted public key is not a valid Ed25519 SPKI key''))
       | Some publicKey \<Rightarrow>
           (case export_raw c publicKey of
              None \<Rightarrow> Inl (BundleVerificationError (js ''trusted Ed25519 public key could not be exported''))
            | Some rawPublicKey \<Rightarrow>
                if \<not> constant_time_equal (digest_text c rawPublicKey) expectedKeyId
                then Inl (BundleVerificationError (js ''trusted public key does not match the envelope key ID''))
                else Inr publicKey))"

section \<open>The bundle\<close>

definition canonical_bytes :: "'k crypto \<Rightarrow> json \<Rightarrow> 8 word list result" where
  "canonical_bytes c v =
     (case canonicalize c v of
        None \<Rightarrow> Inl (BundleVerificationError (js ''bundle could not be canonicalized''))
      | Some serialized \<Rightarrow> Inr (utf8_encode serialized))"

definition verify_bundle_version :: "'k crypto \<Rightarrow> policy_bundle \<Rightarrow> unit result" where
  "verify_bundle_version c b =
     bind_result (canonical_bytes c (JObject (unversioned_members b))) (\<lambda>canonicalBundle.
       if \<not> constant_time_equal (b_version b) (digest_text c canonicalBundle)
       then Inl (BundleVerificationError (js ''bundle version does not match its content''))
       else Inr ())"

definition verify_bundle_envelope ::
  "regexp_engine \<Rightarrow> url_parser \<Rightarrow> 'k crypto \<Rightarrow> trusted_keyring \<Rightarrow> json \<Rightarrow> signed_bundle_envelope result" where
  "verify_bundle_envelope engine parse_url c trustedKeys v =
     bind_result (parse_bundle_envelope engine parse_url v) (\<lambda>envelope.
       case map_of trustedKeys (e_keyId envelope) of
         None \<Rightarrow> Inl (BundleVerificationError (js ''unknown signing key '' @ e_keyId envelope))
       | Some publicKeyPem \<Rightarrow>
           bind_result (import_trusted_public_key c publicKeyPem (e_keyId envelope)) (\<lambda>publicKey.
           bind_result (decode_base64url (e_signature envelope)) (\<lambda>signature.
             if length signature \<noteq> ed25519_signature_bytes
             then Inl (BundleVerificationError
                    (js ''signature must contain '' @ dec ed25519_signature_bytes @ js '' bytes''))
             else
               bind_result (canonical_bytes c (bundle_json (e_bundle envelope))) (\<lambda>canonicalBundle.
                 case ed25519_verify c publicKey signature canonicalBundle of
                   None \<Rightarrow> Inl (BundleVerificationError
                     (js ''Ed25519 signature verification could not be completed''))
                 | Some signatureValid \<Rightarrow>
                     if \<not> signatureValid
                     then Inl (BundleVerificationError (js ''bundle signature verification failed''))
                     else bind_result (verify_bundle_version c (e_bundle envelope)) (\<lambda>_. Inr envelope)))))"

section \<open>Trusted keys\<close>

text \<open>
  \<open>node:crypto\<close> as the key ring uses it: \<open>createPublicKey\<close> gives the key type and the \<open>x\<close> of the
  exported JWK, or throws.
\<close>

type_synonym create_public_key = "ustr \<Rightarrow> (ustr \<times> ustr option) option"

definition ed25519_public_key_bytes :: nat where "ed25519_public_key_bytes = 32"

text \<open>\<open>Buffer.from(text, 'base64url')\<close>: both alphabets, other characters skipped, up to padding.\<close>

definition buffer_from_base64url :: "ustr \<Rightarrow> 8 word list" where
  "buffer_from_base64url s =
     join_sextets (map (the \<circ> sextet) (filter (\<lambda>c. sextet c \<noteq> None)
       (map (\<lambda>c. if c = 45 then 43 else if c = 95 then 47 else c) (takeWhile (\<lambda>c. c \<noteq> 61) s))))"

definition public_key_block :: "ustr \<Rightarrow> bool" where
  "public_key_block s \<longleftrightarrow> length pem_header + length pem_footer < length s
     \<and> starts_with pem_header s \<and> ends_with pem_footer s"

definition calculate_public_key_id :: "'k crypto \<Rightarrow> create_public_key \<Rightarrow> ustr \<Rightarrow> ustr result" where
  "calculate_public_key_id c create publicKeyPem =
     (if \<not> public_key_block (trim publicKeyPem)
      then Inl (TrustedKeyError (js ''trusted key must contain one PUBLIC KEY PEM block''))
      else (case create publicKeyPem of
          None \<Rightarrow> Inl (TrustedKeyError (js ''trusted public key is invalid''))
        | Some (keyType, x) \<Rightarrow>
            if keyType \<noteq> js ''ed25519''
            then Inl (TrustedKeyError (js ''trusted public key must use Ed25519''))
            else (case x of
                None \<Rightarrow> Inl (TrustedKeyError (js ''trusted Ed25519 public key has no public value''))
              | Some x \<Rightarrow>
                  (let rawPublicKey = buffer_from_base64url x in
                   if length rawPublicKey \<noteq> ed25519_public_key_bytes
                   then Inl (TrustedKeyError (js ''trusted Ed25519 public key must contain ''
                          @ dec ed25519_public_key_bytes @ js '' bytes''))
                   else Inr (digest_text c rawPublicKey)))))"

fun add_trusted_keys ::
  "'k crypto \<Rightarrow> create_public_key \<Rightarrow> trusted_keyring \<Rightarrow> ustr list \<Rightarrow> trusted_keyring result" where
  "add_trusted_keys c create keyring [] = Inr keyring"
| "add_trusted_keys c create keyring (pem # pems) =
     bind_result (calculate_public_key_id c create pem) (\<lambda>keyId.
       if map_of keyring keyId \<noteq> None
       then Inl (TrustedKeyError (js ''duplicate trusted public key '' @ keyId))
       else add_trusted_keys c create (AList.update keyId pem keyring) pems)"

definition create_trusted_keyring :: "'k crypto \<Rightarrow> create_public_key \<Rightarrow> ustr list \<Rightarrow> trusted_keyring result" where
  "create_trusted_keyring c create publicKeyPems =
     (if publicKeyPems = []
      then Inl (TrustedKeyError (js ''at least one trusted public key is required''))
      else add_trusted_keys c create [] publicKeyPems)"

section \<open>Signatures\<close>

lemma sextet_base64url:
  "base64url_char c \<Longrightarrow> sextet (if c = 45 then 43 else if c = 95 then 47 else c) \<noteq> None
     \<and> \<not> ascii_blank (if c = 45 then 43 else if c = 95 then 47 else c)
     \<and> (if c = 45 then 43 else if c = 95 then 47 else c) \<noteq> 61"
  by (auto simp: base64url_char_def sextet_def ascii_blank_def is_upper_def is_lower_def is_digit_def)

lemma signature_bytes:
  assumes "signature_pattern s"
  shows "\<exists>b. decode_base64url s = Inr b \<and> length b = ed25519_signature_bytes"
proof -
  define t where "t = map (\<lambda>c. if c = 45 then 43 else if c = 95 then 47 else c :: nat) s"
  have len: "length s = 86" "length t = 86" using assms by (simp_all add: signature_pattern_def t_def)
  have ok: "\<forall>c \<in> set t. sextet c \<noteq> None \<and> \<not> ascii_blank c"
  proof
    fix c assume "c \<in> set t"
    then obtain d where d: "d \<in> set s" "c = (if d = 45 then 43 else if d = 95 then 47 else d)"
      unfolding t_def by auto
    from d(1) assms have "base64url_char d" by (simp add: signature_pattern_def list_all_iff)
    from sextet_base64url [OF this] show "sextet c \<noteq> None \<and> \<not> ascii_blank c" unfolding d(2) by blast
  qed
  have pad: "pad_end ((length s + 3) div 4 * 4) 61 t = t @ [61, 61]"
  proof -
    have "replicate 2 61 = [61, 61 :: nat]" by (simp add: numeral_2_eq_2)
    with len show ?thesis by (simp add: pad_end_def)
  qed
  have "filter (\<lambda>c. \<not> ascii_blank c) (t @ [61, 61]) = t @ [61, 61]"
    using ok by (simp add: ascii_blank_def filter_id_conv)
  moreover have "strip_padding (t @ [61, 61]) = t"
    using len by (simp add: strip_padding_def ends_with_def)
  ultimately have "atob (t @ [61, 61]) = Some (join_sextets (map (the \<circ> sextet) t))"
    using ok len by (auto simp: atob_def Let_def list_ex_iff)
  then have "decode_base64url s = Inr (join_sextets (map (the \<circ> sextet) t))"
    unfolding decode_base64url_def t_def [symmetric] pad decode_base64_def by simp
  then show ?thesis using len by (simp add: length_join_sextets ed25519_signature_bytes_def)
qed

section \<open>What verification establishes\<close>

text \<open>
  A valid envelope: its key id names a trusted key whose raw form has that digest, the signature is
  that key's signature of the canonical bundle, and the bundle's version is the digest of its other
  members.
\<close>

definition signature_valid :: "'k crypto \<Rightarrow> trusted_keyring \<Rightarrow> signed_bundle_envelope \<Rightarrow> bool" where
  "signature_valid c keys e \<longleftrightarrow>
     (\<exists>pem spki k raw signature message content.
        map_of keys (e_keyId e) = Some pem \<and> decode_public_key_pem pem = Inr spki \<and> import_spki c spki = Some k
        \<and> export_raw c k = Some raw \<and> digest_text c raw = e_keyId e
        \<and> decode_base64url (e_signature e) = Inr signature
        \<and> canonical_bytes c (bundle_json (e_bundle e)) = Inr message
        \<and> ed25519_verify c k signature message = Some True
        \<and> canonical_bytes c (JObject (unversioned_members (e_bundle e))) = Inr content
        \<and> b_version (e_bundle e) = digest_text c content)"

text \<open>A bundle that some valid envelope carries.\<close>

definition trusted_bundle :: "regexp_engine \<Rightarrow> url_parser \<Rightarrow> 'k crypto \<Rightarrow> trusted_keyring \<Rightarrow> policy_bundle \<Rightarrow> bool" where
  "trusted_bundle engine parse_url c keys b \<longleftrightarrow>
     (\<exists>e. e_bundle e = b \<and> envelope_ok engine parse_url e \<and> signature_valid c keys e)"

lemma ascii_digest_pattern: "digest_pattern s \<Longrightarrow> ascii_text s"
proof -
  assume d: "digest_pattern s"
  then obtain r where s: "s = js ''sha256:'' @ r" by (auto simp: digest_pattern_def starts_with_iff)
  have "list_all is_lower_hex r" using d by (simp add: digest_pattern_def s)
  moreover have "ascii_text (js ''sha256:'')" by (simp add: js_def ascii_text_def)
  ultimately show ?thesis using ascii_lower_hex [of r] by (simp add: s ascii_text_def)
qed

lemma ascii_digest_text: "ascii_text (digest_text c b)"
proof -
  have "ascii_text (js ''sha256:'')" by (simp add: js_def ascii_text_def)
  then show ?thesis using ascii_lower_hex [OF bytes_to_hex_lower, of "sha256 c b"]
    by (simp add: digest_text_def ascii_text_def)
qed

lemma digest_text_inject: "digest_text c a = digest_text c b \<longleftrightarrow> sha256 c a = sha256 c b"
  by (simp add: digest_text_def bytes_to_hex_inject)

lemma import_trusted_Inr:
  assumes "digest_pattern keyId"
  shows "import_trusted_public_key c pem keyId = Inr k \<longleftrightarrow>
     (\<exists>spki raw. decode_public_key_pem pem = Inr spki \<and> import_spki c spki = Some k \<and> export_raw c k = Some raw
        \<and> digest_text c raw = keyId)"
  by (auto simp: import_trusted_public_key_def result_simps
      constant_time_equal_ascii [OF ascii_digest_text ascii_digest_pattern [OF assms]])

lemma verify_version_Inr:
  assumes "digest_pattern (b_version b)"
  shows "verify_bundle_version c b = Inr u \<longleftrightarrow>
     (\<exists>content. canonical_bytes c (JObject (unversioned_members b)) = Inr content \<and> b_version b = digest_text c content)"
  by (auto simp: verify_bundle_version_def result_simps
      constant_time_equal_ascii [OF ascii_digest_pattern [OF assms] ascii_digest_text])

lemma verify_envelope_Inr:
  "verify_bundle_envelope engine parse_url c keys v = Inr e
     \<longleftrightarrow> parse_bundle_envelope engine parse_url v = Inr e \<and> signature_valid c keys e"
proof (cases "parse_bundle_envelope engine parse_url v")
  case (Inl err)
  then show ?thesis by (simp add: verify_bundle_envelope_def)
next
  case (Inr envelope)
  then have ok: "envelope_ok engine parse_url envelope" by (rule envelope_read)
  then have d: "digest_pattern (e_keyId envelope)" "digest_pattern (b_version (e_bundle envelope))"
    and sig: "signature_pattern (e_signature envelope)"
    by (simp_all add: envelope_ok_def bundle_ok_def)
  obtain sigb where sb: "decode_base64url (e_signature envelope) = Inr sigb" "length sigb = ed25519_signature_bytes"
    using signature_bytes [OF sig] by blast
  have "verify_bundle_envelope engine parse_url c keys v = Inr e
      \<longleftrightarrow> envelope = e \<and> signature_valid c keys envelope"
    by (auto simp: verify_bundle_envelope_def Inr sb result_simps import_trusted_Inr [OF d(1)]
        verify_version_Inr [OF d(2)] signature_valid_def)
  with Inr show ?thesis by auto
qed

text \<open>C8: Verification. A value verifies to an envelope exactly when it parses to it, its key id names a
  trusted key with that fingerprint, that key signed the canonical bundle, and the version is the
  digest of the bundle's other members; nothing else gets through, and nothing that meets this is
  refused.\<close>

theorem verify_exact:
  "verify_bundle_envelope engine parse_url c keys v = Inr e
     \<longleftrightarrow> parse_bundle_envelope engine parse_url v = Inr e \<and> signature_valid c keys e"
  by (rule verify_envelope_Inr)

lemma verified_trusted:
  "verify_bundle_envelope engine parse_url c keys v = Inr e \<Longrightarrow> trusted_bundle engine parse_url c keys (e_bundle e)"
  unfolding verify_envelope_Inr trusted_bundle_def using envelope_read by blast

text \<open>Two trusted bundles of one version have the same digest of their other members.\<close>

definition same_content :: "'k crypto \<Rightarrow> policy_bundle \<Rightarrow> policy_bundle \<Rightarrow> bool" where
  "same_content c b b' \<longleftrightarrow>
     (\<exists>m m'. canonical_bytes c (JObject (unversioned_members b)) = Inr m
        \<and> canonical_bytes c (JObject (unversioned_members b')) = Inr m' \<and> sha256 c m = sha256 c m')"

lemma trusted_version:
  "trusted_bundle engine parse_url c keys b \<Longrightarrow> trusted_bundle engine parse_url c keys b' \<Longrightarrow>
     b_version b = b_version b' \<Longrightarrow> same_content c b b'"
  by (auto simp: trusted_bundle_def signature_valid_def same_content_def digest_text_inject)

section \<open>Key rings\<close>

lemma add_trusted_keys_ok:
  "add_trusted_keys c create ring pems = Inr ring' \<Longrightarrow>
     (\<exists>ids. length ids = length pems \<and> distinct ids
        \<and> (\<forall>i < length pems. calculate_public_key_id c create (pems ! i) = Inr (ids ! i) \<and> map_of ring' (ids ! i) = Some (pems ! i))
        \<and> (\<forall>k. k \<notin> set ids \<longrightarrow> map_of ring' k = map_of ring k) \<and> (\<forall>k \<in> set ids. map_of ring k = None))"
proof (induction c create ring pems rule: add_trusted_keys.induct)
  case (1 c create ring)
  then show ?case by (intro exI [of _ "[]"]) simp
next
  case (2 c create ring pem pems)
  then obtain k where k: "calculate_public_key_id c create pem = Inr k" "map_of ring k = None"
    and r: "add_trusted_keys c create (AList.update k pem ring) pems = Inr ring'"
    by (auto simp: bind_result_Inr split: if_splits)
  from "2.IH" [OF _ r] k(2) obtain ids where ids: "length ids = length pems" "distinct ids"
    "\<forall>i < length pems. calculate_public_key_id c create (pems ! i) = Inr (ids ! i) \<and> map_of ring' (ids ! i) = Some (pems ! i)"
    "\<forall>j. j \<notin> set ids \<longrightarrow> map_of ring' j = map_of (AList.update k pem ring) j"
    "\<forall>j \<in> set ids. map_of (AList.update k pem ring) j = None"
    by auto
  have "k \<notin> set ids" using ids(5) by (auto split: if_splits)
  with ids k have "map_of ring' k = Some pem" by simp
  with ids k \<open>k \<notin> set ids\<close> show ?case
    by (intro exI [of _ "k # ids"]) (auto simp: nth_Cons split: nat.splits if_splits)
qed

text \<open>Key rings. A key ring built from PEM texts has one entry per text, under the SHA-256
  fingerprint of that key, all different; and it holds nothing else.\<close>

theorem keyring_exact:
  assumes "create_trusted_keyring c create pems = Inr ring"
  shows "\<exists>ids. length ids = length pems \<and> distinct ids \<and> set ids = dom (map_of ring)
     \<and> (\<forall>i < length pems. calculate_public_key_id c create (pems ! i) = Inr (ids ! i)
          \<and> map_of ring (ids ! i) = Some (pems ! i))"
proof -
  from assms have "add_trusted_keys c create [] pems = Inr ring"
    by (simp add: create_trusted_keyring_def split: if_splits)
  from add_trusted_keys_ok [OF this] obtain ids where ids: "length ids = length pems" "distinct ids"
    "\<forall>i < length pems. calculate_public_key_id c create (pems ! i) = Inr (ids ! i) \<and> map_of ring (ids ! i) = Some (pems ! i)"
    "\<forall>k. k \<notin> set ids \<longrightarrow> map_of ring k = map_of [] k"
    by blast
  have "set ids = dom (map_of ring)"
    using ids(1,3,4) by (fastforce simp: in_set_conv_nth)
  with ids show ?thesis by blast
qed

definition demo_crypto :: "nat crypto" where
  "demo_crypto = \<lparr>import_spki = \<lambda>b. Some (length b), export_raw = \<lambda>k. Some [], sha256 = \<lambda>b. b,
     ed25519_verify = \<lambda>k s m. Some True, canonicalize = \<lambda>v. Some []\<rparr>"

definition demo_pem :: ustr where "demo_pem = pem_header @ js ''AAAA'' @ pem_footer"

lemma demo_pem_block: "public_key_block (trim demo_pem)"
proof -
  have "trim demo_pem = demo_pem"
    by (intro trim_id) (simp_all add: demo_pem_def pem_header_def pem_footer_def js_def is_space_def)
  then show ?thesis
    by (auto simp: public_key_block_def demo_pem_def starts_with_iff ends_with_iff)
qed

definition demo_create :: create_public_key where
  "demo_create pem = Some (js ''ed25519'', Some (replicate 43 65))"

lemma demo_keyring: "\<exists>ring. create_trusted_keyring demo_crypto demo_create [demo_pem] = Inr ring"
proof -
  have "set (replicate 43 (65::nat)) = {65}" by (simp add: set_replicate_conv_if)
  then have "takeWhile (\<lambda>c. c \<noteq> 61) (replicate 43 (65::nat)) = replicate 43 65"
    by (intro takeWhile_eq_all_conv [THEN iffD2]) simp
  then have "length (buffer_from_base64url (replicate 43 65)) = ed25519_public_key_bytes"
    by (simp add: buffer_from_base64url_def length_join_sextets ed25519_public_key_bytes_def sextet_def is_upper_def
        filter_replicate)
  then show ?thesis
    by (simp add: create_trusted_keyring_def calculate_public_key_id_def demo_pem_block demo_create_def Let_def)
qed

theorem keyring_exact_witness:
  "\<exists>ring k. create_trusted_keyring demo_crypto demo_create [demo_pem] = Inr ring \<and> dom (map_of ring) = {k}
     \<and> map_of ring k = Some demo_pem"
proof -
  obtain ring where r: "create_trusted_keyring demo_crypto demo_create [demo_pem] = Inr ring"
    using demo_keyring by blast
  from keyring_exact [OF r] obtain ids where ids: "length ids = 1" "set ids = dom (map_of ring)"
    "map_of ring (ids ! 0) = Some demo_pem" by auto
  then have "dom (map_of ring) = {ids ! 0}" by (cases ids) auto
  with r ids show ?thesis by blast
qed

end
