(* ===== verification/Http.thy ===== *)
theory Http imports Transport "HOL-Library.List_Lexorder" "HOL-Library.Word" begin

text \<open>
  The fetch standard's \<open>Headers\<close>, \<open>Request\<close> and \<open>Response\<close> as far as the proxy uses them. A
  header list holds pairs of a lower-case name and a value; a body is a stream of chunks that
  ends or breaks.
\<close>

named_theorems header_simps \<open>equations for reading headers after an update\<close>

type_synonym bytes = "8 word list"

section \<open>Headers\<close>

type_synonym headers = "(ustr \<times> ustr) list"

definition comma_space :: ustr where "comma_space = [44, 32]"

text \<open>\<open>headers.get(name)\<close>: the values of a name, joined with a comma and a space.\<close>

definition header_values :: "headers \<Rightarrow> ustr \<Rightarrow> ustr list" where
  "header_values h name = map snd (filter (\<lambda>nv. fst nv = to_lower name) h)"

definition header_get :: "headers \<Rightarrow> ustr \<Rightarrow> ustr option" where
  "header_get h name =
     (case header_values h name of [] \<Rightarrow> None | v # vs \<Rightarrow> Some (join_with comma_space (v # vs)))"

definition header_has :: "headers \<Rightarrow> ustr \<Rightarrow> bool" where
  "header_has h name = list_ex (\<lambda>nv. fst nv = to_lower name) h"

definition header_delete :: "ustr \<Rightarrow> headers \<Rightarrow> headers" where
  "header_delete name h = filter (\<lambda>nv. fst nv \<noteq> to_lower name) h"

text \<open>\<open>headers.set\<close>: the first pair of the name takes the value, the others go; a new name is last.
  The platform also strips white space around a value and refuses a value with a line break or a
  NUL; the values the code sets (literals, an address, a host name, a request id, an ETag that was read
  from a header, counts)
  have neither, so a value is kept as it is given.\<close>

fun header_replace :: "ustr \<Rightarrow> ustr \<Rightarrow> headers \<Rightarrow> headers" where
  "header_replace name value [] = [(name, value)]"
| "header_replace name value ((n, v) # h) =
     (if n = name then (name, value) # filter (\<lambda>nv. fst nv \<noteq> name) h
      else (n, v) # header_replace name value h)"

definition header_set :: "ustr \<Rightarrow> ustr \<Rightarrow> headers \<Rightarrow> headers" where
  "header_set name value h = header_replace (to_lower name) value h"

definition header_append :: "ustr \<Rightarrow> ustr \<Rightarrow> headers \<Rightarrow> headers" where
  "header_append name value h = h @ [(to_lower name, value)]"

text \<open>The order \<open>forEach\<close> visits headers in: names sorted, values of a name combined, except that
  each \<open>set-cookie\<close> is visited by itself.\<close>

definition header_entries :: "headers \<Rightarrow> (ustr \<times> ustr) list" where
  "header_entries h = concat (map (\<lambda>n.
     if n = js ''set-cookie'' then map (\<lambda>v. (n, v)) (header_values h n)
     else [(n, join_with comma_space (header_values h n))]) (sort (remdups (map fst h))))"

text \<open>Every name of a header list is in lower case.\<close>

definition headers_ok :: "headers \<Rightarrow> bool" where
  "headers_ok h \<longleftrightarrow> (\<forall>nv \<in> set h. to_lower (fst nv) = fst nv)"

section \<open>Requests and responses\<close>

record body_stream =
  st_chunks :: "bytes list"
  st_failure :: "js_error option"

record http_request =
  req_method :: ustr
  req_url :: url
  req_headers :: headers
  req_body :: "body_stream option"

record http_response =
  res_status :: int
  res_statusText :: ustr
  res_headers :: headers
  res_body :: "body_stream option"

text \<open>
  \<open>new Response(body, init)\<close> refuses a status outside 200 to 599, and a body on a status that
  has none.
\<close>

definition null_body_status :: "int \<Rightarrow> bool" where
  "null_body_status s \<longleftrightarrow> s \<in> {101, 103, 204, 205, 304}"

definition new_response :: "body_stream option \<Rightarrow> int \<Rightarrow> ustr \<Rightarrow> headers \<Rightarrow> http_response result" where
  "new_response body status statusText h =
     (if status < 200 \<or> 599 < status then Inl (RangeError [])
      else if body \<noteq> None \<and> null_body_status status then Inl (TypeError [])
      else Inr \<lparr>res_status = status, res_statusText = statusText, res_headers = h, res_body = body\<rparr>)"

definition res_ok :: "http_response \<Rightarrow> bool" where
  "res_ok r \<longleftrightarrow> 200 \<le> res_status r \<and> res_status r \<le> 299"

text \<open>\<open>headers.get('content-type')?.split(';', 1)[0]?.trim().toLowerCase()\<close>.\<close>

definition media_type :: "headers \<Rightarrow> ustr option" where
  "media_type h = map_option (\<lambda>v. to_lower (trim (hd (split_at 59 v)))) (header_get h (js ''content-type''))"

text \<open>Reading a body to its end: the bytes of its chunks, or the failure of the stream.\<close>

definition read_body :: "body_stream option \<Rightarrow> bytes result" where
  "read_body b =
     (case b of None \<Rightarrow> Inr []
      | Some st \<Rightarrow> (case st_failure st of Some e \<Rightarrow> Inl e | None \<Rightarrow> Inr (concat (st_chunks st))))"

section \<open>Reading after writing\<close>

lemma to_lower_idem [simp]: "to_lower (to_lower s) = to_lower s"
  by (auto simp: to_lower_def is_upper_def)

lemma filter_other:
  "n \<noteq> name \<Longrightarrow> filter (\<lambda>nv. fst nv = n) (filter (\<lambda>nv. fst nv \<noteq> name) h) = filter (\<lambda>nv. fst nv = n) h"
  by (induction h) auto

lemma filter_same: "filter (\<lambda>nv. fst nv = name) (filter (\<lambda>nv. fst nv \<noteq> name) h) = []"
  by (induction h) auto

lemma header_values_delete [header_simps]:
  "header_values (header_delete name h) n = (if to_lower n = to_lower name then [] else header_values h n)"
  using filter_other [of "to_lower n" "to_lower name" h] filter_same [of "to_lower name" h]
  by (simp add: header_values_def header_delete_def)

lemma header_get_delete [header_simps]:
  "header_get (header_delete name h) n = (if to_lower n = to_lower name then None else header_get h n)"
  by (simp add: header_get_def header_values_delete)

lemma header_values_replace:
  "map snd (filter (\<lambda>nv. fst nv = n) (header_replace name value h))
     = (if n = name then [value] else map snd (filter (\<lambda>nv. fst nv = n) h))"
proof (induction h)
  case (Cons nv h)
  with filter_other [of n name h] filter_same [of name h] show ?case by (cases nv) auto
qed simp

lemma header_get_set [header_simps]:
  "header_get (header_set name value h) n = (if to_lower n = to_lower name then Some value else header_get h n)"
  by (simp add: header_get_def header_set_def header_values_def header_values_replace)

lemma header_has_iff: "header_has h n \<longleftrightarrow> header_get h n \<noteq> None"
  by (induction h) (auto simp: header_has_def header_get_def header_values_def)

lemma headers_ok_delete [simp, intro]: "headers_ok h \<Longrightarrow> headers_ok (header_delete name h)"
  by (auto simp: headers_ok_def header_delete_def)

lemma set_header_replace: "set (header_replace name value h) \<subseteq> insert (name, value) (set h)"
  by (induction h) (auto split: if_splits)

lemma headers_ok_set [simp, intro]: "headers_ok h \<Longrightarrow> headers_ok (header_set name value h)"
  using set_header_replace [of "to_lower name" "value" h]
  by (auto simp: headers_ok_def header_set_def)

lemma header_get_foldl_delete [header_simps]:
  "header_get (foldl (\<lambda>h n. header_delete n h) h ns) n =
     (if to_lower n \<in> to_lower ` set ns then None else header_get h n)"
  by (induction ns arbitrary: h) (auto simp: header_get_delete)

end
