(* ===== verification/ChunkDecoder.thy ===== *)
theory ChunkDecoder imports Prelude begin

text \<open>
  Decoders that are fed in chunks. A decoder keeps a state and turns a chunk of input into
  output; its contract is that a chunk boundary does not show: feeding two chunks gives what
  feeding their concatenation gives. The UTF-8 decoder and the event stream decoder meet the
  contract, and so does one feeding the other.
\<close>

text \<open>Output and state of feeding a list of chunks, one call each.\<close>

fun push_chunks :: "('s \<Rightarrow> 'i list \<Rightarrow> 'o list \<times> 's) \<Rightarrow> 's \<Rightarrow> 'i list list \<Rightarrow> 'o list \<times> 's" where
  "push_chunks push s [] = ([], s)"
| "push_chunks push s (c # cs) =
     (case push s c of (o1, s1) \<Rightarrow> case push_chunks push s1 cs of (o2, s2) \<Rightarrow> (o1 @ o2, s2))"

locale chunk_decoder =
  fixes ready :: "'s \<Rightarrow> bool" and push :: "'s \<Rightarrow> 'i list \<Rightarrow> 'o list \<times> 's"
  assumes push_Nil: "ready s \<Longrightarrow> push s [] = ([], s)"
    and push_append: "ready s \<Longrightarrow>
      push s (a @ b) = (fst (push s a) @ fst (push (snd (push s a)) b), snd (push (snd (push s a)) b))"
    and push_ready: "ready s \<Longrightarrow> ready (snd (push s a))"
begin

lemma push_chunks_concat: "ready s \<Longrightarrow> push_chunks push s cs = push s (concat cs)"
  by (induction cs arbitrary: s) (simp_all add: push_Nil push_append push_ready case_prod_beta)

lemma same_chunks: "ready s \<Longrightarrow> concat cs = concat ds \<Longrightarrow> push_chunks push s cs = push_chunks push s ds"
  by (simp add: push_chunks_concat)

lemma push_chunks_ready: "ready s \<Longrightarrow> ready (snd (push_chunks push s cs))"
  by (simp add: push_chunks_concat push_ready)

end

text \<open>One decoder feeding another.\<close>

definition push_through ::
  "('s \<Rightarrow> 'i list \<Rightarrow> 'm list \<times> 's) \<Rightarrow> ('t \<Rightarrow> 'm list \<Rightarrow> 'o list \<times> 't) \<Rightarrow> 's \<times> 't \<Rightarrow> 'i list \<Rightarrow> 'o list \<times> ('s \<times> 't)" where
  "push_through first second st c =
     (case first (fst st) c of (m, s') \<Rightarrow> case second (snd st) m of (out, t') \<Rightarrow> (out, (s', t')))"

locale decoder_chain = first: chunk_decoder ready1 push1 + second: chunk_decoder ready2 push2
  for ready1 :: "'s \<Rightarrow> bool" and push1 :: "'s \<Rightarrow> 'i list \<Rightarrow> 'm list \<times> 's"
  and ready2 :: "'t \<Rightarrow> bool" and push2 :: "'t \<Rightarrow> 'm list \<Rightarrow> 'o list \<times> 't"

sublocale decoder_chain \<subseteq> both: chunk_decoder "\<lambda>st. ready1 (fst st) \<and> ready2 (snd st)" "push_through push1 push2"
  by unfold_locales
    (auto simp: push_through_def case_prod_beta first.push_Nil first.push_append first.push_ready
      second.push_Nil second.push_append second.push_ready)

text \<open>A decoder that reads item by item is the fold of its step.\<close>

fun push_steps :: "('s \<Rightarrow> 'i \<Rightarrow> 'o list \<times> 's) \<Rightarrow> 's \<Rightarrow> 'i list \<Rightarrow> 'o list \<times> 's" where
  "push_steps step s [] = ([], s)"
| "push_steps step s (x # xs) =
     (case step s x of (o1, s1) \<Rightarrow> case push_steps step s1 xs of (o2, s2) \<Rightarrow> (o1 @ o2, s2))"

lemma push_steps_append:
  "push_steps step s (a @ b) =
     (fst (push_steps step s a) @ fst (push_steps step (snd (push_steps step s a)) b),
      snd (push_steps step (snd (push_steps step s a)) b))"
  by (induction a arbitrary: s) (simp_all add: case_prod_beta)

end
