(* ===== verification/Utf8.thy ===== *)
theory Utf8 imports Bytes ChunkDecoder begin

text \<open>
  The platform's \<open>TextDecoder\<close> for UTF-8, as \<open>edge/src/gateway.ts\<close>, \<open>config-client.ts\<close>,
  \<open>config-sync.ts\<close> and \<open>tls.ts\<close> use it: not fatal (a malformed sequence becomes U+FFFD), a
  leading byte order mark dropped, and fed in one piece or in chunks.
\<close>

section \<open>The decoder\<close>

record utf8_decoder =
  ud_needed :: nat
  ud_seen :: nat
  ud_point :: nat
  ud_lower :: nat
  ud_upper :: nat
  ud_bom :: bool

definition new_utf8_decoder :: utf8_decoder where
  "new_utf8_decoder = \<lparr>ud_needed = 0, ud_seen = 0, ud_point = 0, ud_lower = 128, ud_upper = 191, ud_bom = False\<rparr>"

definition utf8_reset :: "utf8_decoder \<Rightarrow> utf8_decoder" where
  "utf8_reset d = d\<lparr>ud_needed := 0, ud_seen := 0, ud_point := 0, ud_lower := 128, ud_upper := 191\<rparr>"

text \<open>A byte where a character may start, and a byte of a character under way: the code points it
  completes and the next state.\<close>

definition utf8_lead :: "utf8_decoder \<Rightarrow> nat \<Rightarrow> nat list \<times> utf8_decoder" where
  "utf8_lead d b =
     (if b \<le> 127 then ([b], d)
      else if 194 \<le> b \<and> b \<le> 223 then ([], d\<lparr>ud_needed := 1, ud_point := b - 192\<rparr>)
      else if 224 \<le> b \<and> b \<le> 239
      then ([], d\<lparr>ud_needed := 2, ud_point := b - 224, ud_lower := (if b = 224 then 160 else 128),
                  ud_upper := (if b = 237 then 159 else 191)\<rparr>)
      else if 240 \<le> b \<and> b \<le> 244
      then ([], d\<lparr>ud_needed := 3, ud_point := b - 240, ud_lower := (if b = 240 then 144 else 128),
                  ud_upper := (if b = 244 then 143 else 191)\<rparr>)
      else ([65533], d))"

definition utf8_byte :: "utf8_decoder \<Rightarrow> nat \<Rightarrow> nat list \<times> utf8_decoder" where
  "utf8_byte d b =
     (if ud_needed d = 0 then utf8_lead d b
      else if b < ud_lower d \<or> ud_upper d < b
      then (case utf8_lead (utf8_reset d) b of (ps, d') \<Rightarrow> (65533 # ps, d'))
      else
        (let p = 64 * ud_point d + (b - 128) in
         if Suc (ud_seen d) = ud_needed d then ([p], utf8_reset d)
         else ([], d\<lparr>ud_lower := 128, ud_upper := 191, ud_point := p, ud_seen := Suc (ud_seen d)\<rparr>)))"

definition utf16_units :: "nat \<Rightarrow> ustr" where
  "utf16_units p =
     (if p < 65536 then [p] else [55296 + (p - 65536) div 1024, 56320 + (p - 65536) mod 1024])"

text \<open>The first code point is dropped when it is the byte order mark.\<close>

definition utf8_step :: "utf8_decoder \<Rightarrow> 8 word \<Rightarrow> ustr \<times> utf8_decoder" where
  "utf8_step d b =
     (case utf8_byte d (unat b) of (ps, d') \<Rightarrow>
        (if ps = [] then ([], d')
         else (concat (map utf16_units (if \<not> ud_bom d \<and> hd ps = 65279 then tl ps else ps)), d'\<lparr>ud_bom := True\<rparr>)))"

text \<open>\<open>decoder.decode(chunk, { stream: true })\<close>, \<open>decoder.decode()\<close> and the decoding of a whole text.\<close>

definition decode_stream :: "utf8_decoder \<Rightarrow> 8 word list \<Rightarrow> ustr \<times> utf8_decoder" where
  "decode_stream d bs = push_steps utf8_step d bs"

definition decode_flush :: "utf8_decoder \<Rightarrow> ustr" where
  "decode_flush d = (if ud_needed d = 0 then [] else [65533])"

definition text_decode :: "8 word list \<Rightarrow> ustr" where
  "text_decode bs = (case decode_stream new_utf8_decoder bs of (t, d) \<Rightarrow> t @ decode_flush d)"

section \<open>Chunks do not show\<close>

interpretation utf8: chunk_decoder "\<lambda>_. True" decode_stream
  by unfold_locales (simp_all add: decode_stream_def push_steps_append)

section \<open>Decoding what was encoded\<close>

text \<open>A decoder between two characters.\<close>

definition between :: "utf8_decoder \<Rightarrow> bool" where
  "between d \<longleftrightarrow> ud_needed d = 0 \<and> ud_seen d = 0 \<and> ud_point d = 0 \<and> ud_lower d = 128 \<and> ud_upper d = 191"

definition scalar_value :: "nat \<Rightarrow> bool" where
  "scalar_value p \<longleftrightarrow> p \<le> 1114111 \<and> \<not> (55296 \<le> p \<and> p \<le> 57343)"

lemma new_decoder_between [simp]: "between new_utf8_decoder"
  by (simp add: between_def new_utf8_decoder_def)

lemma between_bom [simp]: "between (d\<lparr>ud_bom := b\<rparr>) = between d"
  by (simp add: between_def)

lemma unat_byte [simp]: "n < 256 \<Longrightarrow> unat (of_nat n :: 8 word) = n"
  by (simp add: unat_of_nat take_bit_nat_eq_self)

lemma between_form: "between d \<longleftrightarrow> d = new_utf8_decoder\<lparr>ud_bom := ud_bom d\<rparr>"
  by (cases d) (simp add: between_def new_utf8_decoder_def)

lemmas utf8_machine = utf8_step_def utf8_byte_def utf8_lead_def utf8_reset_def new_utf8_decoder_def

lemma utf8_run_1:
  assumes "p < 128"
  shows "push_steps utf8_step (new_utf8_decoder\<lparr>ud_bom := m\<rparr>) [of_nat p] = (utf16_units p, new_utf8_decoder\<lparr>ud_bom := True\<rparr>)"
  using assms by (simp add: utf8_machine)

lemma utf8_run_2:
  assumes "2 \<le> a" "a < 32" "b < 64"
  shows "push_steps utf8_step (new_utf8_decoder\<lparr>ud_bom := m\<rparr>) [of_nat (192 + a), of_nat (128 + b)]
     = (utf16_units (64 * a + b), new_utf8_decoder\<lparr>ud_bom := True\<rparr>)"
  using assms by (simp add: utf8_machine del: of_nat_add)

lemma utf8_run_3:
  assumes "a < 16" "b < 64" "c < 64" "a = 0 \<Longrightarrow> 32 \<le> b" "a = 13 \<Longrightarrow> b < 32"
    and "m \<or> 4096 * a + 64 * b + c \<noteq> 65279"
  shows "push_steps utf8_step (new_utf8_decoder\<lparr>ud_bom := m\<rparr>) [of_nat (224 + a), of_nat (128 + b), of_nat (128 + c)]
     = (utf16_units (4096 * a + 64 * b + c), new_utf8_decoder\<lparr>ud_bom := True\<rparr>)"
  using assms by (auto simp: utf8_machine algebra_simps simp del: of_nat_add)

lemma utf8_run_4:
  assumes "a < 5" "b < 64" "c < 64" "e < 64" "a = 0 \<Longrightarrow> 16 \<le> b" "a = 4 \<Longrightarrow> b < 16"
  shows "push_steps utf8_step (new_utf8_decoder\<lparr>ud_bom := m\<rparr>)
       [of_nat (240 + a), of_nat (128 + b), of_nat (128 + c), of_nat (128 + e)]
     = (utf16_units (262144 * a + 4096 * b + 64 * c + e), new_utf8_decoder\<lparr>ud_bom := True\<rparr>)"
  using assms by (auto simp: utf8_machine algebra_simps simp del: of_nat_add)

text \<open>Whatever came before, the bytes of a character give back its code units.\<close>

lemma utf8_run:
  assumes "scalar_value p" "m \<or> p \<noteq> 65279"
  shows "push_steps utf8_step (new_utf8_decoder\<lparr>ud_bom := m\<rparr>) (utf8_bytes p)
     = (utf16_units p, new_utf8_decoder\<lparr>ud_bom := True\<rparr>)"
proof -
  consider "p < 128" | "128 \<le> p" "p < 2048" | "2048 \<le> p" "p < 65536" | "65536 \<le> p" by linarith
  then show ?thesis
  proof cases
    case 1
    with utf8_run_1 [of p m] show ?thesis by (simp add: utf8_bytes_def)
  next
    case 2
    then have "2 \<le> p div 64" "p div 64 < 32" "p mod 64 < 64" by auto
    from utf8_run_2 [OF this] 2 show ?thesis by (simp add: utf8_bytes_def)
  next
    case 3
    have q: "p div 4096 = p div 64 div 64" by (simp flip: div_mult2_eq)
    have r: "4096 * (p div 4096) + 64 * (p div 64 mod 64) + p mod 64 = p"
      unfolding q using div_mult_mod_eq [of p 64] div_mult_mod_eq [of "p div 64" 64] by linarith
    have b: "p div 64 mod 64 < 64" "p mod 64 < 64" by auto
    have "p div 4096 < 16" using 3 by auto
    moreover have "p div 4096 = 0 \<Longrightarrow> 32 \<le> p div 64 mod 64" using 3 r b by linarith
    moreover have "p div 4096 = 13 \<Longrightarrow> p div 64 mod 64 < 32"
      using assms(1) r b unfolding scalar_value_def by linarith
    moreover note b
    ultimately have "push_steps utf8_step (new_utf8_decoder\<lparr>ud_bom := m\<rparr>)
        [of_nat (224 + p div 4096), of_nat (128 + p div 64 mod 64), of_nat (128 + p mod 64)]
        = (utf16_units p, new_utf8_decoder\<lparr>ud_bom := True\<rparr>)"
      using utf8_run_3 [of "p div 4096" "p div 64 mod 64" "p mod 64" m] assms(2) unfolding r by simp
    with 3 show ?thesis by (simp add: utf8_bytes_def)
  next
    case 4
    have q: "p div 4096 = p div 64 div 64" "p div 262144 = p div 64 div 64 div 64"
      by (simp_all flip: div_mult2_eq)
    have r: "262144 * (p div 262144) + 4096 * (p div 4096 mod 64) + 64 * (p div 64 mod 64) + p mod 64 = p"
      unfolding q using div_mult_mod_eq [of p 64] div_mult_mod_eq [of "p div 64" 64]
        div_mult_mod_eq [of "p div 64 div 64" 64] by linarith
    have b: "p div 4096 mod 64 < 64" "p div 64 mod 64 < 64" "p mod 64 < 64" by auto
    have "p div 262144 < 5" using assms(1) r b unfolding scalar_value_def by linarith
    moreover have "p div 262144 = 0 \<Longrightarrow> 16 \<le> p div 4096 mod 64" using 4 r b by linarith
    moreover have "p div 262144 = 4 \<Longrightarrow> p div 4096 mod 64 < 16"
      using assms(1) r b unfolding scalar_value_def by linarith
    moreover note b
    ultimately have "push_steps utf8_step (new_utf8_decoder\<lparr>ud_bom := m\<rparr>)
        [of_nat (240 + p div 262144), of_nat (128 + p div 4096 mod 64), of_nat (128 + p div 64 mod 64), of_nat (128 + p mod 64)]
        = (utf16_units p, new_utf8_decoder\<lparr>ud_bom := True\<rparr>)"
      using utf8_run_4 [of "p div 262144" "p div 4096 mod 64" "p div 64 mod 64" "p mod 64" m] unfolding r by simp
    with 4 show ?thesis by (simp add: utf8_bytes_def)
  qed
qed

lemma utf8_run_points:
  assumes "list_all scalar_value ps" "m \<or> ps = [] \<or> hd ps \<noteq> 65279"
  shows "push_steps utf8_step (new_utf8_decoder\<lparr>ud_bom := m\<rparr>) (concat (map utf8_bytes ps))
     = (concat (map utf16_units ps), new_utf8_decoder\<lparr>ud_bom := m \<or> ps \<noteq> []\<rparr>)"
  using assms
proof (induction ps arbitrary: m)
  case (Cons p ps)
  then have "push_steps utf8_step (new_utf8_decoder\<lparr>ud_bom := m\<rparr>) (utf8_bytes p)
      = (utf16_units p, new_utf8_decoder\<lparr>ud_bom := True\<rparr>)" by (intro utf8_run) auto
  with Cons show ?case by (simp add: push_steps_append)
qed (simp add: new_utf8_decoder_def)

lemma code_points_scalar: "list_all (\<lambda>c. c < 65536) s \<Longrightarrow> list_all scalar_value (code_points s)"
  by (induction s rule: code_points.induct) (auto simp: scalar_value_def)

text \<open>A text without lone surrogates.\<close>

fun well_formed_text :: "ustr \<Rightarrow> bool" where
  "well_formed_text [] = True"
| "well_formed_text [c] = (c < 55296 \<or> 57343 < c \<and> c < 65536)"
| "well_formed_text (c # d # s) =
     (if 55296 \<le> c \<and> c \<le> 56319 \<and> 56320 \<le> d \<and> d \<le> 57343 then well_formed_text s
      else (c < 55296 \<or> 57343 < c \<and> c < 65536) \<and> well_formed_text (d # s))"

lemma well_formed_units: "well_formed_text s \<Longrightarrow> list_all (\<lambda>c. c < 65536) s"
  by (induction s rule: well_formed_text.induct) (auto split: if_splits)

lemma units_of_points: "well_formed_text s \<Longrightarrow> concat (map utf16_units (code_points s)) = s"
proof (induction s rule: well_formed_text.induct)
  case (3 c d s)
  have "utf16_units (65536 + (c - 55296) * 1024 + (d - 56320)) = [c, d]"
    if r: "55296 \<le> c" "56320 \<le> d" "d \<le> 57343"
  proof -
    from r obtain x y where "c = 55296 + x" "d = 56320 + y" "y < 1024" by (auto simp: le_iff_add)
    then show ?thesis by (simp add: utf16_units_def)
  qed
  with 3 show ?case by (auto simp: utf16_units_def split: if_splits)
qed (auto simp: utf16_units_def)

lemma text_decode_points:
  assumes "list_all (\<lambda>c. c < 65536) s" "code_points s = [] \<or> hd (code_points s) \<noteq> 65279"
  shows "text_decode (utf8_encode s) = concat (map utf16_units (code_points s))"
  using utf8_run_points [OF code_points_scalar [OF assms(1)], of False] assms(2)
  by (simp add: text_decode_def decode_stream_def decode_flush_def utf8_encode_def new_utf8_decoder_def)

lemma hd_code_points: "well_formed_text (c # s) \<Longrightarrow> c \<noteq> 65279 \<Longrightarrow> hd (code_points (c # s)) \<noteq> 65279"
  by (cases s) auto

lemma text_round_trip:
  assumes "well_formed_text s" "s = [] \<or> hd s \<noteq> 65279"
  shows "text_decode (utf8_encode s) = s"
proof (cases s)
  case (Cons c r)
  with assms show ?thesis
    using text_decode_points [OF well_formed_units [OF assms(1)]] hd_code_points units_of_points by auto
qed (simp add: text_decode_def utf8_encode_def decode_stream_def decode_flush_def new_utf8_decoder_def)

end
