(* ===== verification/ConfigClient.thy ===== *)
theory ConfigClient imports Verify Http Utf8 begin

text \<open>
  The configuration client (\<open>edge/src/config-client.ts\<close>): it fetches the signed bundle from the
  control plane, verifies it and keeps the latest verified snapshot. A refresh is asynchronous:
  it starts, the response arrives later, and its promise settles later still; the three moments
  are separate steps here, so every interleaving of calls with a refresh under way is a sequence
  of steps. The fetch, the clock and the primitives of verification are arguments.
\<close>

section \<open>State\<close>

record config_snapshot =
  cs_bundle :: policy_bundle
  cs_etag :: ustr
  cs_loadedAt :: jsnum

datatype refresh_result = Updated config_snapshot | Unchanged config_snapshot

text \<open>A promise that \<open>refresh\<close> returns is known by a number.\<close>

record config_client =
  cc_bundleUrl :: url
  cc_trustedKeys :: trusted_keyring
  cc_snapshot :: "config_snapshot option"
  cc_refreshInFlight :: "nat option"

text \<open>What verification reads of the world.\<close>

record 'k config_env =
  ce_engine :: regexp_engine
  ce_parse_url :: url_parser
  ce_crypto :: "'k crypto"

section \<open>Operations\<close>

text \<open>\<open>new URL(path, base)\<close> of an absolute path: the base keeps its scheme and authority.\<close>

definition resolve_path :: "string \<Rightarrow> url \<Rightarrow> url" where
  "resolve_path path baseUrl = baseUrl\<lparr>u_pathname := js path, u_search := [], u_hash := []\<rparr>"

definition new_config_client :: "url_parser \<Rightarrow> ustr \<Rightarrow> trusted_keyring \<Rightarrow> config_client result" where
  "new_config_client parse_url baseUrl trustedKeys =
     (case parse_url baseUrl of
        None \<Rightarrow> Inl (ConfigurationClientError (js ''control-plane base URL is invalid''))
      | Some u \<Rightarrow>
          if u_protocol u \<noteq> js ''http:'' \<and> u_protocol u \<noteq> js ''https:''
          then Inl (ConfigurationClientError (js ''control-plane base URL must use HTTP or HTTPS''))
          else Inr \<lparr>cc_bundleUrl = resolve_path ''/v1/bundle'' u, cc_trustedKeys = trustedKeys,
                 cc_snapshot = None, cc_refreshInFlight = None\<rparr>)"

definition require_current :: "config_client \<Rightarrow> config_snapshot result" where
  "require_current c =
     (case cc_snapshot c of
        None \<Rightarrow> Inl (ConfigurationClientError (js ''no verified configuration is available''))
      | Some s \<Rightarrow> Inr s)"

text \<open>A call of \<open>refresh\<close>: the promise it returns, whether a new operation started, the client.\<close>

definition refresh :: "nat \<Rightarrow> config_client \<Rightarrow> nat \<times> bool \<times> config_client" where
  "refresh fresh c =
     (case cc_refreshInFlight c of
        Some operation \<Rightarrow> (operation, False, c)
      | None \<Rightarrow> (fresh, True, c\<lparr>cc_refreshInFlight := Some fresh\<rparr>))"

text \<open>The callback of a settled operation.\<close>

definition clear_in_flight :: "nat \<Rightarrow> config_client \<Rightarrow> config_client" where
  "clear_in_flight operation c =
     (if cc_refreshInFlight c = Some operation then c\<lparr>cc_refreshInFlight := None\<rparr> else c)"

text \<open>The first half of \<open>#refreshOnce\<close>: the headers of the request.\<close>

definition refresh_headers :: "config_client \<Rightarrow> headers" where
  "refresh_headers c =
     (let h = [(js ''accept'', js ''application/json'')] in
      case cc_snapshot c of None \<Rightarrow> h | Some s \<Rightarrow> header_set (js ''If-None-Match'') (cs_etag s) h)"

definition response_json :: "http_response \<Rightarrow> json option" where
  "response_json r = (case read_body (res_body r) of Inl e \<Rightarrow> None | Inr bs \<Rightarrow> json_parse (text_decode bs))"

definition expected_etag :: "policy_bundle \<Rightarrow> ustr" where
  "expected_etag b = js [CHR 0x22] @ b_version b @ js [CHR 0x22]"

text \<open>The second half: what the fetch gave, the clock, and the client when the response is read.\<close>

definition refresh_once ::
  "'k config_env \<Rightarrow> http_response result \<Rightarrow> jsnum \<Rightarrow> config_client \<Rightarrow> refresh_result result \<times> config_client" where
  "refresh_once env fetched now c =
     (case fetched of
        Inl e \<Rightarrow> (Inl (ConfigurationClientError (js ''fetch bundle: '' @ error_message e)), c)
      | Inr response \<Rightarrow>
          if res_status response = 304 then
            (case cc_snapshot c of
               None \<Rightarrow> (Inl (ConfigurationClientError (js ''control plane returned 304 before a bundle was loaded'')), c)
             | Some s \<Rightarrow> (Inr (Unchanged s), c))
          else if \<not> res_ok response
          then (Inl (ConfigurationClientError (js ''control plane returned HTTP '' @ dec_int (res_status response))), c)
          else if media_type (res_headers response) \<noteq> Some (js ''application/json'')
          then (Inl (ConfigurationClientError (js ''control plane returned a non-JSON bundle'')), c)
          else
            (case response_json response of
               None \<Rightarrow> (Inl (ConfigurationClientError (js ''control plane returned invalid JSON'')), c)
             | Some body \<Rightarrow>
                 (case verify_bundle_envelope (ce_engine env) (ce_parse_url env) (ce_crypto env) (cc_trustedKeys c) body of
                    Inl e \<Rightarrow> (Inl e, c)
                  | Inr verified \<Rightarrow>
                      (case header_get (res_headers response) (js ''etag'') of
                         None \<Rightarrow> (Inl (ConfigurationClientError (js ''control plane response is missing an ETag'')), c)
                       | Some etag \<Rightarrow>
                           if trim etag = []
                           then (Inl (ConfigurationClientError (js ''control plane response is missing an ETag'')), c)
                           else if etag \<noteq> expected_etag (e_bundle verified)
                           then (Inl (ConfigurationClientError
                                   (js ''control-plane ETag does not match the bundle version'')), c)
                           else
                             (let snapshot = \<lparr>cs_bundle = e_bundle verified, cs_etag = etag, cs_loadedAt = now\<rparr> in
                              (Inr (Updated snapshot), c\<lparr>cc_snapshot := Some snapshot\<rparr>))))))"

section \<open>Refreshes and calls interleaved\<close>

text \<open>
  A client with its operations: those that have not read their response yet, what the others
  settled with, and the number of the next promise.
\<close>

record client_system =
  sy_client :: config_client
  sy_running :: "nat list"
  sy_settled :: "(nat \<times> refresh_result result) list"
  sy_next :: nat

datatype client_event =
    RefreshCalled
  | ResponseRead nat "http_response result" jsnum
  | SettlementSeen nat

inductive client_step :: "'k config_env \<Rightarrow> client_system \<Rightarrow> client_event \<Rightarrow> client_system \<Rightarrow> bool" for env where
  called: "refresh (sy_next s) (sy_client s) = (operation, started, c) \<Longrightarrow>
     client_step env s RefreshCalled
       (s\<lparr>sy_client := c, sy_running := (if started then operation # sy_running s else sy_running s),
          sy_next := Suc (sy_next s)\<rparr>)"
| response_read: "operation \<in> set (sy_running s) \<Longrightarrow> refresh_once env fetched now (sy_client s) = (r, c) \<Longrightarrow>
     client_step env s (ResponseRead operation fetched now)
       (s\<lparr>sy_client := c, sy_running := removeAll operation (sy_running s), sy_settled := (operation, r) # sy_settled s\<rparr>)"
| settlement_seen: "map_of (sy_settled s) operation \<noteq> None \<Longrightarrow>
     client_step env s (SettlementSeen operation) (s\<lparr>sy_client := clear_in_flight operation (sy_client s)\<rparr>)"

inductive_cases calledE: "client_step env s RefreshCalled s'"
inductive_cases response_readE: "client_step env s (ResponseRead operation fetched now) s'"
inductive_cases settlement_seenE: "client_step env s (SettlementSeen operation) s'"

definition initial_system :: "config_client \<Rightarrow> client_system" where
  "initial_system c = \<lparr>sy_client = c, sy_running = [], sy_settled = [], sy_next = 0\<rparr>"

text \<open>The states a client reaches after its construction.\<close>

inductive client_reachable :: "'k config_env \<Rightarrow> trusted_keyring \<Rightarrow> client_system \<Rightarrow> bool" for env keys where
  start: "new_config_client (ce_parse_url env) base keys = Inr c \<Longrightarrow> client_reachable env keys (initial_system c)"
| step: "client_reachable env keys s \<Longrightarrow> client_step env s ev s' \<Longrightarrow> client_reachable env keys s'"

section \<open>One refresh\<close>

lemma expected_etag_trim: "trim (expected_etag b) \<noteq> []"
  by (simp add: trim_eq_Nil_iff expected_etag_def js_def is_space_def)

text \<open>What a response must be for its bundle to be installed.\<close>

definition installs :: "'k config_env \<Rightarrow> trusted_keyring \<Rightarrow> http_response \<Rightarrow> jsnum \<Rightarrow> config_snapshot \<Rightarrow> bool" where
  "installs env keys response now s \<longleftrightarrow>
     res_ok response \<and> media_type (res_headers response) = Some (js ''application/json'')
     \<and> (\<exists>body e. response_json response = Some body
          \<and> verify_bundle_envelope (ce_engine env) (ce_parse_url env) (ce_crypto env) keys body = Inr e
          \<and> cs_bundle s = e_bundle e)
     \<and> header_get (res_headers response) (js ''etag'') = Some (expected_etag (cs_bundle s))
     \<and> cs_etag s = expected_etag (cs_bundle s) \<and> cs_loadedAt s = now"

lemma refresh_updated:
  "refresh_once env fetched now c = (Inr (Updated s), c')
     \<longleftrightarrow> (\<exists>response. fetched = Inr response \<and> installs env (cc_trustedKeys c) response now s)
       \<and> c' = c\<lparr>cc_snapshot := Some s\<rparr>"
proof (cases fetched)
  case (Inr response)
  let ?v = "\<lambda>body. verify_bundle_envelope (ce_engine env) (ce_parse_url env) (ce_crypto env) (cc_trustedKeys c) body"
  show ?thesis
  proof (cases "res_ok response \<and> media_type (res_headers response) = Some (js ''application/json'')")
    case True
    then have st: "res_status response \<noteq> 304" by (auto simp: res_ok_def)
    show ?thesis
    proof (cases "response_json response")
      case None
      with True st show ?thesis by (simp add: Inr refresh_once_def installs_def)
    next
      case body: (Some body)
      show ?thesis
      proof (cases "?v body")
        case (Inl e)
        with True st body show ?thesis by (simp add: Inr refresh_once_def installs_def)
      next
        case v: (Inr verified)
        have "refresh_once env fetched now c = (Inr (Updated s), c') \<longleftrightarrow>
            header_get (res_headers response) (js ''etag'') = Some (expected_etag (e_bundle verified))
            \<and> s = \<lparr>cs_bundle = e_bundle verified, cs_etag = expected_etag (e_bundle verified), cs_loadedAt = now\<rparr>
            \<and> c' = c\<lparr>cc_snapshot := Some s\<rparr>"
          using True st body v expected_etag_trim [of "e_bundle verified"]
          by (cases "header_get (res_headers response) (js ''etag'')") (auto simp: Inr refresh_once_def Let_def)
        with True body v show ?thesis by (cases s) (auto simp: Inr installs_def)
      qed
    qed
  next
    case False
    then show ?thesis
      by (cases "cc_snapshot c") (auto simp: Inr refresh_once_def installs_def)
  qed
qed (simp add: refresh_once_def)

lemma refresh_unchanged:
  "refresh_once env fetched now c = (Inr (Unchanged s), c')
     \<longleftrightarrow> (\<exists>response. fetched = Inr response \<and> res_status response = 304) \<and> cc_snapshot c = Some s \<and> c' = c"
  by (auto simp: refresh_once_def Let_def split: option.splits sum.splits if_splits)

lemma refresh_failed: "refresh_once env fetched now c = (Inl e, c') \<Longrightarrow> c' = c"
  by (auto simp: refresh_once_def Let_def split: option.splits sum.splits if_splits)

lemma refresh_client:
  "snd (refresh_once env fetched now c)
     = (case fst (refresh_once env fetched now c) of Inr (Updated s) \<Rightarrow> c\<lparr>cc_snapshot := Some s\<rparr> | _ \<Rightarrow> c)"
proof -
  obtain r c' where rc: "refresh_once env fetched now c = (r, c')" by (rule prod.exhaust)
  then show ?thesis
    using refresh_updated [of env fetched now c _ c'] refresh_unchanged [of env fetched now c _ c']
      refresh_failed [of env fetched now c _ c']
    by (auto split: sum.split refresh_result.split)
qed

text \<open>C35: One refresh. It installs a bundle exactly when the response is successful JSON that verifies
  under the client's keys and carries the version of the bundle as its ETag, and then the snapshot
  is that bundle; it reports \<open>unchanged\<close> exactly on 304 with a snapshot held; and in every other
  case it fails and leaves the client as it was.\<close>

theorem refresh_exact:
  "((\<exists>c'. refresh_once env fetched now c = (Inr (Updated s), c'))
      = (\<exists>response. fetched = Inr response \<and> installs env (cc_trustedKeys c) response now s))
   \<and> ((\<exists>c'. refresh_once env fetched now c = (Inr (Unchanged s), c'))
      = ((\<exists>response. fetched = Inr response \<and> res_status response = 304) \<and> cc_snapshot c = Some s))
   \<and> snd (refresh_once env fetched now c)
      = (case fst (refresh_once env fetched now c) of Inr (Updated s) \<Rightarrow> c\<lparr>cc_snapshot := Some s\<rparr> | _ \<Rightarrow> c)"
  by (auto simp: refresh_updated refresh_unchanged refresh_client)

section \<open>Every state of the client\<close>

definition snapshot_ok :: "'k config_env \<Rightarrow> trusted_keyring \<Rightarrow> config_snapshot \<Rightarrow> bool" where
  "snapshot_ok env keys s \<longleftrightarrow>
     trusted_bundle (ce_engine env) (ce_parse_url env) (ce_crypto env) keys (cs_bundle s)
     \<and> cs_etag s = expected_etag (cs_bundle s)"

fun result_snapshot :: "refresh_result \<Rightarrow> config_snapshot" where
  "result_snapshot (Updated s) = s"
| "result_snapshot (Unchanged s) = s"

definition client_ok :: "'k config_env \<Rightarrow> trusted_keyring \<Rightarrow> client_system \<Rightarrow> bool" where
  "client_ok env keys s \<longleftrightarrow>
     cc_trustedKeys (sy_client s) = keys
     \<and> (\<forall>snap. cc_snapshot (sy_client s) = Some snap \<longrightarrow> snapshot_ok env keys snap)
     \<and> sy_running s = (case cc_refreshInFlight (sy_client s) of None \<Rightarrow> []
          | Some operation \<Rightarrow> if map_of (sy_settled s) operation = None then [operation] else [])
     \<and> (\<forall>operation. cc_refreshInFlight (sy_client s) = Some operation \<longrightarrow> operation < sy_next s)
     \<and> (\<forall>(operation, r) \<in> set (sy_settled s). operation < sy_next s
          \<and> (\<forall>x. r = Inr x \<longrightarrow> snapshot_ok env keys (result_snapshot x)))"

lemma installs_ok: "installs env keys response now s \<Longrightarrow> snapshot_ok env keys s"
  using verified_trusted by (auto simp: installs_def snapshot_ok_def)

lemma initial_client_ok: "new_config_client (ce_parse_url env) base keys = Inr c \<Longrightarrow> client_ok env keys (initial_system c)"
  by (auto simp: new_config_client_def client_ok_def initial_system_def split: option.splits if_splits)

lemma step_ok:
  assumes "client_step env s ev s'" "client_ok env keys s"
  shows "client_ok env keys s'"
  using assms(1)
proof cases
  case (called operation started c)
  have "map_of (sy_settled s) (sy_next s) = None"
    using assms(2) by (force simp: client_ok_def map_of_eq_None_iff)
  with called assms(2) show ?thesis
    by (auto simp: client_ok_def refresh_def less_Suc_eq split: option.splits if_splits)
next
  case (response_read operation fetched now r c)
  have op: "cc_refreshInFlight (sy_client s) = Some operation" "map_of (sy_settled s) operation = None"
    "sy_running s = [operation]"
    using assms(2) response_read(3) by (auto simp: client_ok_def split: option.splits if_splits)
  have c: "c = (case r of Inr (Updated x) \<Rightarrow> (sy_client s)\<lparr>cc_snapshot := Some x\<rparr> | _ \<Rightarrow> sy_client s)"
    using refresh_client [of env fetched now "sy_client s"] response_read(4) by simp
  have r: "snapshot_ok env keys (result_snapshot x)" if "r = Inr x" for x
  proof (cases x)
    case (Updated y)
    with response_read(4) that refresh_updated [of env fetched now "sy_client s" y c] show ?thesis
      using assms(2) by (auto simp: client_ok_def intro: installs_ok)
  next
    case (Unchanged y)
    with response_read(4) that refresh_unchanged [of env fetched now "sy_client s" y c] show ?thesis
      using assms(2) by (auto simp: client_ok_def)
  qed
  show ?thesis unfolding response_read(2)
    using assms(2) op r by (auto simp: client_ok_def c split: sum.splits refresh_result.splits)
next
  case (settlement_seen operation)
  with assms(2) show ?thesis
    by (auto simp: client_ok_def clear_in_flight_def split: option.splits if_splits)
qed

lemma reachable_client_ok: "client_reachable env keys s \<Longrightarrow> client_ok env keys s"
  by (induction rule: client_reachable.induct) (auto intro: initial_client_ok step_ok)

text \<open>A refresh can always make progress: what is in flight can be read or cleared.\<close>

lemma in_flight_moves:
  assumes "client_ok env keys s" "cc_refreshInFlight (sy_client s) = Some operation"
  shows "\<exists>ev s'. client_step env s ev s'
     \<and> ((\<exists>r. sy_settled s' = (operation, r) # sy_settled s) \<or> cc_refreshInFlight (sy_client s') = None)"
proof (cases "map_of (sy_settled s) operation")
  case None
  with assms have "operation \<in> set (sy_running s)" by (simp add: client_ok_def)
  moreover obtain r c where "refresh_once env (Inl (Error [])) (num 0) (sy_client s) = (r, c)" by (rule prod.exhaust)
  ultimately show ?thesis using client_step.response_read by fastforce
next
  case (Some r)
  with assms(2) show ?thesis
    using client_step.settlement_seen [of s operation env] by (fastforce simp: clear_in_flight_def)
qed

text \<open>A step changes what the client holds only by installing what it has just verified.\<close>

lemma step_snapshot:
  assumes "client_step env s ev s'" "cc_snapshot (sy_client s') \<noteq> cc_snapshot (sy_client s)"
  shows "\<exists>operation response now snap. ev = ResponseRead operation (Inr response) now
     \<and> installs env (cc_trustedKeys (sy_client s)) response now snap
     \<and> cc_snapshot (sy_client s') = Some snap \<and> sy_settled s' = (operation, Inr (Updated snap)) # sy_settled s"
  using assms(1)
proof cases
  case (called operation started c)
  with assms(2) show ?thesis by (auto simp: refresh_def split: option.splits)
next
  case (response_read operation fetched now r c)
  note client = refresh_client [of env fetched now "sy_client s", unfolded response_read(4) fst_conv snd_conv]
  show ?thesis
  proof (cases "\<exists>snap. r = Inr (Updated snap)")
    case True
    then obtain snap where "r = Inr (Updated snap)" by blast
    with response_read client refresh_updated [of env fetched now "sy_client s" snap c] show ?thesis by auto
  next
    case False
    with client have "c = sy_client s" by (auto split: sum.splits refresh_result.splits)
    with assms(2) response_read show ?thesis by simp
  qed
next
  case (settlement_seen operation)
  with assms(2) show ?thesis by (simp add: clear_in_flight_def split: if_splits)
qed

text \<open>C26: A fail-closed, single-flight client. However calls, responses and settlements interleave, the
  snapshot is absent or a bundle that a trusted key signed, under the ETag of its version; so is
  every snapshot a promise settled with; no step changes the snapshot but the reading of a response
  that verified, which installs its bundle and settles with it, so that the snapshot is kept through
  every failure and never lost; at most one operation runs; and a promise in flight is running or has
  settled, so there is a step that settles or clears it.\<close>

theorem client_fail_closed:
  assumes "client_reachable env keys s"
  shows "(case cc_snapshot (sy_client s) of None \<Rightarrow> True | Some snap \<Rightarrow> snapshot_ok env keys snap)
     \<and> (\<forall>operation x. map_of (sy_settled s) operation = Some (Inr x) \<longrightarrow> snapshot_ok env keys (result_snapshot x))
     \<and> (\<forall>ev s'. client_step env s ev s' \<longrightarrow> cc_snapshot (sy_client s') \<noteq> cc_snapshot (sy_client s) \<longrightarrow>
          (\<exists>operation response now snap. ev = ResponseRead operation (Inr response) now \<and> installs env keys response now snap
             \<and> cc_snapshot (sy_client s') = Some snap \<and> sy_settled s' = (operation, Inr (Updated snap)) # sy_settled s))
     \<and> length (sy_running s) \<le> 1
     \<and> (\<forall>operation. cc_refreshInFlight (sy_client s) = Some operation \<longrightarrow>
          (sy_running s = [operation] \<or> map_of (sy_settled s) operation \<noteq> None)
          \<and> (\<exists>ev s'. client_step env s ev s'
               \<and> ((\<exists>r. sy_settled s' = (operation, r) # sy_settled s) \<or> cc_refreshInFlight (sy_client s') = None)))"
proof -
  have ok: "client_ok env keys s" by (rule reachable_client_ok [OF assms])
  then have "\<forall>operation x. map_of (sy_settled s) operation = Some (Inr x) \<longrightarrow> snapshot_ok env keys (result_snapshot x)"
    by (fastforce simp: client_ok_def dest: map_of_SomeD)
  moreover have "cc_trustedKeys (sy_client s) = keys" using ok by (simp add: client_ok_def)
  note step_snapshot [of env s, unfolded this]
  ultimately show ?thesis using ok in_flight_moves [OF ok]
    by (intro conjI allI impI) (auto simp: client_ok_def split: option.split if_splits)
qed

section \<open>A published bundle is installed\<close>

lemma well_formed_append: "well_formed_text s \<Longrightarrow> well_formed_text t \<Longrightarrow> well_formed_text (s @ t)"
proof (induction s rule: well_formed_text.induct)
  case (2 c)
  then show ?case by (cases t) auto
next
  case (3 c d s)
  then show ?case by (cases s) (auto split: if_splits)
qed simp

lemma well_formed_ascii: "ascii_text s \<Longrightarrow> well_formed_text s"
proof (induction s rule: well_formed_text.induct)
  case (3 c d s)
  then show ?case by (auto simp: ascii_text_def)
qed (auto simp: ascii_text_def)

lemma well_formed_plain: "c < 65536 \<Longrightarrow> well_formed_text (plain_char_text c)"
proof -
  have "hex_digit (n mod 16) < 128" for n :: nat
    using mod_less_divisor [of 16 n] unfolding hex_digit_def by (auto simp del: mod_less_divisor)
  then have "ascii_text (unit_escape c)" by (simp add: unit_escape_def ascii_text_def)
  then show "c < 65536 \<Longrightarrow> well_formed_text (plain_char_text c)"
    using well_formed_ascii by (auto simp: plain_char_text_def)
qed

lemma well_formed_string: "list_all (\<lambda>c. c < 65536) s \<Longrightarrow> well_formed_text (string_text s)"
proof -
  assume "list_all (\<lambda>c. c < 65536) s"
  then have "well_formed_text (string_chars s)"
  proof (induction s rule: string_chars.induct)
    case (3 c d s)
    then show ?case by (auto intro: well_formed_append well_formed_plain)
  qed (simp_all add: well_formed_plain)
  then have "well_formed_text ([34] @ string_chars s @ [34])"
    by (intro well_formed_append) simp_all
  then show ?thesis by (simp add: string_text_def)
qed

lemma well_formed_join: "list_all well_formed_text ws \<Longrightarrow> well_formed_text (join_with [44] ws)"
proof (induction "[44 :: nat]" ws rule: join_with.induct)
  case (3 w v ws)
  then have "well_formed_text (w @ [44] @ join_with [44] (v # ws))"
    by (intro well_formed_append) auto
  then show ?case by simp
qed auto

lemma well_formed_json: "json_ok v \<Longrightarrow> well_formed_text (json_text v)"
proof (induction v rule: json_text.induct)
  case (3 x)
  then have "is_finite x" by (cases x) auto
  with plain_ascii_number [of x] show ?case
    by (auto simp: plain_ascii_def ascii_text_def list_all_iff intro!: well_formed_ascii)
next
  case (4 s)
  then show ?case by (simp add: well_formed_string)
next
  case (5 vs)
  then have "well_formed_text ([91] @ join_with [44] (map json_text vs) @ [93])"
    by (intro well_formed_append well_formed_join) (auto simp: list_all_iff)
  then show ?case by simp
next
  case (6 ms)
  have "well_formed_text (string_text (fst kv) @ [58] @ json_text (snd kv))" if "kv \<in> set ms" for kv
  proof -
    have "json_ok (snd kv)" "list_all (\<lambda>c. c < 65536) (fst kv)" using 6(2) that by (auto simp: list_all_iff)
    with 6(1) [OF that] show ?thesis by (intro well_formed_append well_formed_string) auto
  qed
  then have "well_formed_text ([123] @ join_with [44] (map (\<lambda>kv. string_text (fst kv) @ 58 # json_text (snd kv)) ms) @ [125])"
    by (intro well_formed_append well_formed_join) (auto simp: list_all_iff)
  then show ?case by simp
qed (auto intro!: well_formed_ascii simp: js_def ascii_text_def)

text \<open>A JSON text sent as UTF-8 is received as the value it was made of.\<close>

lemma response_json_round_trip:
  assumes "json_ok v" "read_body (res_body response) = Inr (utf8_encode (json_text v))"
  shows "response_json response = Some v"
proof -
  from json_text_Cons [OF assms(1)] have "hd (json_text v) \<noteq> 65279" by auto
  with text_round_trip [OF well_formed_json [OF assms(1)]] json_round_trip [OF assms(1)] assms(2) show ?thesis
    by (simp add: response_json_def)
qed

text \<open>C36: Publication. A well-formed envelope that a trusted key signed, published as JSON text in
  UTF-8 under the ETag of its version, is installed by the next refresh, member for member, whatever
  the client held before.\<close>

theorem published_bundle_installed:
  assumes "envelope_ok (ce_engine env) (ce_parse_url env) e" "signature_valid (ce_crypto env) (cc_trustedKeys c) e"
    and "json_ok (envelope_json e)"
    and "res_ok response" "media_type (res_headers response) = Some (js ''application/json'')"
    and "header_get (res_headers response) (js ''etag'') = Some (expected_etag (e_bundle e))"
    and "read_body (res_body response) = Inr (utf8_encode (json_text (envelope_json e)))"
  shows "refresh_once env (Inr response) now c =
     (let s = \<lparr>cs_bundle = e_bundle e, cs_etag = expected_etag (e_bundle e), cs_loadedAt = now\<rparr> in
      (Inr (Updated s), c\<lparr>cc_snapshot := Some s\<rparr>))"
proof -
  have "response_json response = Some (envelope_json e)" by (rule response_json_round_trip [OF assms(3,7)])
  moreover have "verify_bundle_envelope (ce_engine env) (ce_parse_url env) (ce_crypto env) (cc_trustedKeys c)
      (envelope_json e) = Inr e"
    using envelope_write [OF assms(1)] assms(2) by (simp add: verify_envelope_Inr)
  ultimately have "installs env (cc_trustedKeys c) response now
      \<lparr>cs_bundle = e_bundle e, cs_etag = expected_etag (e_bundle e), cs_loadedAt = now\<rparr>"
    using assms(4-6) by (simp add: installs_def)
  then show ?thesis by (simp add: refresh_updated Let_def)
qed

section \<open>Witnesses\<close>

text \<open>A signed bundle with one route, an environment that verifies it, and its publication.\<close>

definition demo_world :: "nat config_env" where
  "demo_world = \<lparr>ce_engine = \<lambda>p f. Some (\<lambda>s. if s = js ''/a'' then Some [Some s] else None),
     ce_parse_url = \<lambda>s. Some \<lparr>u_protocol = js ''https:'', u_username = [], u_password = [], u_hostname = js ''up.test'',
       u_host = js ''up.test'', u_port = [], u_pathname = js ''/'', u_search = [], u_hash = []\<rparr>,
     ce_crypto = \<lparr>import_spki = \<lambda>b. Some 0, export_raw = \<lambda>k. Some [], sha256 = \<lambda>b. replicate 32 0,
       ed25519_verify = \<lambda>k s m. Some True, canonicalize = \<lambda>v. Some []\<rparr>\<rparr>"

definition demo_digest :: ustr where "demo_digest = digest_text (ce_crypto demo_world) []"

definition published_route :: compiled_route where
  "published_route = \<lparr>cr_id = js ''r'', cr_match = \<lparr>rm_methods = [js ''GET''], rm_path = js ''/a''\<rparr>,
     cr_upstream = js ''https://up.test'', cr_jwt = None, cr_rateLimit = None, cr_waf = None\<rparr>"

definition published_bundle :: policy_bundle where
  "published_bundle = \<lparr>b_schemaVersion = bundle_schema_version, b_policyName = js ''p'',
     b_defaultDecision = DenyDecision,
     b_matchers = [\<lparr>mm_method = js ''GET'', mm_regex = js ''^(/a)$'', mm_routeIds = [js ''r'']\<rparr>],
     b_routes = [published_route], b_version = demo_digest\<rparr>"

definition published_envelope :: signed_bundle_envelope where
  "published_envelope = \<lparr>e_algorithm = signature_algorithm, e_keyId = demo_digest, e_bundle = published_bundle,
     e_signature = replicate 86 65\<rparr>"

definition published_keys :: trusted_keyring where "published_keys = [(demo_digest, demo_pem)]"

definition published_response :: http_response where
  "published_response = \<lparr>res_status = 200, res_statusText = [], res_headers =
       [(js ''content-type'', js ''application/json; charset=utf-8''), (js ''etag'', expected_etag published_bundle)],
     res_body = Some \<lparr>st_chunks = [utf8_encode (json_text (envelope_json published_envelope))], st_failure = None\<rparr>\<rparr>"

lemma digest_text_pattern: "length (sha256 c b) = 32 \<Longrightarrow> digest_pattern (digest_text c b)"
  using bytes_to_hex_lower [of "sha256 c b"]
  by (simp add: digest_pattern_def digest_text_def starts_with_iff length_bytes_to_hex list_all_iff)

lemma digest_not_blank: "digest_pattern s \<Longrightarrow> trim s \<noteq> []"
  by (auto simp: digest_pattern_def starts_with_iff trim_eq_Nil_iff js_def is_space_def)

lemma demo_digest_ok: "digest_pattern demo_digest" "trim demo_digest \<noteq> []"
proof -
  show "digest_pattern demo_digest"
    unfolding demo_digest_def by (rule digest_text_pattern) (simp add: demo_world_def)
  then show "trim demo_digest \<noteq> []" by (rule digest_not_blank)
qed

lemma demo_not_blank: "trim (js ''p'') \<noteq> []" "trim (js ''r'') \<noteq> []" "trim (js ''/a'') \<noteq> []" "trim (js ''GET'') \<noteq> []"
  "trim (js ''^(/a)$'') \<noteq> []" "trim (js ''https://up.test'') \<noteq> []"
  by (simp_all add: trim_eq_Nil_iff js_def is_space_def)

lemma published_ok: "envelope_ok (ce_engine demo_world) (ce_parse_url demo_world) published_envelope"
proof -
  have g: "method_pattern (js ''GET'')" by (simp add: method_pattern_def js_def is_upper_def)
  have u: "url_ok (ce_parse_url demo_world) False (js ''https://up.test'')"
    using demo_not_blank by (simp add: url_ok_def demo_world_def uses_secure_transport_def)
  have r: "route_ok (ce_parse_url demo_world) published_route"
    using u g demo_not_blank
    by (simp add: route_ok_def published_route_def route_match_ok_def strings_ok_def starts_with_def js_def)
  have "bundle_ok (ce_engine demo_world) (ce_parse_url demo_world) published_bundle"
    using r g demo_not_blank demo_digest_ok
    by (simp add: bundle_ok_def published_bundle_def matcher_ok_def strings_ok_def) (simp add: demo_world_def)
  moreover have "signature_pattern (replicate 86 65)" "trim (replicate 86 65) \<noteq> []"
    by (simp_all add: signature_pattern_def base64url_char_def is_upper_def trim_eq_Nil_iff is_space_def list_all_iff)
  ultimately show ?thesis
    using demo_digest_ok by (simp add: envelope_ok_def published_envelope_def)
qed

lemma demo_pem_decodes: "\<exists>spki. decode_public_key_pem demo_pem = Inr spki"
proof -
  have t: "trim demo_pem = demo_pem"
    by (intro trim_id) (simp_all add: demo_pem_def pem_header_def pem_footer_def js_def is_space_def)
  have "pem_group demo_pem = Some (js ''AAAA'')"
    by (simp add: pem_group_def demo_pem_def starts_with_iff ends_with_iff js_def pem_char_def is_upper_def Let_def)
  moreover have "filter (\<lambda>c. \<not> is_space c) (js ''AAAA'') = js ''AAAA''" by (simp add: js_def is_space_def)
  moreover have "\<exists>b. decode_base64 (js ''AAAA'') = Inr b"
    by (simp add: decode_base64_def atob_def strip_padding_def ends_with_def ascii_blank_def sextet_def is_upper_def
        js_def Let_def)
  ultimately show ?thesis by (simp add: decode_public_key_pem_def t)
qed

lemma published_signed: "signature_valid (ce_crypto demo_world) published_keys published_envelope"
proof -
  obtain spki where "decode_public_key_pem demo_pem = Inr spki" using demo_pem_decodes by blast
  moreover obtain sig where "decode_base64url (replicate 86 65) = Inr sig"
    using signature_bytes [of "replicate 86 65"] published_ok by (auto simp: envelope_ok_def published_envelope_def)
  moreover have "digest_text (ce_crypto demo_world) b = demo_digest" for b
    by (simp add: demo_digest_def digest_text_inject) (simp add: demo_world_def)
  ultimately show ?thesis
    by (simp add: signature_valid_def published_envelope_def published_keys_def published_bundle_def canonical_bytes_def)
      (simp add: demo_world_def)
qed

lemma units_lower_hex: "list_all is_lower_hex s \<Longrightarrow> list_all (\<lambda>c. c < 65536) s"
  by (auto simp: list_all_iff is_lower_hex_def is_digit_def)

lemma demo_digest_units: "list_all (\<lambda>c. c < 65536) demo_digest"
  using units_lower_hex [OF bytes_to_hex_lower] by (simp add: demo_digest_def digest_text_def)

lemma published_json_ok: "json_ok (envelope_json published_envelope)"
  using demo_digest_units
  by (simp add: envelope_json_def bundle_json_def unversioned_members_def matcher_json_def route_json_def
      route_match_json_def strings_json_def published_envelope_def published_bundle_def published_route_def
      bundle_schema_version_def signature_algorithm_def own_order_names all_digits_js is_digit_def map_ok_def)
    (simp add: list_all_iff)

text \<open>The response, and the client it is installed in.\<close>

lemma published_response_ok:
  "res_ok published_response" "media_type (res_headers published_response) = Some (js ''application/json'')"
  "header_get (res_headers published_response) (js ''etag'') = Some (expected_etag published_bundle)"
  "read_body (res_body published_response) = Inr (utf8_encode (json_text (envelope_json published_envelope)))"
proof -
  have "hd (split_at 59 (js ''application/json; charset=utf-8'')) = js ''application/json''" by (simp add: js_def)
  moreover have "trim (js ''application/json'') = js ''application/json''"
    by (rule trim_id) (simp_all add: js_def is_space_def)
  moreover have "to_lower (js ''application/json'') = js ''application/json''"
    by (rule to_lower_ascii) (simp add: js_def is_upper_def)
  ultimately have "to_lower (trim (hd (split_at 59 (js ''application/json; charset=utf-8'')))) = js ''application/json''"
    by simp
  then show "media_type (res_headers published_response) = Some (js ''application/json'')"
    by (simp add: media_type_def header_get_def header_values_def published_response_def to_lower_ascii js_def is_upper_def)
  show "header_get (res_headers published_response) (js ''etag'') = Some (expected_etag published_bundle)"
    by (simp add: header_get_def header_values_def published_response_def to_lower_ascii js_def is_upper_def)
qed (simp_all add: res_ok_def published_response_def read_body_def)

definition demo_client :: config_client where
  "demo_client = \<lparr>cc_bundleUrl = resolve_path ''/v1/bundle'' (the (ce_parse_url demo_world [])),
     cc_trustedKeys = published_keys, cc_snapshot = None, cc_refreshInFlight = None\<rparr>"

definition published_snapshot :: config_snapshot where
  "published_snapshot = \<lparr>cs_bundle = published_bundle, cs_etag = expected_etag published_bundle, cs_loadedAt = num 5\<rparr>"

lemma published_installed:
  "refresh_once demo_world (Inr published_response) (num 5) (demo_client\<lparr>cc_refreshInFlight := q\<rparr>)
     = (Inr (Updated published_snapshot), demo_client\<lparr>cc_refreshInFlight := q, cc_snapshot := Some published_snapshot\<rparr>)"
proof -
  have "installs demo_world published_keys published_response (num 5) published_snapshot"
    using published_response_ok response_json_round_trip [OF published_json_ok, of published_response]
      envelope_write [OF published_ok] published_signed
    by (simp add: installs_def verify_envelope_Inr published_snapshot_def) (simp add: published_envelope_def)
  then show ?thesis by (simp add: refresh_updated demo_client_def)
qed

theorem published_bundle_installed_witness:
  "refresh_once demo_world (Inr published_response) (num 5) demo_client
     = (Inr (Updated published_snapshot), demo_client\<lparr>cc_snapshot := Some published_snapshot\<rparr>)"
proof -
  have "cc_trustedKeys demo_client = published_keys" "e_bundle published_envelope = published_bundle"
    by (simp_all add: demo_client_def published_envelope_def)
  with published_bundle_installed [of demo_world published_envelope demo_client published_response "num 5"]
    published_ok published_signed published_json_ok published_response_ok
  show ?thesis by (simp add: published_snapshot_def Let_def)
qed

text \<open>A call, its response and its settlement.\<close>

definition loaded_system :: client_system where
  "loaded_system = \<lparr>sy_client = demo_client\<lparr>cc_refreshInFlight := Some 0, cc_snapshot := Some published_snapshot\<rparr>,
     sy_running = [], sy_settled = [(0, Inr (Updated published_snapshot))], sy_next = 1\<rparr>"

lemma loaded_reachable: "client_reachable demo_world published_keys loaded_system"
proof -
  define s0 where "s0 = initial_system demo_client"
  define s1 where "s1 = s0\<lparr>sy_client := demo_client\<lparr>cc_refreshInFlight := Some 0\<rparr>, sy_running := [0], sy_next := 1\<rparr>"
  have "new_config_client (ce_parse_url demo_world) [] published_keys = Inr demo_client"
    by (simp add: new_config_client_def demo_client_def demo_world_def)
  then have r0: "client_reachable demo_world published_keys s0" unfolding s0_def by (rule client_reachable.start)
  have "client_step demo_world s0 RefreshCalled s1"
    using client_step.called [of s0 0 True "demo_client\<lparr>cc_refreshInFlight := Some 0\<rparr>" demo_world]
    by (simp add: s0_def s1_def initial_system_def refresh_def demo_client_def)
  with r0 have r1: "client_reachable demo_world published_keys s1" by (rule client_reachable.step)
  have "client_step demo_world s1 (ResponseRead 0 (Inr published_response) (num 5)) loaded_system"
    using client_step.response_read [of 0 s1 demo_world "Inr published_response" "num 5"] published_installed [of "Some 0"]
    by (simp add: s0_def s1_def initial_system_def loaded_system_def)
  with r1 show ?thesis by (rule client_reachable.step)
qed

theorem client_fail_closed_witness:
  "snapshot_ok demo_world published_keys published_snapshot \<and> cc_snapshot (sy_client loaded_system) = Some published_snapshot"
  using client_fail_closed [OF loaded_reachable] by (simp add: loaded_system_def)

end
