(* ===== verification/RouteMatcher.thy ===== *)
theory RouteMatcher imports BundleTypes begin

text \<open>
  Routing (\<open>edge/src/route-matcher.ts\<close>): the tables built from a bundle and the resolution of a
  method and a path. The regular expression engine is an argument.
\<close>

section \<open>State and construction\<close>

record runtime_matcher =
  rtm_regex :: regexp
  rtm_routeIds :: "ustr list"

record route_matcher =
  rt_defaultDecision :: default_decision
  rt_routesById :: "compiled_route js_map"
  rt_matchersByMethod :: "runtime_matcher js_map"

fun index_routes :: "compiled_route js_map \<Rightarrow> compiled_route list \<Rightarrow> compiled_route js_map result" where
  "index_routes m [] = Inr m"
| "index_routes m (r # rs) =
     (if map_of m (cr_id r) \<noteq> None
      then Inl (RouteMatcherError (js ''duplicate route ID: '' @ cr_id r))
      else index_routes (AList.update (cr_id r) r m) rs)"

fun unknown_route :: "compiled_route js_map \<Rightarrow> ustr list \<Rightarrow> ustr option" where
  "unknown_route m [] = None"
| "unknown_route m (i # is) = (if map_of m i = None then Some i else unknown_route m is)"

fun index_matchers ::
  "regexp_engine \<Rightarrow> compiled_route js_map \<Rightarrow> runtime_matcher js_map \<Rightarrow> method_matcher list \<Rightarrow>
     runtime_matcher js_map result" where
  "index_matchers engine routes m [] = Inr m"
| "index_matchers engine routes m (x # xs) =
     (if map_of m (mm_method x) \<noteq> None
      then Inl (RouteMatcherError (js ''duplicate matcher method: '' @ mm_method x))
      else if \<not> starts_with (js ''^'') (mm_regex x) \<or> \<not> ends_with (js ''$'') (mm_regex x)
      then Inl (RouteMatcherError (js ''matcher for '' @ mm_method x @ js '' must be anchored''))
      else (case unknown_route routes (mm_routeIds x) of
          Some i \<Rightarrow> Inl (RouteMatcherError (js ''matcher references unknown route: '' @ i))
        | None \<Rightarrow>
            (case engine (mm_regex x) [] of
               None \<Rightarrow> Inl (SyntaxError (mm_regex x))
             | Some regex \<Rightarrow>
                 index_matchers engine routes
                   (AList.update (mm_method x) \<lparr>rtm_regex = regex, rtm_routeIds = mm_routeIds x\<rparr> m) xs)))"

definition new_route_matcher :: "regexp_engine \<Rightarrow> policy_bundle \<Rightarrow> route_matcher result" where
  "new_route_matcher engine b =
     bind_result (index_routes [] (b_routes b)) (\<lambda>routes.
     bind_result (index_matchers engine routes [] (b_matchers b)) (\<lambda>matchers.
       Inr \<lparr>rt_defaultDecision = b_defaultDecision b, rt_routesById = routes, rt_matchersByMethod = matchers\<rparr>))"

section \<open>Resolution\<close>

datatype route_resolution = Matched compiled_route | DefaultResolution default_decision

text \<open>The loop over the route ids: \<open>match[index + 1]\<close> is \<open>undefined\<close> past the last group too.\<close>

fun first_participating :: "ustr option list \<Rightarrow> ustr list \<Rightarrow> ustr option" where
  "first_participating groups [] = None"
| "first_participating [] (i # is) = None"
| "first_participating (None # gs) (i # is) = first_participating gs is"
| "first_participating (Some g # gs) (i # is) = Some i"

definition resolve :: "route_matcher \<Rightarrow> ustr \<Rightarrow> ustr \<Rightarrow> route_resolution result" where
  "resolve rt method path =
     (let normalizedMethod = to_upper method in
      case map_of (rt_matchersByMethod rt) normalizedMethod of
        None \<Rightarrow> Inr (DefaultResolution (rt_defaultDecision rt))
      | Some matcher \<Rightarrow>
          (case rtm_regex matcher path of
             None \<Rightarrow> Inr (DefaultResolution (rt_defaultDecision rt))
           | Some groups \<Rightarrow>
               (case first_participating groups (rtm_routeIds matcher) of
                  None \<Rightarrow> Inl (RouteMatcherError
                    (js ''matcher for '' @ normalizedMethod @ js '' matched without identifying a route''))
                | Some routeId \<Rightarrow>
                    (case map_of (rt_routesById rt) routeId of
                       None \<Rightarrow> Inl (RouteMatcherError (js ''matched route is unavailable: '' @ routeId))
                     | Some route \<Rightarrow> Inr (Matched route)))))"

section \<open>The tables\<close>

lemma index_routes_ok:
  "index_routes m rs = Inr m' \<Longrightarrow>
     map_of m' i = (case map_of m i of Some r \<Rightarrow> Some r | None \<Rightarrow> find (\<lambda>r. cr_id r = i) rs)"
proof (induction m rs rule: index_routes.induct)
  case (2 m r rs)
  then have "map_of m (cr_id r) = None" "index_routes (AList.update (cr_id r) r m) rs = Inr m'"
    by (auto split: if_splits)
  with "2.IH" show ?case by (cases "map_of m i") auto
qed (auto split: option.splits)

lemma index_routes_distinct:
  "index_routes m rs = Inr m' \<Longrightarrow> distinct (map cr_id rs) \<and> (\<forall>r \<in> set rs. map_of m (cr_id r) = None)"
proof (induction m rs rule: index_routes.induct)
  case (2 m r rs)
  then have "map_of m (cr_id r) = None" "index_routes (AList.update (cr_id r) r m) rs = Inr m'"
    by (auto split: if_splits)
  with "2.IH" show ?case by (auto split: if_splits)
qed auto

lemma unknown_route_None: "unknown_route m is = None \<longleftrightarrow> (\<forall>i \<in> set is. map_of m i \<noteq> None)"
  by (induction "is") auto

definition anchored :: "ustr \<Rightarrow> bool" where
  "anchored r \<longleftrightarrow> starts_with (js ''^'') r \<and> ends_with (js ''$'') r"

lemma index_matchers_step:
  "index_matchers engine routes m (x # xs) = Inr m' \<Longrightarrow>
     map_of m (mm_method x) = None \<and> anchored (mm_regex x) \<and> (\<forall>i \<in> set (mm_routeIds x). map_of routes i \<noteq> None)
     \<and> (\<exists>r. engine (mm_regex x) [] = Some r
          \<and> index_matchers engine routes
               (AList.update (mm_method x) \<lparr>rtm_regex = r, rtm_routeIds = mm_routeIds x\<rparr> m) xs = Inr m')"
  by (auto simp: unknown_route_None anchored_def split: if_splits option.splits)

lemma index_matchers_ok:
  "index_matchers engine routes m xs = Inr m' \<Longrightarrow>
     map_of m' method = (case map_of m method of Some x \<Rightarrow> Some x
       | None \<Rightarrow> (case find (\<lambda>x. mm_method x = method) xs of None \<Rightarrow> None
           | Some x \<Rightarrow> map_option (\<lambda>r. \<lparr>rtm_regex = r, rtm_routeIds = mm_routeIds x\<rparr>) (engine (mm_regex x) [])))"
proof (induction xs arbitrary: m)
  case (Cons x xs)
  from index_matchers_step [OF Cons.prems] obtain r where "map_of m (mm_method x) = None"
    "engine (mm_regex x) [] = Some r"
    "index_matchers engine routes (AList.update (mm_method x) \<lparr>rtm_regex = r, rtm_routeIds = mm_routeIds x\<rparr> m) xs = Inr m'"
    by blast
  with Cons.IH show ?case by (cases "map_of m method") auto
qed (auto split: option.splits)

lemma index_matchers_valid:
  "index_matchers engine routes m xs = Inr m' \<Longrightarrow>
     \<forall>x \<in> set xs. anchored (mm_regex x) \<and> (\<forall>i \<in> set (mm_routeIds x). map_of routes i \<noteq> None)"
proof (induction xs arbitrary: m)
  case (Cons x xs)
  from index_matchers_step [OF Cons.prems] Cons.IH show ?case by fastforce
qed simp

lemma first_participating_iff:
  "first_participating groups is = Some i \<longleftrightarrow>
     (\<exists>k < length is. is ! k = i \<and> k < length groups \<and> groups ! k \<noteq> None \<and> (\<forall>j < k. groups ! j = None))"
  by (induction groups "is" rule: first_participating.induct) (auto simp: Ex_less_Suc2 All_less_Suc2)

section \<open>Property\<close>

lemma new_matcher_parts:
  assumes "new_route_matcher engine b = Inr rt"
  shows "rt_defaultDecision rt = b_defaultDecision b"
    and "map_of (rt_routesById rt) i = find (\<lambda>r. cr_id r = i) (b_routes b)"
    and "map_of (rt_matchersByMethod rt) m = (case find (\<lambda>x. mm_method x = m) (b_matchers b) of None \<Rightarrow> None
       | Some x \<Rightarrow> map_option (\<lambda>r. \<lparr>rtm_regex = r, rtm_routeIds = mm_routeIds x\<rparr>) (engine (mm_regex x) []))"
    and "x \<in> set (b_matchers b) \<Longrightarrow> i \<in> set (mm_routeIds x) \<Longrightarrow> find (\<lambda>r. cr_id r = i) (b_routes b) \<noteq> None"
    and "distinct (map cr_id (b_routes b))"
proof -
  from assms have d: "rt_defaultDecision rt = b_defaultDecision b"
    and r: "index_routes [] (b_routes b) = Inr (rt_routesById rt)"
    and m: "index_matchers engine (rt_routesById rt) [] (b_matchers b) = Inr (rt_matchersByMethod rt)"
    by (auto simp: new_route_matcher_def bind_result_Inr)
  show "rt_defaultDecision rt = b_defaultDecision b" by (rule d)
  show R: "map_of (rt_routesById rt) i = find (\<lambda>r. cr_id r = i) (b_routes b)" for i
    using index_routes_ok [OF r] by simp
  show "map_of (rt_matchersByMethod rt) m = (case find (\<lambda>x. mm_method x = m) (b_matchers b) of None \<Rightarrow> None
       | Some x \<Rightarrow> map_option (\<lambda>r. \<lparr>rtm_regex = r, rtm_routeIds = mm_routeIds x\<rparr>) (engine (mm_regex x) []))"
    using index_matchers_ok [OF m, of m] index_matchers_ok [OF m] by simp
  show "x \<in> set (b_matchers b) \<Longrightarrow> i \<in> set (mm_routeIds x) \<Longrightarrow> find (\<lambda>r. cr_id r = i) (b_routes b) \<noteq> None"
    using index_matchers_valid [OF m] R by auto
  show "distinct (map cr_id (b_routes b))" using index_routes_distinct [OF r] by simp
qed

text \<open>
  Routing as the bundle describes it: the matcher of the upper-case method; of its routes the one in
  the first position whose capture group took part in the match, every group before it having taken
  no part; the default decision where there is no matcher or no match; an error where there is a match
  but no such position.
\<close>

definition takes_part :: "ustr option list \<Rightarrow> ustr list \<Rightarrow> nat \<Rightarrow> bool" where
  "takes_part groups routeIds k \<longleftrightarrow>
     k < length routeIds \<and> k < length groups \<and> groups ! k \<noteq> None \<and> (\<forall>j < k. groups ! j = None)"

definition routing_spec :: "regexp_engine \<Rightarrow> policy_bundle \<Rightarrow> ustr \<Rightarrow> ustr \<Rightarrow> route_resolution result \<Rightarrow> bool" where
  "routing_spec engine b method path res =
     (case find (\<lambda>x. mm_method x = to_upper method) (b_matchers b) of
        None \<Rightarrow> res = Inr (DefaultResolution (b_defaultDecision b))
      | Some x \<Rightarrow>
          (case engine (mm_regex x) [] of None \<Rightarrow> False
           | Some r \<Rightarrow>
               (case r path of None \<Rightarrow> res = Inr (DefaultResolution (b_defaultDecision b))
                | Some groups \<Rightarrow>
                    (\<exists>k route. takes_part groups (mm_routeIds x) k
                       \<and> find (\<lambda>r. cr_id r = mm_routeIds x ! k) (b_routes b) = Some route \<and> res = Inr (Matched route))
                    \<or> (\<forall>k. \<not> takes_part groups (mm_routeIds x) k)
                       \<and> res = Inl (RouteMatcherError
                           (js ''matcher for '' @ to_upper method @ js '' matched without identifying a route'')))))"

lemma first_participating_takes_part:
  "first_participating groups is = Some i \<longleftrightarrow> (\<exists>k. takes_part groups is k \<and> is ! k = i)"
  by (auto simp: first_participating_iff takes_part_def)

lemma matcher_regex_compiles:
  assumes "index_matchers engine routes m xs = Inr m'" "x \<in> set xs"
  shows "engine (mm_regex x) [] \<noteq> None"
  using assms
proof (induction xs arbitrary: m)
  case (Cons y ys)
  from index_matchers_step [OF Cons.prems(1)] Cons.IH Cons.prems(2) show ?case by fastforce
qed simp

lemma resolve_routing:
  assumes "new_route_matcher engine b = Inr rt"
  shows "routing_spec engine b method path (resolve rt method path)"
proof (cases "find (\<lambda>x. mm_method x = to_upper method) (b_matchers b)")
  case None
  with new_matcher_parts [OF assms] show ?thesis by (simp add: routing_spec_def resolve_def)
next
  case (Some x)
  then have x: "x \<in> set (b_matchers b)" by (auto simp: find_Some_iff)
  from assms obtain routes where "index_matchers engine routes [] (b_matchers b) = Inr (rt_matchersByMethod rt)"
    by (auto simp: new_route_matcher_def bind_result_Inr)
  from matcher_regex_compiles [OF this x] obtain r where r: "engine (mm_regex x) [] = Some r" by blast
  note P = new_matcher_parts [OF assms]
  show ?thesis
  proof (cases "r path")
    case None
    with Some r P(1) P(3) [of "to_upper method"] show ?thesis by (simp add: routing_spec_def resolve_def)
  next
    case g: (Some groups)
    show ?thesis
    proof (cases "first_participating groups (mm_routeIds x)")
      case None
      then have "\<not> takes_part groups (mm_routeIds x) k" for k
        using first_participating_takes_part [of groups "mm_routeIds x" "mm_routeIds x ! k"] by auto
      with None Some r g P(3) [of "to_upper method"] show ?thesis by (simp add: routing_spec_def resolve_def)
    next
      case i: (Some i)
      then obtain k where k: "takes_part groups (mm_routeIds x) k" "mm_routeIds x ! k = i"
        unfolding first_participating_takes_part by blast
      then have "i \<in> set (mm_routeIds x)" by (auto simp: takes_part_def)
      with P(4) [OF x] obtain route where "find (\<lambda>r. cr_id r = i) (b_routes b) = Some route" by blast
      with Some r g i k P(2) [of i] P(3) [of "to_upper method"] show ?thesis
        by (auto simp: routing_spec_def resolve_def)
    qed
  qed
qed

text \<open>C19: Routing refines the bundle. A matcher built from a bundle resolves every method and path as
  the bundle's matchers say: by the first matcher of the method, to the one route named at the position of
  the first capture group that took part in the match, no group before it having done so; the default
  decision applies exactly when nothing matches; the only exception left is a pattern that matches while
  no group of a route took part, never an unknown route.\<close>

theorem resolve_refines_bundle:
  assumes "new_route_matcher engine b = Inr rt"
  shows "routing_spec engine b method path (resolve rt method path)"
  using assms by (rule resolve_routing)

definition demo_route :: compiled_route where
  "demo_route = \<lparr>cr_id = js ''r'', cr_match = \<lparr>rm_methods = [js ''GET''], rm_path = js ''/''\<rparr>,
     cr_upstream = js ''https://up.test'', cr_jwt = None, cr_rateLimit = None, cr_waf = None\<rparr>"

definition demo_bundle :: policy_bundle where
  "demo_bundle = \<lparr>b_schemaVersion = [], b_policyName = [], b_defaultDecision = DenyDecision,
     b_matchers = [\<lparr>mm_method = js ''GET'', mm_regex = js ''^(a)$'', mm_routeIds = [js ''r'']\<rparr>],
     b_routes = [demo_route], b_version = js ''v1''\<rparr>"

text \<open>An engine whose every expression matches the one path \<open>a\<close>, capturing it.\<close>

definition demo_engine :: regexp_engine where
  "demo_engine p f = Some (\<lambda>s. if s = js ''a'' then Some [Some s] else None)"

definition demo_matcher :: route_matcher where
  "demo_matcher = \<lparr>rt_defaultDecision = DenyDecision, rt_routesById = [(js ''r'', demo_route)],
     rt_matchersByMethod = [(js ''GET'', \<lparr>rtm_regex = \<lambda>s. if s = js ''a'' then Some [Some s] else None,
        rtm_routeIds = [js ''r'']\<rparr>)]\<rparr>"

lemma demo_matcher_new: "new_route_matcher demo_engine demo_bundle = Inr demo_matcher"
proof -
  have "starts_with (js ''^'') (js ''^(a)$'')" "ends_with (js ''$'') (js ''^(a)$'')" by code_simp+
  then show ?thesis
    by (simp add: new_route_matcher_def demo_bundle_def demo_route_def demo_engine_def demo_matcher_def)
qed

lemma demo_upper: "to_upper (js ''get'') = js ''GET''"
  by code_simp

theorem resolve_refines_bundle_witness:
  "routing_spec demo_engine demo_bundle (js ''get'') (js ''a'') (resolve demo_matcher (js ''get'') (js ''a''))
   \<and> resolve demo_matcher (js ''get'') (js ''a'') = Inr (Matched demo_route)"
proof
  show "routing_spec demo_engine demo_bundle (js ''get'') (js ''a'') (resolve demo_matcher (js ''get'') (js ''a''))"
    by (rule resolve_refines_bundle [OF demo_matcher_new])
  show "resolve demo_matcher (js ''get'') (js ''a'') = Inr (Matched demo_route)"
    by (simp add: resolve_def demo_upper demo_matcher_def Let_def)
qed

end
