(* ===== verification/Waf.thy ===== *)
theory Waf imports Http RouteMatcher begin

text \<open>
  The WAF rules of a route (\<open>edge/src/waf.ts\<close>). A rule's expression is compiled once; since the
  only flag a rule may carry is \<open>i\<close>, \<open>test\<close> keeps no state between calls.
\<close>

record waf_request_input =
  wi_path :: ustr
  wi_query :: ustr
  wi_headers :: headers
  wi_body :: "ustr option"

record waf_rule_match =
  wm_ruleId :: ustr
  wm_target :: waf_target
  wm_action :: waf_action

record waf_evaluation =
  we_blocked :: bool
  we_matches :: "waf_rule_match list"

type_synonym waf_evaluator = "(waf_rule \<times> regexp) list"

fun compile_rules :: "regexp_engine \<Rightarrow> ustr list \<Rightarrow> waf_rule list \<Rightarrow> waf_evaluator result" where
  "compile_rules engine seenIds [] = Inr []"
| "compile_rules engine seenIds (rule # rules) =
     (if wr_id rule \<in> set seenIds
      then Inl (WafEvaluatorError (js ''duplicate WAF rule ID: '' @ wr_id rule))
      else (case engine (wr_pattern rule) (case wr_flags rule of None \<Rightarrow> [] | Some f \<Rightarrow> f) of
          None \<Rightarrow> Inl (WafEvaluatorError (js ''WAF rule '' @ wr_id rule @ js '' has an invalid pattern''))
        | Some expression \<Rightarrow>
            bind_result (compile_rules engine (wr_id rule # seenIds) rules)
              (\<lambda>compiled. Inr ((rule, expression) # compiled))))"

definition new_waf_evaluator :: "regexp_engine \<Rightarrow> compiled_route \<Rightarrow> waf_evaluator result" where
  "new_waf_evaluator engine route =
     compile_rules engine [] (case cr_waf route of None \<Rightarrow> [] | Some rules \<Rightarrow> rules)"

definition serialize_headers :: "headers \<Rightarrow> ustr" where
  "serialize_headers h = join_with [10] (map (\<lambda>(name, value). name @ js '': '' @ value) (header_entries h))"

fun target_value :: "waf_target \<Rightarrow> waf_request_input \<Rightarrow> ustr \<Rightarrow> ustr" where
  "target_value TargetPath input headerText = wi_path input"
| "target_value TargetQuery input headerText = wi_query input"
| "target_value TargetHeaders input headerText = headerText"
| "target_value TargetBody input headerText = (case wi_body input of None \<Rightarrow> [] | Some b \<Rightarrow> b)"

fun waf_matches :: "waf_request_input \<Rightarrow> ustr \<Rightarrow> waf_evaluator \<Rightarrow> waf_rule_match list" where
  "waf_matches input headerText [] = []"
| "waf_matches input headerText ((rule, expression) # rest) =
     (if expression (target_value (wr_target rule) input headerText) = None
      then waf_matches input headerText rest
      else \<lparr>wm_ruleId = wr_id rule, wm_target = wr_target rule, wm_action = wr_action rule\<rparr>
             # waf_matches input headerText rest)"

definition waf_evaluate :: "waf_evaluator \<Rightarrow> waf_request_input \<Rightarrow> waf_evaluation" where
  "waf_evaluate rules input =
     (let matches = waf_matches input (serialize_headers (wi_headers input)) rules
      in \<lparr>we_blocked = list_ex (\<lambda>m. wm_action m = ActionBlock) matches, we_matches = matches\<rparr>)"

section \<open>Correctness\<close>

text \<open>When a rule of the policy fires on a request, said of the rule itself.\<close>

definition rule_fires :: "regexp_engine \<Rightarrow> waf_request_input \<Rightarrow> waf_rule \<Rightarrow> bool" where
  "rule_fires engine input rule =
     (case engine (wr_pattern rule) (case wr_flags rule of None \<Rightarrow> [] | Some f \<Rightarrow> f) of
        None \<Rightarrow> False
      | Some r \<Rightarrow> r (target_value (wr_target rule) input (serialize_headers (wi_headers input))) \<noteq> None)"

definition match_of :: "waf_rule \<Rightarrow> waf_rule_match" where
  "match_of rule = \<lparr>wm_ruleId = wr_id rule, wm_target = wr_target rule, wm_action = wr_action rule\<rparr>"

lemma compile_rules_matches:
  "compile_rules engine seen rules = Inr compiled \<Longrightarrow>
     waf_matches input (serialize_headers (wi_headers input)) compiled
       = map match_of (filter (rule_fires engine input) rules)"
proof (induction engine seen rules arbitrary: compiled rule: compile_rules.induct)
  case (2 engine seen rule rules)
  then obtain r c where "engine (wr_pattern rule) (case wr_flags rule of None \<Rightarrow> [] | Some f \<Rightarrow> f) = Some r"
    "compile_rules engine (wr_id rule # seen) rules = Inr c" "compiled = (rule, r) # c" "wr_id rule \<notin> set seen"
    by (auto simp: bind_result_Inr split: if_splits option.splits)
  with "2.IH" show ?case by (simp add: rule_fires_def match_of_def)
qed simp

lemma compile_rules_distinct:
  "compile_rules engine seen rules = Inr compiled \<Longrightarrow>
     distinct (map wr_id rules) \<and> set (map wr_id rules) \<inter> set seen = {}"
proof (induction engine seen rules arbitrary: compiled rule: compile_rules.induct)
  case (2 engine seen rule rules)
  then obtain r c where "engine (wr_pattern rule) (case wr_flags rule of None \<Rightarrow> [] | Some f \<Rightarrow> f) = Some r"
    "compile_rules engine (wr_id rule # seen) rules = Inr c" "wr_id rule \<notin> set seen"
    by (auto simp: bind_result_Inr split: if_splits option.splits)
  with "2.IH" show ?case by auto
qed simp

text \<open>C20: WAF exactness. An evaluator built for a route reports exactly the rules of the route that
  fire, in the policy's order, each once; and it blocks exactly when one of them has the action
  \<open>block\<close>, so that a rule that only logs never blocks.\<close>

theorem waf_exact:
  assumes "new_waf_evaluator engine route = Inr rules"
  defines "policy_rules \<equiv> (case cr_waf route of None \<Rightarrow> [] | Some rs \<Rightarrow> rs)"
  shows "we_matches (waf_evaluate rules input) = map match_of (filter (rule_fires engine input) policy_rules)
     \<and> (we_blocked (waf_evaluate rules input)
          \<longleftrightarrow> (\<exists>rule \<in> set policy_rules. wr_action rule = ActionBlock \<and> rule_fires engine input rule))
     \<and> distinct (map wm_ruleId (we_matches (waf_evaluate rules input)))"
proof -
  have c: "compile_rules engine [] policy_rules = Inr rules"
    using assms(1) by (simp add: new_waf_evaluator_def policy_rules_def)
  have m: "we_matches (waf_evaluate rules input) = map match_of (filter (rule_fires engine input) policy_rules)"
    using compile_rules_matches [OF c] by (simp add: waf_evaluate_def Let_def)
  have "we_blocked (waf_evaluate rules input) = list_ex (\<lambda>m. wm_action m = ActionBlock) (we_matches (waf_evaluate rules input))"
    by (simp add: waf_evaluate_def Let_def)
  then have b: "we_blocked (waf_evaluate rules input)
      \<longleftrightarrow> (\<exists>rule \<in> set policy_rules. wr_action rule = ActionBlock \<and> rule_fires engine input rule)"
    unfolding m by (auto simp: list_ex_iff match_of_def)
  have "map wm_ruleId (map match_of qs) = map wr_id qs" for qs by (induction qs) (simp_all add: match_of_def)
  with m compile_rules_distinct [OF c] have "distinct (map wm_ruleId (we_matches (waf_evaluate rules input)))"
    by (metis distinct_map_filter)
  with m b show ?thesis by blast
qed

definition demo_waf_rule :: waf_rule where
  "demo_waf_rule = \<lparr>wr_id = js ''w'', wr_target = TargetQuery, wr_pattern = js ''a'', wr_flags = None,
     wr_action = ActionBlock\<rparr>"

definition demo_waf_route :: compiled_route where
  "demo_waf_route = demo_route\<lparr>cr_waf := Some [demo_waf_rule]\<rparr>"

theorem waf_exact_witness:
  "\<exists>rules. new_waf_evaluator demo_engine demo_waf_route = Inr rules
     \<and> we_blocked (waf_evaluate rules \<lparr>wi_path = [], wi_query = js ''a'', wi_headers = [], wi_body = None\<rparr>)"
proof -
  have r: "new_waf_evaluator demo_engine demo_waf_route
      = Inr [(demo_waf_rule, \<lambda>s. if s = js ''a'' then Some [Some s] else None)]"
    by (simp add: new_waf_evaluator_def demo_waf_route_def demo_waf_rule_def demo_engine_def)
  with waf_exact [OF r] show ?thesis
    by (simp add: demo_waf_route_def demo_waf_rule_def rule_fires_def demo_engine_def)
qed

end
