(* ===== verification/Jwt.thy ===== *)
theory Jwt imports BundleTypes begin

text \<open>
  Bearer tokens (\<open>edge/src/jwt.ts\<close>): the parsing of the authorization header, the cache of key-set
  resolvers, and the options every verification is asked with. Signature and claim checking is
  \<open>jose\<close>'s \<open>jwtVerify\<close>, an argument: it maps a token, a resolver, the options and the state of the
  world to the subject and the verified token, or to \<open>None\<close> where it throws.
\<close>

definition max_token_length :: nat where "max_token_length = 16384"

definition supported_jwt_algorithms :: "ustr list" where
  "supported_jwt_algorithms = [js ''RS256'', js ''PS256'', js ''ES256'', js ''EdDSA'']"

section \<open>The authorization header\<close>

text \<open>The pattern \<open>/^Bearer[ \t]+([^\s]+)$/i\<close>: its one group.\<close>

definition bearer_group :: "ustr \<Rightarrow> ustr option" where
  "bearer_group s =
     (if to_lower (take 6 s) \<noteq> js ''bearer'' then None
      else let blanks = takeWhile (\<lambda>c. c = 32 \<or> c = 9) (drop 6 s);
               rest = dropWhile (\<lambda>c. c = 32 \<or> c = 9) (drop 6 s)
           in if blanks = [] \<or> rest = [] \<or> list_ex is_space rest then None else Some rest)"

definition parse_bearer_token :: "ustr option \<Rightarrow> ustr result" where
  "parse_bearer_token authorization =
     (case authorization of
        None \<Rightarrow> Inl (JwtAuthenticationError (js ''authorization header is required''))
      | Some header \<Rightarrow>
          (case bearer_group (trim header) of
             None \<Rightarrow> Inl (JwtAuthenticationError (js ''authorization header must contain a Bearer token''))
           | Some token \<Rightarrow>
               if length token > max_token_length \<or> length (split_at 46 token) \<noteq> 3
               then Inl (JwtAuthenticationError (js ''Bearer token has an invalid format''))
               else Inr token))"

section \<open>The verifier\<close>

record jwks_resolver =
  jr_url :: ustr
  jr_timeoutDuration :: int
  jr_cooldownDuration :: int
  jr_cacheMaxAge :: int

record jwt_verify_options =
  vo_algorithms :: "ustr list"
  vo_issuer :: ustr
  vo_audience :: "ustr list"
  vo_requiredClaims :: "ustr list"
  vo_clockTolerance :: jsnum

record 'j verified_jwt =
  vj_subject :: "ustr option"
  vj_token :: 'j

record jwt_verifier =
  jv_timeoutDurationMs :: int
  jv_clockToleranceSeconds :: jsnum
  jv_resolvers :: "jwks_resolver js_map"

definition new_jwt_verifier :: "jsnum option \<Rightarrow> jsnum option \<Rightarrow> jwt_verifier result" where
  "new_jwt_verifier timeoutDurationMs clockToleranceSeconds =
     (let t = (case timeoutDurationMs of None \<Rightarrow> num 5000 | Some n \<Rightarrow> n);
          c = (case clockToleranceSeconds of None \<Rightarrow> num 5 | Some n \<Rightarrow> n) in
      if \<not> is_safe_integer t \<or> jle t (num 0)
      then Inl (JwtAuthenticationError (js ''JWKS timeout must be a positive integer''))
      else if \<not> is_finite c \<or> jlt c (num 0)
      then Inl (JwtAuthenticationError (js ''clock tolerance must be non-negative''))
      else Inr \<lparr>jv_timeoutDurationMs = int_of_num t, jv_clockToleranceSeconds = c, jv_resolvers = []\<rparr>)"

text \<open>\<open>#resolverFor\<close>; \<open>valid_url\<close> tells whether \<open>new URL\<close> accepts a text.\<close>

definition resolver_for :: "(ustr \<Rightarrow> bool) \<Rightarrow> ustr \<Rightarrow> jwt_verifier \<Rightarrow> jwks_resolver result \<times> jwt_verifier" where
  "resolver_for valid_url jwksUrl v =
     (case map_of (jv_resolvers v) jwksUrl of
        Some existing \<Rightarrow> (Inr existing, v)
      | None \<Rightarrow>
          if \<not> valid_url jwksUrl then (Inl (TypeError (js ''Invalid URL'')), v)
          else (let resolver = \<lparr>jr_url = jwksUrl, jr_timeoutDuration = jv_timeoutDurationMs v,
                                jr_cooldownDuration = 30000, jr_cacheMaxAge = 600000\<rparr>
                in (Inr resolver, v\<lparr>jv_resolvers := AList.update jwksUrl resolver (jv_resolvers v)\<rparr>)))"

definition verify_options :: "jwt_verifier \<Rightarrow> jwt_policy \<Rightarrow> jwt_verify_options" where
  "verify_options v policy =
     \<lparr>vo_algorithms = supported_jwt_algorithms, vo_issuer = jp_issuer policy, vo_audience = jp_audience policy,
      vo_requiredClaims = [js ''exp''], vo_clockTolerance = jv_clockToleranceSeconds v\<rparr>"

type_synonym ('j, 's) jwt_verify =
  "ustr \<Rightarrow> jwks_resolver \<Rightarrow> jwt_verify_options \<Rightarrow> 's \<Rightarrow> (ustr option \<times> 'j) option \<times> 's"

definition verify_authorization ::
  "(ustr \<Rightarrow> bool) \<Rightarrow> ('j, 's) jwt_verify \<Rightarrow> ustr option \<Rightarrow> jwt_policy \<Rightarrow> jwt_verifier \<times> 's \<Rightarrow>
     'j verified_jwt result \<times> jwt_verifier \<times> 's" where
  "verify_authorization valid_url jwt_verify authorization policy vs =
     (case vs of (v, s) \<Rightarrow>
       (case parse_bearer_token authorization of
          Inl e \<Rightarrow> (Inl e, v, s)
        | Inr token \<Rightarrow>
            (case resolver_for valid_url (jp_jwksUrl policy) v of
               (Inl e, v') \<Rightarrow> (Inl e, v', s)
             | (Inr resolver, v') \<Rightarrow>
                 (case jwt_verify token resolver (verify_options v' policy) s of
                    (None, s') \<Rightarrow> (Inl (JwtAuthenticationError (js ''JWT verification failed'')), v', s')
                  | (Some (subject, token), s') \<Rightarrow>
                      (Inr \<lparr>vj_subject = subject, vj_token = token\<rparr>, v', s')))))"

section \<open>Tokens\<close>

text \<open>A compact JWS in form: three parts without blanks, no longer than the bound.\<close>

definition compact_token :: "ustr \<Rightarrow> bool" where
  "compact_token t \<longleftrightarrow> length t \<le> max_token_length \<and> length (split_at 46 t) = 3 \<and> \<not> list_ex is_space t"

lemma bearer_group_some:
  "bearer_group s = Some t \<Longrightarrow> \<exists>b w. s = b @ w @ t \<and> length b = 6 \<and> to_lower b = js ''bearer''
     \<and> w \<noteq> [] \<and> (\<forall>c \<in> set w. c = 32 \<or> c = 9) \<and> t \<noteq> [] \<and> \<not> list_ex is_space t"
proof -
  assume a: "bearer_group s = Some t"
  define w where "w = takeWhile (\<lambda>c. c = 32 \<or> c = 9) (drop 6 s)"
  have g: "to_lower (take 6 s) = js ''bearer''" "t = dropWhile (\<lambda>c. c = 32 \<or> c = 9) (drop 6 s)"
    "w \<noteq> []" "t \<noteq> []" "\<not> list_ex is_space t"
    using a by (auto simp: bearer_group_def Let_def w_def split: if_splits)
  have "s = take 6 s @ w @ t" by (simp add: g(2) w_def)
  moreover have "length (take 6 s) = 6" using arg_cong [OF g(1), of length] by simp
  moreover have "\<forall>c \<in> set w. c = 32 \<or> c = 9" by (auto simp: w_def dest: set_takeWhileD)
  ultimately show ?thesis using g by blast
qed

lemma bearer_group_iff:
  "bearer_group s = Some t \<longleftrightarrow> (\<exists>b w. s = b @ w @ t \<and> to_lower b = js ''bearer''
     \<and> w \<noteq> [] \<and> (\<forall>c \<in> set w. c = 32 \<or> c = 9) \<and> t \<noteq> [] \<and> \<not> list_ex is_space t)"
proof
  assume "bearer_group s = Some t"
  from bearer_group_some [OF this] show "\<exists>b w. s = b @ w @ t \<and> to_lower b = js ''bearer''
     \<and> w \<noteq> [] \<and> (\<forall>c \<in> set w. c = 32 \<or> c = 9) \<and> t \<noteq> [] \<and> \<not> list_ex is_space t" by blast
next
  assume "\<exists>b w. s = b @ w @ t \<and> to_lower b = js ''bearer''
     \<and> w \<noteq> [] \<and> (\<forall>c \<in> set w. c = 32 \<or> c = 9) \<and> t \<noteq> [] \<and> \<not> list_ex is_space t"
  then obtain b w where s: "s = b @ w @ t" and b: "to_lower b = js ''bearer''" and w: "w \<noteq> []"
    "\<forall>c \<in> set w. c = 32 \<or> c = 9" and t: "t \<noteq> []" "\<not> list_ex is_space t" by blast
  have "length b = 6" using arg_cong [OF b, of length] by simp
  then have d: "take 6 s = b" "drop 6 s = w @ t" by (simp_all add: s)
  have "\<not> (hd t = 32 \<or> hd t = 9)" using t by (cases t) (auto simp: is_space_def)
  then have "takeWhile (\<lambda>c. c = 32 \<or> c = 9) (w @ t) = w" "dropWhile (\<lambda>c. c = 32 \<or> c = 9) (w @ t) = t"
    using w t(1) by (cases t; simp add: takeWhile_append dropWhile_append)+
  with b w t show "bearer_group s = Some t" by (simp add: bearer_group_def d)
qed

definition blank_run :: "ustr \<Rightarrow> bool" where
  "blank_run w \<longleftrightarrow> w \<noteq> [] \<and> list_all (\<lambda>c. c = 32 \<or> c = 9) w"

text \<open>Bearer parsing. A token is accepted from a header exactly when the trimmed header is the word
  \<open>bearer\<close> in any case, blanks or tabs, and that token, and the token is three dot-separated parts of
  at most 16,384 characters in all; every other header, and no header, is an authentication error.\<close>

theorem bearer_exact:
  "parse_bearer_token authorization = Inr t \<longleftrightarrow>
     (\<exists>header b w. authorization = Some header \<and> trim header = b @ w @ t \<and> to_lower b = js ''bearer''
        \<and> blank_run w \<and> t \<noteq> [] \<and> compact_token t)"
proof (cases authorization)
  case None
  then show ?thesis by (simp add: parse_bearer_token_def)
next
  case (Some header)
  then have "parse_bearer_token authorization = Inr t \<longleftrightarrow>
      bearer_group (trim header) = Some t \<and> length t \<le> max_token_length \<and> length (split_at 46 t) = 3"
    by (auto simp: parse_bearer_token_def split: option.splits if_splits)
  then show ?thesis unfolding bearer_group_iff using Some
    by (auto simp: compact_token_def blank_run_def list_all_iff)
qed

text \<open>What the verifier is ever asked, and what it hands on.\<close>

lemma verify_authorization_ok:
  assumes "verify_authorization valid_url jwt_verify authorization policy (v, s) = (Inr jwt, v', s')"
  shows "\<exists>t r. parse_bearer_token authorization = Inr t \<and> fst (resolver_for valid_url (jp_jwksUrl policy) v) = Inr r
     \<and> jwt_verify t r (verify_options v' policy) s = (Some (vj_subject jwt, vj_token jwt), s')"
  using assms
  by (auto simp: verify_authorization_def split: sum.splits prod.splits option.splits)

lemma verify_authorization_parse:
  "parse_bearer_token authorization = Inl e \<Longrightarrow>
     verify_authorization valid_url jwt_verify authorization policy (v, s) = (Inl e, v, s)"
  by (simp add: verify_authorization_def)

text \<open>Every resolver in the cache is for the URL it is kept under.\<close>

definition jwt_verifier_ok :: "jwt_verifier \<Rightarrow> bool" where
  "jwt_verifier_ok v \<longleftrightarrow> (\<forall>u r. map_of (jv_resolvers v) u = Some r \<longrightarrow> jr_url r = u)"

lemma resolver_for_ok:
  "jwt_verifier_ok v \<Longrightarrow> resolver_for valid_url u v = (x, v') \<Longrightarrow>
     jwt_verifier_ok v' \<and> (\<forall>r. x = Inr r \<longrightarrow> jr_url r = u)"
  by (auto simp: resolver_for_def jwt_verifier_ok_def Let_def split: option.splits if_splits)

text \<open>C24: Only the policy's keys and asymmetric algorithms. When the verifier accepts an authorization
  header, \<open>jwtVerify\<close> accepted its token with the key set of the policy's URL, the policy's issuer and
  audience, the four asymmetric algorithms and a required expiry; and its cache of key sets stays
  consistent.\<close>

theorem jwt_verified_by_policy:
  assumes "jwt_verifier_ok v"
    and "verify_authorization valid_url jwt_verify authorization policy (v, s) = (Inr jwt, v', s')"
  shows "jwt_verifier_ok v' \<and> (\<exists>t r opts. parse_bearer_token authorization = Inr t \<and> jr_url r = jp_jwksUrl policy
     \<and> vo_algorithms opts = [js ''RS256'', js ''PS256'', js ''ES256'', js ''EdDSA'']
     \<and> vo_issuer opts = jp_issuer policy \<and> vo_audience opts = jp_audience policy
     \<and> vo_requiredClaims opts = [js ''exp'']
     \<and> jwt_verify t r opts s = (Some (vj_subject jwt, vj_token jwt), s'))"
proof -
  from verify_authorization_ok [OF assms(2)] obtain t r where
    *: "parse_bearer_token authorization = Inr t" "fst (resolver_for valid_url (jp_jwksUrl policy) v) = Inr r"
      "jwt_verify t r (verify_options v' policy) s = (Some (vj_subject jwt, vj_token jwt), s')" by blast
  from assms(2) * have "snd (resolver_for valid_url (jp_jwksUrl policy) v) = v'"
    by (auto simp: verify_authorization_def split: prod.splits option.splits)
  with resolver_for_ok [OF assms(1), of valid_url "jp_jwksUrl policy"] *(2)
  have "jwt_verifier_ok v'" "jr_url r = jp_jwksUrl policy" by (metis prod.collapse)+
  with * show ?thesis
    by (auto simp: verify_options_def supported_jwt_algorithms_def intro!: exI [of _ "verify_options v' policy"])
qed

definition demo_jwt_policy :: jwt_policy where
  "demo_jwt_policy = \<lparr>jp_issuer = js ''i'', jp_audience = [js ''a''], jp_jwksUrl = js ''https://k.test''\<rparr>"

definition demo_verifier :: jwt_verifier where
  "demo_verifier = \<lparr>jv_timeoutDurationMs = 5000, jv_clockToleranceSeconds = num 5, jv_resolvers = []\<rparr>"

theorem jwt_verified_by_policy_witness:
  "\<exists>v'. verify_authorization (\<lambda>u. True) (\<lambda>t r opts s. (Some (Some t, length t), s)) (Some (js ''Bearer a.b.c''))
        demo_jwt_policy (demo_verifier, ()) = (Inr \<lparr>vj_subject = Some (js ''a.b.c''), vj_token = 5\<rparr>, v', ())
     \<and> jwt_verifier_ok v'"
proof -
  have "bearer_group (trim (js ''Bearer a.b.c'')) = Some (js ''a.b.c'')" "length (split_at 46 (js ''a.b.c'')) = 3"
    by (simp_all add: js_def trim_def is_space_def bearer_group_def to_lower_def is_upper_def)
  then have p: "parse_bearer_token (Some (js ''Bearer a.b.c'')) = Inr (js ''a.b.c'')"
    by (simp add: parse_bearer_token_def max_token_length_def)
  obtain v' where v': "verify_authorization (\<lambda>u. True) (\<lambda>t r opts s. (Some (Some t, length t), s))
      (Some (js ''Bearer a.b.c'')) demo_jwt_policy (demo_verifier, ())
        = (Inr \<lparr>vj_subject = Some (js ''a.b.c''), vj_token = 5\<rparr>, v', ())"
    by (simp add: verify_authorization_def p resolver_for_def demo_verifier_def Let_def)
  with jwt_verified_by_policy [OF _ v'] show ?thesis
    by (auto simp: jwt_verifier_ok_def demo_verifier_def)
qed

end
