(* ===== verification/PolicyEngine.thy ===== *)
theory PolicyEngine imports Waf Jwt Quota begin

text \<open>
  The policy engine (\<open>edge/src/policy-engine.ts\<close>): routing, WAF, authentication and rate
  limiting of one request, in that order, ending in a decision. The verifier and the limiter are
  services acting on a state of the world; an exception of the routing tables is the only error.
\<close>

section \<open>Requests, services and decisions\<close>

record policy_request =
  pr_method :: ustr
  pr_url :: url
  pr_headers :: headers
  pr_body :: "ustr option"
  pr_clientIp :: "ustr option"

record ('j, 's) policy_services =
  ps_verifyAuthorization :: "ustr option \<Rightarrow> jwt_policy \<Rightarrow> 's \<Rightarrow> 'j verified_jwt result \<times> 's"
  ps_check :: "ustr \<Rightarrow> ustr \<Rightarrow> rate_limit_policy \<Rightarrow> 's \<Rightarrow> rate_limit_result result \<times> 's"

datatype denial_code = DefaultDeny | WafBlocked | JwtInvalid | ClientIdentityUnavailable
  | JwtSubjectUnavailable | RateLimiterUnavailable | RateLimited

fun denial_text :: "denial_code \<Rightarrow> ustr" where
  "denial_text DefaultDeny = js ''default_deny''"
| "denial_text WafBlocked = js ''waf_blocked''"
| "denial_text JwtInvalid = js ''jwt_invalid''"
| "denial_text ClientIdentityUnavailable = js ''client_identity_unavailable''"
| "denial_text JwtSubjectUnavailable = js ''jwt_subject_unavailable''"
| "denial_text RateLimiterUnavailable = js ''rate_limiter_unavailable''"
| "denial_text RateLimited = js ''rate_limited''"

record denial =
  dn_status :: int
  dn_code :: denial_code
  dn_route :: "compiled_route option"
  dn_wafMatches :: "waf_rule_match list"
  dn_retryAfterSeconds :: "jsnum option"

record 'j allowance =
  al_route :: "compiled_route option"
  al_jwt :: "'j verified_jwt option"
  al_rateLimit :: "rate_limit_result option"
  al_wafMatches :: "waf_rule_match list"

datatype 'j policy_decision = Allowed "'j allowance" | Denied denial

section \<open>The engine\<close>

record policy_engine =
  pe_matcher :: route_matcher
  pe_wafByRoute :: "waf_evaluator js_map"

fun index_waf :: "regexp_engine \<Rightarrow> waf_evaluator js_map \<Rightarrow> compiled_route list \<Rightarrow> waf_evaluator js_map result" where
  "index_waf engine m [] = Inr m"
| "index_waf engine m (r # rs) =
     bind_result (new_waf_evaluator engine r) (\<lambda>w. index_waf engine (AList.update (cr_id r) w m) rs)"

definition new_policy_engine :: "regexp_engine \<Rightarrow> policy_bundle \<Rightarrow> policy_engine result" where
  "new_policy_engine engine b =
     bind_result (new_route_matcher engine b) (\<lambda>matcher.
     bind_result (index_waf engine [] (b_routes b)) (\<lambda>waf.
       Inr \<lparr>pe_matcher = matcher, pe_wafByRoute = waf\<rparr>))"

definition denied :: "int \<Rightarrow> denial_code \<Rightarrow> compiled_route option \<Rightarrow> waf_rule_match list \<Rightarrow> 'j policy_decision" where
  "denied status code route matches =
     Denied \<lparr>dn_status = status, dn_code = code, dn_route = route, dn_wafMatches = matches, dn_retryAfterSeconds = None\<rparr>"

definition waf_input :: "policy_request \<Rightarrow> waf_request_input" where
  "waf_input input =
     \<lparr>wi_path = u_pathname (pr_url input),
      wi_query = (if starts_with (js ''?'') (u_search (pr_url input)) then drop 1 (u_search (pr_url input))
                  else u_search (pr_url input)),
      wi_headers = pr_headers input, wi_body = pr_body input\<rparr>"

text \<open>Whose quota a request counts against; \<open>None\<close> and blank texts name nobody.\<close>

definition present_identity :: "ustr option \<Rightarrow> ustr option" where
  "present_identity x = (case x of None \<Rightarrow> None | Some i \<Rightarrow> if trim i = [] then None else Some i)"

text \<open>The rate-limit stage, for a request that passed the others.\<close>

definition limit_stage ::
  "('j, 's) policy_services \<Rightarrow> policy_request \<Rightarrow> compiled_route \<Rightarrow> waf_rule_match list \<Rightarrow> 'j verified_jwt option \<Rightarrow>
     's \<Rightarrow> 'j policy_decision \<times> 's" where
  "limit_stage svc input route matches verifiedJwt s =
     (case cr_rateLimit route of
        None \<Rightarrow> (Allowed \<lparr>al_route = Some route, al_jwt = verifiedJwt, al_rateLimit = None, al_wafMatches = matches\<rparr>, s)
      | Some policy \<Rightarrow>
          (case (if rlp_key policy = KeyJwtSub
                 then present_identity (case verifiedJwt of None \<Rightarrow> None | Some v \<Rightarrow> vj_subject v)
                 else present_identity (pr_clientIp input)) of
             None \<Rightarrow>
               (if rlp_key policy = KeyJwtSub
                then (denied 401 JwtSubjectUnavailable (Some route) matches, s)
                else (denied 503 ClientIdentityUnavailable (Some route) matches, s))
           | Some identity \<Rightarrow>
               (case ps_check svc (cr_id route) identity policy s of
                  (Inl e, s') \<Rightarrow> (denied 503 RateLimiterUnavailable (Some route) matches, s')
                | (Inr res, s') \<Rightarrow>
                    if \<not> rl_allowed res
                    then (Denied \<lparr>dn_status = 429, dn_code = RateLimited, dn_route = Some route,
                            dn_wafMatches = matches, dn_retryAfterSeconds = Some (rl_retryAfterSeconds res)\<rparr>, s')
                    else (Allowed \<lparr>al_route = Some route, al_jwt = verifiedJwt, al_rateLimit = Some res,
                            al_wafMatches = matches\<rparr>, s'))))"

definition policy_evaluate ::
  "policy_engine \<Rightarrow> ('j, 's) policy_services \<Rightarrow> policy_request \<Rightarrow> 's \<Rightarrow> 'j policy_decision result \<times> 's" where
  "policy_evaluate e svc input s =
     (case resolve (pe_matcher e) (pr_method input) (u_pathname (pr_url input)) of
        Inl err \<Rightarrow> (Inl err, s)
      | Inr (DefaultResolution AllowDecision) \<Rightarrow>
          (Inr (Allowed \<lparr>al_route = None, al_jwt = None, al_rateLimit = None, al_wafMatches = []\<rparr>), s)
      | Inr (DefaultResolution DenyDecision) \<Rightarrow> (Inr (denied 403 DefaultDeny None []), s)
      | Inr (Matched route) \<Rightarrow>
          (case map_of (pe_wafByRoute e) (cr_id route) of
             None \<Rightarrow> (Inr (denied 503 RateLimiterUnavailable (Some route) []), s)
           | Some waf \<Rightarrow>
               (let wafResult = waf_evaluate waf (waf_input input) in
                if we_blocked wafResult
                then (Inr (denied 403 WafBlocked (Some route) (we_matches wafResult)), s)
                else
                  (case cr_jwt route of
                     None \<Rightarrow>
                       (case limit_stage svc input route (we_matches wafResult) None s of (d, s') \<Rightarrow> (Inr d, s'))
                   | Some policy \<Rightarrow>
                       (case ps_verifyAuthorization svc (header_get (pr_headers input) (js ''authorization'')) policy s of
                          (Inl err, s') \<Rightarrow> (Inr (denied 401 JwtInvalid (Some route) (we_matches wafResult)), s')
                        | (Inr jwt, s1) \<Rightarrow>
                            (case limit_stage svc input route (we_matches wafResult) (Some jwt) s1 of
                               (d, s') \<Rightarrow> (Inr d, s')))))))"

section \<open>What a decision means\<close>

lemma index_waf_ok:
  "index_waf engine m rs = Inr m' \<Longrightarrow> distinct (map cr_id rs) \<Longrightarrow>
     (\<forall>i. i \<notin> cr_id ` set rs \<longrightarrow> map_of m' i = map_of m i)
     \<and> (\<forall>r \<in> set rs. \<exists>w. new_waf_evaluator engine r = Inr w \<and> map_of m' (cr_id r) = Some w)"
proof (induction engine m rs rule: index_waf.induct)
  case (2 engine m r rs)
  from "2.prems"(1) obtain w where w: "new_waf_evaluator engine r = Inr w"
    and m': "index_waf engine (AList.update (cr_id r) w m) rs = Inr m'" by (auto simp: bind_result_Inr)
  with "2.IH" "2.prems"(2)
  have *: "\<forall>i. i \<notin> cr_id ` set rs \<longrightarrow> map_of m' i = map_of (AList.update (cr_id r) w m) i"
    "\<forall>q \<in> set rs. \<exists>w. new_waf_evaluator engine q = Inr w \<and> map_of m' (cr_id q) = Some w" by auto
  from "2.prems"(2) have "cr_id r \<notin> cr_id ` set rs" by simp
  with * w show ?case by auto
qed simp

text \<open>A route the engine of a bundle resolves to is one of the bundle's, and has its WAF rules compiled.\<close>

lemma engine_route:
  assumes "new_policy_engine engine b = Inr e" "resolve (pe_matcher e) m p = Inr (Matched route)"
  shows "route \<in> set (b_routes b)"
    and "\<exists>w. map_of (pe_wafByRoute e) (cr_id route) = Some w \<and> new_waf_evaluator engine route = Inr w"
proof -
  from assms(1) have rt: "new_route_matcher engine b = Inr (pe_matcher e)"
    and w: "index_waf engine [] (b_routes b) = Inr (pe_wafByRoute e)"
    by (auto simp: new_policy_engine_def bind_result_Inr)
  from resolve_routing [OF rt, of m p] assms(2) obtain i where
    "find (\<lambda>r. cr_id r = i) (b_routes b) = Some route"
    by (auto simp: routing_spec_def split: option.splits)
  then show r: "route \<in> set (b_routes b)" by (auto simp: find_Some_iff)
  from index_waf_ok [OF w new_matcher_parts(5) [OF rt]] r
  show "\<exists>w. map_of (pe_wafByRoute e) (cr_id route) = Some w \<and> new_waf_evaluator engine route = Inr w" by blast
qed

lemma limit_stage_allowed:
  assumes "limit_stage svc input route ms jwt s = (Allowed a, s')"
  shows "al_route a = Some route \<and> al_jwt a = jwt \<and> al_wafMatches a = ms
     \<and> (case cr_rateLimit route of
          None \<Rightarrow> al_rateLimit a = None \<and> s' = s
        | Some policy \<Rightarrow> \<exists>identity res.
            present_identity (if rlp_key policy = KeyJwtSub then (case jwt of None \<Rightarrow> None | Some v \<Rightarrow> vj_subject v)
               else pr_clientIp input) = Some identity
            \<and> ps_check svc (cr_id route) identity policy s = (Inr res, s') \<and> rl_allowed res \<and> al_rateLimit a = Some res)"
  using assms
  by (auto simp: limit_stage_def denied_def split: option.splits prod.splits sum.splits if_splits)

text \<open>
  The checks a route demands of a request, as a relation between the world before, the result and
  the world after: no blocking WAF rule fires, the token verifies under the route's JWT policy, and
  the limiter admits the identity the route's rate limit names.
\<close>

definition passes_checks ::
  "regexp_engine \<Rightarrow> ('j, 's) policy_services \<Rightarrow> policy_request \<Rightarrow> compiled_route \<Rightarrow> 's \<Rightarrow> 'j allowance \<Rightarrow> 's \<Rightarrow> bool" where
  "passes_checks engine svc input route s a s' \<longleftrightarrow>
     (\<forall>rule \<in> set (case cr_waf route of None \<Rightarrow> [] | Some rs \<Rightarrow> rs).
        wr_action rule = ActionBlock \<longrightarrow> \<not> rule_fires engine (waf_input input) rule)
     \<and> (\<exists>s1.
          (case cr_jwt route of
             None \<Rightarrow> al_jwt a = None \<and> s1 = s
           | Some policy \<Rightarrow> \<exists>jwt. al_jwt a = Some jwt
               \<and> ps_verifyAuthorization svc (header_get (pr_headers input) (js ''authorization'')) policy s = (Inr jwt, s1))
          \<and> (case cr_rateLimit route of
               None \<Rightarrow> al_rateLimit a = None \<and> s' = s1
             | Some policy \<Rightarrow> \<exists>identity res.
                 present_identity (if rlp_key policy = KeyJwtSub
                    then (case al_jwt a of None \<Rightarrow> None | Some v \<Rightarrow> vj_subject v)
                    else pr_clientIp input) = Some identity
                 \<and> ps_check svc (cr_id route) identity policy s1 = (Inr res, s') \<and> rl_allowed res
                 \<and> al_rateLimit a = Some res))"

lemma waf_not_blocked:
  assumes "new_waf_evaluator engine route = Inr w" "\<not> we_blocked (waf_evaluate w input)"
    and "rule \<in> set (case cr_waf route of None \<Rightarrow> [] | Some rs \<Rightarrow> rs)" "wr_action rule = ActionBlock"
  shows "\<not> rule_fires engine input rule"
proof -
  have "waf_matches input (serialize_headers (wi_headers input)) w
      = map match_of (filter (rule_fires engine input) (case cr_waf route of None \<Rightarrow> [] | Some rs \<Rightarrow> rs))"
    using assms(1) compile_rules_matches by (simp add: new_waf_evaluator_def)
  with assms(2-4) show ?thesis by (auto simp: waf_evaluate_def Let_def list_ex_iff match_of_def)
qed

lemma allowed_checks:
  assumes "new_policy_engine engine b = Inr e"
    and "policy_evaluate e svc input s = (Inr (Allowed a), s')" "al_route a = Some route"
  shows "route \<in> set (b_routes b) \<and> resolve (pe_matcher e) (pr_method input) (u_pathname (pr_url input)) = Inr (Matched route)
     \<and> passes_checks engine svc input route s a s'"
proof (cases "resolve (pe_matcher e) (pr_method input) (u_pathname (pr_url input))")
  case (Inl err)
  with assms(2) show ?thesis by (simp add: policy_evaluate_def)
next
  case (Inr res)
  show ?thesis
  proof (cases res)
    case (DefaultResolution d)
    with assms(2,3) Inr show ?thesis by (cases d) (auto simp: policy_evaluate_def denied_def)
  next
    case (Matched route')
    note R = engine_route [OF assms(1) Inr [unfolded Matched]]
    from R(2) obtain w where w: "map_of (pe_wafByRoute e) (cr_id route') = Some w"
      "new_waf_evaluator engine route' = Inr w" by blast
    with assms(2) Inr Matched have nb: "\<not> we_blocked (waf_evaluate w (waf_input input))"
      by (auto simp: policy_evaluate_def denied_def Let_def split: if_splits)
    obtain jwt s1 ms where st: "limit_stage svc input route' ms jwt s1 = (Allowed a, s')"
      and j: "case cr_jwt route' of None \<Rightarrow> jwt = None \<and> s1 = s
        | Some policy \<Rightarrow> \<exists>v. jwt = Some v
            \<and> ps_verifyAuthorization svc (header_get (pr_headers input) (js ''authorization'')) policy s = (Inr v, s1)"
      using assms(2) Inr Matched w(1) nb
      by (cases "cr_jwt route'") (auto simp: policy_evaluate_def denied_def Let_def split: prod.splits sum.splits)
    note L = limit_stage_allowed [OF st]
    with assms(3) have "route' = route" by simp
    with L j R(1) w nb Inr Matched show ?thesis
      using waf_not_blocked [OF w(2) nb]
      by (auto simp: passes_checks_def split: option.splits)
  qed
qed

text \<open>C7: Complete mediation. When the engine of a bundle allows a request to a route, the route is one of
  the bundle's and is where the bundle routes the request, and every check the route demands was made
  on this request and passed: WAF, then authentication, then the quota of the right identity.\<close>

theorem allowed_passed_all_checks:
  assumes "new_policy_engine engine b = Inr e"
    and "policy_evaluate e svc input s = (Inr (Allowed a), s')" "al_route a = Some route"
  shows "route \<in> set (b_routes b) \<and> resolve (pe_matcher e) (pr_method input) (u_pathname (pr_url input)) = Inr (Matched route)
     \<and> passes_checks engine svc input route s a s'"
  by (rule allowed_checks [OF assms])

subsection \<open>Witness\<close>

definition demo_request :: policy_request where
  "demo_request = \<lparr>pr_method = js ''get'', pr_url = \<lparr>u_protocol = [], u_username = [], u_password = [], u_hostname = [],
     u_host = [], u_port = [], u_pathname = js ''a'', u_search = js ''?q'', u_hash = []\<rparr>, pr_headers = [],
     pr_body = None, pr_clientIp = None\<rparr>"

definition demo_services :: "(unit, nat) policy_services" where
  "demo_services = \<lparr>ps_verifyAuthorization = \<lambda>h p n. (Inl (JwtAuthenticationError []), n),
     ps_check = \<lambda>r i p n. (Inl (RateLimiterError []), n + 1)\<rparr>"

definition demo_engine_state :: policy_engine where
  "demo_engine_state = \<lparr>pe_matcher = demo_matcher, pe_wafByRoute = [(js ''r'', [])]\<rparr>"

lemma demo_engine_new: "new_policy_engine demo_engine demo_bundle = Inr demo_engine_state"
proof -
  have "b_routes demo_bundle = [demo_route]" by (simp add: demo_bundle_def)
  then show ?thesis
    by (simp add: new_policy_engine_def demo_matcher_new demo_engine_state_def new_waf_evaluator_def)
      (simp add: demo_route_def)
qed

lemma demo_resolve: "resolve demo_matcher (js ''get'') (js ''a'') = Inr (Matched demo_route)"
  by (simp add: resolve_def demo_upper demo_matcher_def Let_def)

lemma demo_evaluate: "policy_evaluate demo_engine_state demo_services demo_request 0 =
   (Inr (Allowed \<lparr>al_route = Some demo_route, al_jwt = None, al_rateLimit = None, al_wafMatches = []\<rparr>), 0)"
  by (simp add: policy_evaluate_def demo_engine_state_def demo_request_def demo_resolve)
    (simp add: demo_route_def waf_evaluate_def limit_stage_def Let_def)

theorem allowed_passed_all_checks_witness:
  "passes_checks demo_engine demo_services demo_request demo_route 0
     \<lparr>al_route = Some demo_route, al_jwt = None, al_rateLimit = None, al_wafMatches = []\<rparr> 0"
  using allowed_passed_all_checks [OF demo_engine_new demo_evaluate] by simp

section \<open>Refusals\<close>

fun denial_status :: "denial_code \<Rightarrow> int" where
  "denial_status DefaultDeny = 403"
| "denial_status WafBlocked = 403"
| "denial_status JwtInvalid = 401"
| "denial_status ClientIdentityUnavailable = 503"
| "denial_status JwtSubjectUnavailable = 401"
| "denial_status RateLimiterUnavailable = 503"
| "denial_status RateLimited = 429"

definition denial_ok :: "denial \<Rightarrow> bool" where
  "denial_ok d \<longleftrightarrow> dn_status d = denial_status (dn_code d)
     \<and> (dn_retryAfterSeconds d \<noteq> None \<longleftrightarrow> dn_code d = RateLimited)
     \<and> (dn_route d = None \<longleftrightarrow> dn_code d = DefaultDeny)"

lemma limit_stage_denied:
  "limit_stage svc input route ms jwt s = (Denied d, s') \<Longrightarrow>
     denial_ok d \<and> dn_code d \<in> {JwtSubjectUnavailable, ClientIdentityUnavailable, RateLimiterUnavailable, RateLimited}
     \<and> (dn_code d \<notin> {RateLimiterUnavailable, RateLimited} \<longrightarrow>
          s' = s \<and> (\<forall>check. limit_stage (svc\<lparr>ps_check := check\<rparr>) input route ms jwt s = (Denied d, s')))"
  by (auto simp: limit_stage_def denied_def denial_ok_def
      split: option.splits prod.splits sum.splits if_splits)

lemma denied_exactly:
  assumes "policy_evaluate e svc input s = (Inr (Denied d), s')"
  shows "denial_ok d
     \<and> (dn_code d \<notin> {RateLimiterUnavailable, RateLimited} \<longrightarrow>
          (\<forall>check. policy_evaluate e (svc\<lparr>ps_check := check\<rparr>) input s = (Inr (Denied d), s')))
     \<and> (dn_code d \<in> {DefaultDeny, WafBlocked} \<longrightarrow> s' = s)"
proof (cases "resolve (pe_matcher e) (pr_method input) (u_pathname (pr_url input))")
  case (Inl err)
  with assms show ?thesis by (simp add: policy_evaluate_def)
next
  case (Inr res)
  show ?thesis
  proof (cases res)
    case (DefaultResolution d0)
    with assms Inr show ?thesis by (cases d0) (auto simp: policy_evaluate_def denied_def denial_ok_def)
  next
    case (Matched route)
    show ?thesis
    proof (cases "map_of (pe_wafByRoute e) (cr_id route)")
      case None
      with assms Inr Matched show ?thesis by (auto simp: policy_evaluate_def denied_def denial_ok_def)
    next
      case (Some w)
      show ?thesis
      proof (cases "we_blocked (waf_evaluate w (waf_input input))")
        case True
        with assms Inr Matched Some show ?thesis
          by (auto simp: policy_evaluate_def denied_def denial_ok_def Let_def)
      next
        case False
        show ?thesis
        proof (cases "cr_jwt route")
          case None
          with assms Inr Matched Some False
          have "limit_stage svc input route (we_matches (waf_evaluate w (waf_input input))) None s = (Denied d, s')"
            by (auto simp: policy_evaluate_def Let_def split: prod.splits)
          from limit_stage_denied [OF this] Inr Matched Some False None show ?thesis
            by (auto simp: policy_evaluate_def Let_def)
        next
          case j: (Some policy)
          obtain x s1 where x: "ps_verifyAuthorization svc (header_get (pr_headers input) (js ''authorization'')) policy s = (x, s1)"
            by (rule prod.exhaust)
          show ?thesis
          proof (cases x)
            case (Inl err)
            with assms Inr Matched Some False j x show ?thesis
              by (auto simp: policy_evaluate_def denied_def denial_ok_def Let_def)
          next
            case v: (Inr jwt)
            with assms Inr Matched Some False j x
            have "limit_stage svc input route (we_matches (waf_evaluate w (waf_input input))) (Some jwt) s1 = (Denied d, s')"
              by (auto simp: policy_evaluate_def Let_def split: prod.splits)
            from limit_stage_denied [OF this] Inr Matched Some False j x v show ?thesis
              by (auto simp: policy_evaluate_def Let_def)
          qed
        qed
      qed
    qed
  qed
qed

text \<open>C17: Refusals are well formed and cheap. A denial carries the status of its code, a retry time
  exactly when it is \<open>rate_limited\<close>, and a route exactly when it is not the default denial. Any
  denial other than the limiter's own two is the same whatever the limiter would have answered: the
  limiter was not consulted and no quota was used; and a default denial or a WAF block leaves every
  service untouched.\<close>

theorem denials_exact:
  assumes "policy_evaluate e svc input s = (Inr (Denied d), s')"
  shows "denial_ok d
     \<and> (dn_code d \<notin> {RateLimiterUnavailable, RateLimited} \<longrightarrow>
          (\<forall>check. policy_evaluate e (svc\<lparr>ps_check := check\<rparr>) input s = (Inr (Denied d), s')))
     \<and> (dn_code d \<in> {DefaultDeny, WafBlocked} \<longrightarrow> s' = s)"
  by (rule denied_exactly [OF assms])

definition demo_missing_request :: policy_request where
  "demo_missing_request = demo_request\<lparr>pr_method := js ''put''\<rparr>"

theorem denials_exact_witness:
  "denial_ok \<lparr>dn_status = 403, dn_code = DefaultDeny, dn_route = None, dn_wafMatches = [], dn_retryAfterSeconds = None\<rparr>
   \<and> policy_evaluate demo_engine_state (demo_services\<lparr>ps_check := \<lambda>r i p n. (Inl (Error []), 7)\<rparr>) demo_missing_request 0
       = (Inr (denied 403 DefaultDeny None []), 0)"
proof -
  have u: "to_upper (js ''put'') = js ''PUT''" by code_simp
  have "resolve demo_matcher (js ''put'') p = Inr (DefaultResolution DenyDecision)" for p
    by (simp add: resolve_def u demo_matcher_def Let_def)
  then have "policy_evaluate demo_engine_state demo_services demo_missing_request 0
      = (Inr (denied 403 DefaultDeny None []), 0)"
    by (simp add: policy_evaluate_def demo_engine_state_def demo_missing_request_def)
  from denials_exact [OF this [unfolded denied_def]] show ?thesis by (simp add: denied_def)
qed

end
