(* ===== verification/LivePolicy.thy ===== *)
theory LivePolicy imports ConfigClient PolicyEngine begin

text \<open>
  The live policy (\<open>edge/src/live-policy.ts\<close>): an evaluator that follows the configuration. It
  keeps the engine of the version it last saw and builds a new one when the version of the current
  snapshot differs. What it needs of a configuration is the locale \<open>configuration_source\<close>, which
  the configuration client provides.
\<close>

section \<open>The evaluator\<close>

text \<open>The evaluator a version's bundle is turned into, and the version; \<open>'e\<close> is the engine.\<close>

record 'e live_policy =
  lp_activeVersion :: "ustr option"
  lp_activeEvaluator :: "'e option"

definition new_live_policy :: "'e live_policy" where
  "new_live_policy = \<lparr>lp_activeVersion = None, lp_activeEvaluator = None\<rparr>"

text \<open>The evaluator that serves a request under a snapshot, and the state that holds it.\<close>

definition follow_snapshot :: "(policy_bundle \<Rightarrow> 'e result) \<Rightarrow> config_snapshot \<Rightarrow> 'e live_policy \<Rightarrow> ('e \<times> 'e live_policy) result" where
  "follow_snapshot factory snapshot lp =
     (let rebuild = bind_result (factory (cs_bundle snapshot)) (\<lambda>e.
          Inr (e, \<lparr>lp_activeVersion = Some (b_version (cs_bundle snapshot)), lp_activeEvaluator = Some e\<rparr>)) in
      case lp_activeEvaluator lp of
        None \<Rightarrow> rebuild
      | Some e \<Rightarrow> if lp_activeVersion lp \<noteq> Some (b_version (cs_bundle snapshot)) then rebuild else Inr (e, lp))"

definition live_evaluate ::
  "(policy_bundle \<Rightarrow> 'e result) \<Rightarrow> ('e \<Rightarrow> 'r \<Rightarrow> 's \<Rightarrow> 'd result \<times> 's) \<Rightarrow> config_snapshot option \<Rightarrow> 'r
     \<Rightarrow> 'e live_policy \<Rightarrow> 's \<Rightarrow> 'd result \<times> 'e live_policy \<times> 's" where
  "live_evaluate factory evaluate current request lp s =
     (case current of
        None \<Rightarrow> (Inl (LivePolicyError (js ''no verified policy configuration is available'')), lp, s)
      | Some snapshot \<Rightarrow>
          (case follow_snapshot factory snapshot lp of
             Inl err \<Rightarrow> (Inl err, lp, s)
           | Inr (e, lp') \<Rightarrow> (case evaluate e request s of (r, s') \<Rightarrow> (r, lp', s'))))"

text \<open>The engine kept was made from a trusted bundle of the version kept.\<close>

definition follows :: "(policy_bundle \<Rightarrow> bool) \<Rightarrow> (policy_bundle \<Rightarrow> 'e result) \<Rightarrow> 'e live_policy \<Rightarrow> bool" where
  "follows trusted factory lp \<longleftrightarrow>
     (case lp_activeEvaluator lp of
        None \<Rightarrow> lp_activeVersion lp = None
      | Some e \<Rightarrow> \<exists>b. trusted b \<and> factory b = Inr e \<and> lp_activeVersion lp = Some (b_version b))"

section \<open>What it needs of a configuration\<close>

text \<open>
  In every state the source may be in, what \<open>current\<close> returns is trusted, and trusted bundles of
  one version are interchangeable.
\<close>

locale configuration_source =
  fixes source_ok :: "'c \<Rightarrow> bool" and current :: "'c \<Rightarrow> config_snapshot option"
    and trusted :: "policy_bundle \<Rightarrow> bool" and same :: "policy_bundle \<Rightarrow> policy_bundle \<Rightarrow> bool"
  assumes current_trusted: "source_ok c \<Longrightarrow> current c = Some snapshot \<Longrightarrow> trusted (cs_bundle snapshot)"
    and same_version: "trusted b \<Longrightarrow> trusted b' \<Longrightarrow> b_version b = b_version b' \<Longrightarrow> same b b'"
begin

lemma follows_new [simp]: "follows trusted factory new_live_policy"
  by (simp add: follows_def new_live_policy_def)

lemma follow_snapshot_ok:
  assumes "source_ok c" "current c = Some snapshot" "follows trusted factory lp" "follow_snapshot factory snapshot lp = Inr (e, lp')"
  shows "follows trusted factory lp'"
    and "\<exists>b. trusted b \<and> same b (cs_bundle snapshot) \<and> factory b = Inr e"
    and "lp_activeVersion lp' = Some (b_version (cs_bundle snapshot))"
proof -
  have t: "trusted (cs_bundle snapshot)" by (rule current_trusted [OF assms(1,2)])
  have "follows trusted factory lp' \<and> (\<exists>b. trusted b \<and> b_version b = b_version (cs_bundle snapshot) \<and> factory b = Inr e)
      \<and> lp_activeVersion lp' = Some (b_version (cs_bundle snapshot))"
    using assms(3,4) t
    by (auto simp: follow_snapshot_def follows_def Let_def bind_result_Inr split: option.splits if_splits)
  with t same_version show "follows trusted factory lp'"
    and "\<exists>b. trusted b \<and> same b (cs_bundle snapshot) \<and> factory b = Inr e"
    and "lp_activeVersion lp' = Some (b_version (cs_bundle snapshot))" by blast+
qed

lemma live_evaluate_follows:
  assumes "source_ok c" "follows trusted factory lp" "live_evaluate factory evaluate (current c) request lp s = (r, lp', s')"
  shows "follows trusted factory lp'"
proof (cases "current c")
  case (Some snapshot)
  show ?thesis
  proof (cases "follow_snapshot factory snapshot lp")
    case (Inr elp)
    obtain e lp1 where "elp = (e, lp1)" by (rule prod.exhaust)
    with Inr Some follow_snapshot_ok(1) [OF assms(1) Some assms(2), of e lp1] assms(3) show ?thesis
      by (simp add: live_evaluate_def split: prod.splits)
  qed (use Some assms in \<open>simp add: live_evaluate_def\<close>)
qed (use assms in \<open>simp add: live_evaluate_def\<close>)

lemma live_evaluate_current:
  assumes "source_ok c" "follows trusted factory lp" "live_evaluate factory evaluate (current c) request lp s = (Inr d, lp', s')"
  shows "\<exists>snapshot b e. current c = Some snapshot \<and> trusted b \<and> same b (cs_bundle snapshot)
     \<and> factory b = Inr e \<and> evaluate e request s = (Inr d, s')"
proof (cases "current c")
  case (Some snapshot)
  show ?thesis
  proof (cases "follow_snapshot factory snapshot lp")
    case (Inr elp)
    obtain e lp1 where "elp = (e, lp1)" by (rule prod.exhaust)
    with Inr Some follow_snapshot_ok(2) [OF assms(1) Some assms(2), of e lp1] assms(3) show ?thesis
      by (auto simp: live_evaluate_def split: prod.splits)
  qed (use Some assms in \<open>simp add: live_evaluate_def\<close>)
qed (use assms in \<open>simp add: live_evaluate_def\<close>)

end

section \<open>The configuration client as a source\<close>

interpretation client_source: configuration_source
    "client_reachable env keys" "\<lambda>s. cc_snapshot (sy_client s)"
    "trusted_bundle (ce_engine env) (ce_parse_url env) (ce_crypto env) keys" "same_content (ce_crypto env)"
  for env :: "'k config_env" and keys
proof
  fix s snapshot
  assume "client_reachable env keys s" "cc_snapshot (sy_client s) = Some snapshot"
  then show "trusted_bundle (ce_engine env) (ce_parse_url env) (ce_crypto env) keys (cs_bundle snapshot)"
    using reachable_client_ok by (fastforce simp: client_ok_def snapshot_ok_def)
qed (rule trusted_version)

text \<open>
  A client and a live policy over time: steps of the client, and requests evaluated under the
  snapshot current at that moment, in any order.
\<close>

inductive edge_reachable ::
  "'k config_env \<Rightarrow> trusted_keyring \<Rightarrow> ('j, 's) policy_services \<Rightarrow> client_system \<Rightarrow> policy_engine live_policy \<Rightarrow> bool"
  for env keys svc where
  start: "client_reachable env keys c \<Longrightarrow> edge_reachable env keys svc c new_live_policy"
| configured: "edge_reachable env keys svc c lp \<Longrightarrow> client_step env c ev c' \<Longrightarrow> edge_reachable env keys svc c' lp"
| evaluated: "edge_reachable env keys svc c lp \<Longrightarrow>
     live_evaluate (new_policy_engine (ce_engine env)) (\<lambda>e. policy_evaluate e svc)
       (cc_snapshot (sy_client c)) request lp s = (r, lp', s') \<Longrightarrow>
     edge_reachable env keys svc c lp'"

lemma edge_reachable_ok:
  "edge_reachable env keys svc c lp \<Longrightarrow>
     client_reachable env keys c \<and> follows (trusted_bundle (ce_engine env) (ce_parse_url env) (ce_crypto env) keys)
         (new_policy_engine (ce_engine env)) lp"
proof (induction rule: edge_reachable.induct)
  case (start c)
  then show ?case by simp
next
  case (configured c lp ev c')
  then show ?case using client_reachable.step by blast
next
  case (evaluated c lp request s r lp' s')
  then show ?case using client_source.live_evaluate_follows [OF _ _ evaluated.hyps(2)] by blast
qed

text \<open>A decision is made by the engine of a trusted bundle with the content of the current one.\<close>

lemma live_decision:
  assumes "edge_reachable env keys svc c lp"
    and "live_evaluate (new_policy_engine (ce_engine env)) (\<lambda>e. policy_evaluate e svc)
       (cc_snapshot (sy_client c)) request lp s = (Inr d, lp', s')"
  shows "\<exists>snapshot b e. cc_snapshot (sy_client c) = Some snapshot
     \<and> trusted_bundle (ce_engine env) (ce_parse_url env) (ce_crypto env) keys b
     \<and> same_content (ce_crypto env) b (cs_bundle snapshot)
     \<and> new_policy_engine (ce_engine env) b = Inr e \<and> policy_evaluate e svc request s = (Inr d, s')"
  using client_source.live_evaluate_current [OF _ _ assms(2)] edge_reachable_ok [OF assms(1)] by blast

text \<open>C27: Decisions follow the signed policy. However the configuration is refreshed between requests, a
  decision is only ever made while a verified snapshot is current, and by the engine of a bundle
  that a trusted key signed and whose content has the digest of the current snapshot's; without a
  snapshot there is an error and no service is touched.\<close>

theorem live_policy_follows:
  assumes "edge_reachable env keys svc c lp"
    and "live_evaluate (new_policy_engine (ce_engine env)) (\<lambda>e. policy_evaluate e svc)
       (cc_snapshot (sy_client c)) request lp s = (r, lp', s')"
  shows "(case r of
       Inr d \<Rightarrow> \<exists>snapshot b e. cc_snapshot (sy_client c) = Some snapshot
         \<and> trusted_bundle (ce_engine env) (ce_parse_url env) (ce_crypto env) keys b
         \<and> same_content (ce_crypto env) b (cs_bundle snapshot)
         \<and> new_policy_engine (ce_engine env) b = Inr e \<and> policy_evaluate e svc request s = (Inr d, s')
     | Inl err \<Rightarrow> True)
     \<and> (cc_snapshot (sy_client c) = None \<longrightarrow>
          r = Inl (LivePolicyError (js ''no verified policy configuration is available'')) \<and> s' = s)"
proof -
  have "\<exists>snapshot b e. cc_snapshot (sy_client c) = Some snapshot
         \<and> trusted_bundle (ce_engine env) (ce_parse_url env) (ce_crypto env) keys b
         \<and> same_content (ce_crypto env) b (cs_bundle snapshot)
         \<and> new_policy_engine (ce_engine env) b = Inr e \<and> policy_evaluate e svc request s = (Inr d, s')"
    if "r = Inr d" for d
    using live_decision [OF assms(1) assms(2) [unfolded that]] .
  moreover have "cc_snapshot (sy_client c) = None \<Longrightarrow>
      r = Inl (LivePolicyError (js ''no verified policy configuration is available'')) \<and> s' = s"
    using assms(2) by (simp add: live_evaluate_def)
  ultimately show ?thesis by (auto split: sum.split)
qed

section \<open>Witness\<close>

text \<open>The engine of the published bundle, and a request to its route.\<close>

definition published_engine :: policy_engine where
  "published_engine = \<lparr>pe_matcher = \<lparr>rt_defaultDecision = DenyDecision, rt_routesById = [(js ''r'', published_route)],
       rt_matchersByMethod = [(js ''GET'', \<lparr>rtm_regex = \<lambda>s. if s = js ''/a'' then Some [Some s] else None,
          rtm_routeIds = [js ''r'']\<rparr>)]\<rparr>,
     pe_wafByRoute = [(js ''r'', [])]\<rparr>"

definition published_request :: policy_request where
  "published_request = demo_request\<lparr>pr_method := js ''GET'', pr_url := (pr_url demo_request)\<lparr>u_pathname := js ''/a''\<rparr>\<rparr>"

definition published_allowance :: "unit allowance" where
  "published_allowance = \<lparr>al_route = Some published_route, al_jwt = None, al_rateLimit = None, al_wafMatches = []\<rparr>"

lemma published_engine_new: "new_policy_engine (ce_engine demo_world) published_bundle = Inr published_engine"
proof -
  have a: "starts_with (js ''^'') (js ''^(/a)$'')" "ends_with (js ''$'') (js ''^(/a)$'')" by code_simp+
  have "new_route_matcher (ce_engine demo_world) published_bundle = Inr (pe_matcher published_engine)"
    using a by (simp add: new_route_matcher_def published_bundle_def published_route_def demo_world_def published_engine_def)
  moreover have "b_routes published_bundle = [published_route]" by (simp add: published_bundle_def)
  ultimately show ?thesis
    by (simp add: new_policy_engine_def published_engine_def new_waf_evaluator_def) (simp add: published_route_def)
qed

lemma published_evaluate:
  "policy_evaluate published_engine demo_services published_request 0 = (Inr (Allowed published_allowance), 0)"
proof -
  have "to_upper (js ''GET'') = js ''GET''" by code_simp
  then have "resolve (pe_matcher published_engine) (js ''GET'') (js ''/a'') = Inr (Matched published_route)"
    by (simp add: resolve_def published_engine_def Let_def)
  then show ?thesis
    by (simp add: policy_evaluate_def published_request_def demo_request_def published_engine_def)
      (simp add: published_route_def waf_evaluate_def limit_stage_def Let_def published_allowance_def)
qed

lemma published_live_evaluate:
  "live_evaluate (new_policy_engine (ce_engine demo_world)) (\<lambda>e. policy_evaluate e demo_services)
     (cc_snapshot (sy_client loaded_system)) published_request new_live_policy 0
   = (Inr (Allowed published_allowance), \<lparr>lp_activeVersion = Some demo_digest, lp_activeEvaluator = Some published_engine\<rparr>, 0)"
proof -
  have "cs_bundle published_snapshot = published_bundle" by (simp add: published_snapshot_def)
  then show ?thesis
    by (simp add: live_evaluate_def follow_snapshot_def new_live_policy_def loaded_system_def published_engine_new
        published_evaluate) (simp add: published_bundle_def)
qed

theorem live_policy_follows_witness:
  "\<exists>snapshot b e. cc_snapshot (sy_client loaded_system) = Some snapshot
     \<and> trusted_bundle (ce_engine demo_world) (ce_parse_url demo_world) (ce_crypto demo_world) published_keys b
     \<and> same_content (ce_crypto demo_world) b (cs_bundle snapshot)
     \<and> new_policy_engine (ce_engine demo_world) b = Inr e
     \<and> policy_evaluate e demo_services published_request 0 = (Inr (Allowed published_allowance), 0)"
  using live_policy_follows [OF edge_reachable.start [OF loaded_reachable] published_live_evaluate] by simp

end
