(* ===== verification/Ownership.thy ===== *)
theory Ownership imports Prelude "HOL-Library.Multiset" begin

text \<open>
  Owners of numbered tokens. Tokens are handed out in order and finished one by one, which a list of
  flags records; the owners hold at most one token each. That every unfinished token has exactly
  one owner is kept by every way tokens are handed out and finished; both the admissions and the
  circuit permits of the gateway are such tokens.
\<close>

definition owned :: "nat option list \<Rightarrow> bool list \<Rightarrow> bool" where
  "owned hs flags \<longleftrightarrow>
     filter_mset (\<lambda>h. h \<noteq> None) (mset hs) = image_mset Some (mset_set {i. i < length flags \<and> \<not> flags ! i})"

lemma owned_Nil: "owned [] []"
  by (simp add: owned_def)

lemma owned_idle: "owned hs flags \<Longrightarrow> owned (hs @ [None]) flags"
  by (simp add: owned_def)

lemma unfinished_append: "{i. i < length (flags @ [False]) \<and> \<not> (flags @ [False]) ! i} =
    insert (length flags) {i. i < length flags \<and> \<not> flags ! i}"
  by (auto simp: nth_append less_Suc_eq)

lemma owned_new: "owned hs flags \<Longrightarrow> owned (hs @ [Some (length flags)]) (flags @ [False])"
  unfolding owned_def unfinished_append by simp

lemma owned_take:
  assumes "owned hs flags" "i < length hs" "hs ! i = None"
  shows "owned (hs[i := Some (length flags)]) (flags @ [False])"
  using assms unfolding owned_def unfinished_append by (simp add: mset_update)

lemma owned_member:
  assumes "owned hs flags" "i < length hs" "hs ! i = Some p"
  shows "p < length flags \<and> \<not> flags ! p"
proof -
  have "Some p \<in># filter_mset (\<lambda>h. h \<noteq> None) (mset hs)" using assms(2,3) by (auto simp: in_set_conv_nth)
  with assms(1) show ?thesis by (auto simp: owned_def)
qed

lemma owned_ex:
  assumes "owned hs flags" "p < length flags" "\<not> flags ! p"
  shows "\<exists>i < length hs. hs ! i = Some p"
proof -
  have "Some p \<in># filter_mset (\<lambda>h. h \<noteq> None) (mset hs)" using assms by (auto simp: owned_def)
  then show ?thesis by (auto simp: in_set_conv_nth)
qed

lemma owned_give:
  assumes "owned hs flags" "i < length hs" "hs ! i = Some p"
  shows "owned (hs[i := None]) (flags[p := True])"
proof -
  from owned_member [OF assms] have p: "p < length flags" "\<not> flags ! p" by simp_all
  then have "{i. i < length (flags[p := True]) \<and> \<not> flags[p := True] ! i} = {i. i < length flags \<and> \<not> flags ! i} - {p}"
    by (auto simp: nth_list_update split: if_splits)
  moreover have "mset_set ({i. i < length flags \<and> \<not> flags ! i} - {p})
      = mset_set {i. i < length flags \<and> \<not> flags ! i} - {#p#}"
    using p by (intro mset_set_Diff [of _ "{p}", simplified]) auto
  moreover have "image_mset Some (mset_set {i. i < length flags \<and> \<not> flags ! i} - {#p#})
      = image_mset Some (mset_set {i. i < length flags \<and> \<not> flags ! i}) - {#Some p#}"
    using p by (subst image_mset_Diff) auto
  ultimately show ?thesis using assms unfolding owned_def by (simp add: mset_update)
qed

lemma owned_keep: "owned hs flags \<Longrightarrow> i < length hs \<Longrightarrow> h = hs ! i \<Longrightarrow> owned (hs[i := h]) flags"
  by simp

text \<open>As many tokens are unfinished as there are owners.\<close>

lemma owned_count:
  assumes "owned hs flags"
  shows "length (filter Not flags) = length (filter (\<lambda>h. h \<noteq> None) hs)"
proof -
  have "size (filter_mset (\<lambda>h. h \<noteq> None) (mset hs)) = card {i. i < length flags \<and> \<not> flags ! i}"
    using assms by (simp add: owned_def)
  moreover have "size (filter_mset (\<lambda>h. h \<noteq> None) (mset hs)) = length (filter (\<lambda>h. h \<noteq> None) hs)"
    by (metis mset_filter size_mset)
  ultimately show ?thesis by (simp add: length_filter_conv_card)
qed

lemma owned_apart:
  assumes "owned hs flags" "i < length hs" "j < length hs" "hs ! i = Some p" "hs ! j = Some p"
  shows "i = j"
proof (rule ccontr)
  assume "i \<noteq> j"
  with assms(3,5) owned_member [OF owned_give [OF assms(1,2,4)], of j p] show False by auto
qed

end
