(* ===== verification/AdmissionGate.thy ===== *)
theory AdmissionGate imports JsString begin

text \<open>
  Admission of requests (the class \<open>AdmissionGate\<close> of \<open>edge/src/gateway.ts\<close>): how many requests
  are in flight, whether new ones are accepted, and who waits for the gate to be idle. The closure
  that releases an admission is known by a number; its \<open>released\<close> flag is kept under it.
\<close>

record admission_gate =
  ag_maximum :: int
  ag_active :: int
  ag_accepting :: bool
  ag_idleWaiters :: "nat list"
  ag_resolved :: "nat list"
  ag_released :: "bool list"

datatype admission = Accepted nat | Overloaded | Draining

definition new_admission_gate :: "jsnum \<Rightarrow> admission_gate result" where
  "new_admission_gate maximum =
     (if \<not> is_safe_integer maximum \<or> jle maximum (num 0)
      then Inl (Error (js ''maximum in-flight request count must be a positive integer''))
      else Inr \<lparr>ag_maximum = int_of_num maximum, ag_active = 0, ag_accepting = True, ag_idleWaiters = [],
             ag_resolved = [], ag_released = []\<rparr>)"

definition try_acquire :: "admission_gate \<Rightarrow> admission \<times> admission_gate" where
  "try_acquire g =
     (if \<not> ag_accepting g then (Draining, g)
      else if ag_active g \<ge> ag_maximum g then (Overloaded, g)
      else (Accepted (length (ag_released g)),
            g\<lparr>ag_active := ag_active g + 1, ag_released := ag_released g @ [False]\<rparr>))"

text \<open>The release closure; the promises of the waiters resolve in the order they were made.\<close>

definition gate_release :: "nat \<Rightarrow> admission_gate \<Rightarrow> admission_gate" where
  "gate_release i g =
     (if i < length (ag_released g) \<and> \<not> ag_released g ! i
      then (let g1 = g\<lparr>ag_released := (ag_released g)[i := True], ag_active := ag_active g - 1\<rparr> in
            if ag_active g1 = 0
            then g1\<lparr>ag_resolved := ag_resolved g1 @ ag_idleWaiters g1, ag_idleWaiters := []\<rparr>
            else g1)
      else g)"

definition gate_begin_drain :: "admission_gate \<Rightarrow> bool \<times> admission_gate" where
  "gate_begin_drain g = (if \<not> ag_accepting g then (False, g) else (True, g\<lparr>ag_accepting := False\<rparr>))"

text \<open>\<open>waitForIdle\<close>: the promise \<open>w\<close> is resolved at once or waits.\<close>

definition gate_wait :: "nat \<Rightarrow> admission_gate \<Rightarrow> admission_gate" where
  "gate_wait w g =
     (if ag_active g = 0 then g\<lparr>ag_resolved := ag_resolved g @ [w]\<rparr>
      else g\<lparr>ag_idleWaiters := ag_idleWaiters g @ [w]\<rparr>)"

section \<open>The invariant\<close>

text \<open>
  The active count is the number of admissions not released, within the maximum, and somebody
  waits only while it is positive.
\<close>

definition gate_ok :: "admission_gate \<Rightarrow> bool" where
  "gate_ok g \<longleftrightarrow> 0 < ag_maximum g \<and> ag_active g = int (length (filter Not (ag_released g)))
     \<and> ag_active g \<le> ag_maximum g \<and> (ag_idleWaiters g = [] \<or> 0 < ag_active g)"

lemma new_gate_ok: "new_admission_gate m = Inr g \<Longrightarrow> gate_ok g"
  by (auto simp: new_admission_gate_def gate_ok_def is_safe_integer_iff num_def split: if_splits)

lemma length_filter_update:
  "i < length bs \<Longrightarrow> \<not> bs ! i \<Longrightarrow> Suc (length (filter Not (bs[i := True]))) = length (filter Not bs)"
  by (induction bs arbitrary: i) (auto split: nat.splits simp: nth_Cons)

lemma acquire_ok: "gate_ok g \<Longrightarrow> try_acquire g = (a, g') \<Longrightarrow> gate_ok g'"
  by (auto simp: gate_ok_def try_acquire_def split: if_splits)

lemma release_active:
  "i < length (ag_released g) \<Longrightarrow> \<not> ag_released g ! i \<Longrightarrow> ag_active (gate_release i g) = ag_active g - 1"
  by (simp add: gate_release_def Let_def)

lemma release_flags: "ag_released (gate_release i g) = (ag_released g)[i := True]"
proof (cases "i < length (ag_released g) \<and> \<not> ag_released g ! i")
  case False
  then have "(ag_released g)[i := True] = ag_released g"
    using list_update_id [of "ag_released g" i] by (cases "i < length (ag_released g)") (auto simp: list_update_beyond)
  with False show ?thesis by (auto simp: gate_release_def)
qed (simp add: gate_release_def Let_def)

lemma release_settings [simp]:
  "ag_maximum (gate_release i g) = ag_maximum g" "ag_accepting (gate_release i g) = ag_accepting g"
  by (simp_all add: gate_release_def Let_def)

lemma release_ok: "gate_ok g \<Longrightarrow> gate_ok (gate_release i g)"
proof (cases "i < length (ag_released g) \<and> \<not> ag_released g ! i")
  case True
  assume "gate_ok g"
  with True length_filter_update [of i "ag_released g"] show ?thesis
    by (auto simp: gate_ok_def gate_release_def Let_def)
next
  case False
  then have "gate_release i g = g" by (auto simp: gate_release_def)
  then show "gate_ok g \<Longrightarrow> ?thesis" by simp
qed

lemma drain_ok: "gate_ok g \<Longrightarrow> gate_begin_drain g = (r, g') \<Longrightarrow> gate_ok g'"
  by (auto simp: gate_ok_def gate_begin_drain_def split: if_splits)

lemma wait_ok: "gate_ok g \<Longrightarrow> gate_ok (gate_wait w g)"
  by (auto simp: gate_ok_def gate_wait_def)

lemma idle_iff: "gate_ok g \<Longrightarrow> ag_active g = 0 \<longleftrightarrow> list_all id (ag_released g)"
  by (auto simp: gate_ok_def filter_empty_conv list_all_iff)

section \<open>Draining\<close>

text \<open>Waiters are neither lost nor resolved early.\<close>

lemma release_waiters: "ag_resolved (gate_release i g) @ ag_idleWaiters (gate_release i g) = ag_resolved g @ ag_idleWaiters g"
  by (simp add: gate_release_def Let_def)

lemma releases_ok: "gate_ok g \<Longrightarrow> gate_ok (foldl (\<lambda>g i. gate_release i g) g is)"
  by (induction "is" arbitrary: g) (auto intro: release_ok)

lemma releases_waiters:
  "ag_resolved (foldl (\<lambda>g i. gate_release i g) g is) @ ag_idleWaiters (foldl (\<lambda>g i. gate_release i g) g is)
     = ag_resolved g @ ag_idleWaiters g"
  by (induction "is" arbitrary: g) (simp_all add: release_waiters)

lemma releases_flags:
  "length (ag_released (foldl (\<lambda>g i. gate_release i g) g is)) = length (ag_released g)
   \<and> (\<forall>j < length (ag_released g). ag_released (foldl (\<lambda>g i. gate_release i g) g is) ! j = (ag_released g ! j \<or> j \<in> set is))"
proof (induction "is" arbitrary: g)
  case (Cons i "is")
  have "(ag_released g)[i := True] ! j = (ag_released g ! j \<or> j = i)" if "j < length (ag_released g)" for j
    using that by (cases "i = j") auto
  with Cons [of "gate_release i g"] show ?case by (auto simp: release_flags)
qed simp

text \<open>C37: Draining ends. Once draining has begun nothing is admitted any more, and whatever the order
  (and however often repeated) in which the admissions in flight are released, when all have been
  the gate is idle, and the promises that waited are resolved, each once and in their order.\<close>

theorem drain_completes:
  assumes "gate_ok g" "{i. i < length (ag_released g) \<and> \<not> ag_released g ! i} \<subseteq> set is"
  defines "g' \<equiv> foldl (\<lambda>g i. gate_release i g) (snd (gate_begin_drain g)) is"
  shows "ag_active g' = 0 \<and> ag_idleWaiters g' = [] \<and> ag_resolved g' = ag_resolved g @ ag_idleWaiters g
     \<and> try_acquire g' = (Draining, g')"
proof -
  define d where "d = snd (gate_begin_drain g)"
  have d: "gate_ok d" "ag_released d = ag_released g" "\<not> ag_accepting d" "ag_resolved d = ag_resolved g"
    "ag_idleWaiters d = ag_idleWaiters g"
    using drain_ok [OF assms(1), of "fst (gate_begin_drain g)" d] by (auto simp: d_def gate_begin_drain_def)
  have g': "g' = foldl (\<lambda>g i. gate_release i g) d is" by (simp add: g'_def d_def)
  have ok: "gate_ok g'" unfolding g' by (rule releases_ok [OF d(1)])
  have "list_all id (ag_released g')"
    using releases_flags [of d "is"] assms(2) unfolding g' by (auto simp: list_all_length d(2))
  then have "ag_active g' = 0" using idle_iff [OF ok] by simp
  moreover from this ok have "ag_idleWaiters g' = []" by (simp add: gate_ok_def)
  moreover have "\<not> ag_accepting g'" unfolding g' using d(3) by (induction "is" arbitrary: d) auto
  ultimately show ?thesis using releases_waiters [of d "is"] d unfolding g' [symmetric]
    by (simp add: try_acquire_def)
qed

definition demo_gate :: admission_gate where
  "demo_gate = \<lparr>ag_maximum = 3, ag_active = 2, ag_accepting = True, ag_idleWaiters = [7], ag_resolved = [],
     ag_released = [False, True, False]\<rparr>"

theorem drain_completes_witness:
  "ag_resolved (foldl (\<lambda>g i. gate_release i g) (snd (gate_begin_drain demo_gate)) [2, 0, 2]) = [7]"
proof -
  have "gate_ok demo_gate" by (simp add: gate_ok_def demo_gate_def)
  moreover have "{i. i < length (ag_released demo_gate) \<and> \<not> ag_released demo_gate ! i} \<subseteq> set [2, 0, 2]"
    by (auto simp: demo_gate_def less_Suc_eq)
  ultimately show ?thesis using drain_completes [of demo_gate "[2, 0, 2]"] by (simp add: demo_gate_def)
qed

end
