(* ===== verification/RequestBody.thy ===== *)
theory RequestBody imports Http Utf8 NumberText begin

text \<open>
  Buffering the body of a request (\<open>readRequestBody\<close> and \<open>validateDeclaredBodyLength\<close> of
  \<open>edge/src/gateway.ts\<close>): the declared length is checked first, then the chunks are read while
  they stay within the maximum.
\<close>

definition default_max_request_body_bytes :: int where
  "default_max_request_body_bytes = 1024 * 1024"

record buffered_body =
  bb_bytes :: "bytes option"
  bb_text :: "ustr option"

definition invalid_content_length :: js_error where
  "invalid_content_length = GatewayRequestError 400 (js ''invalid_content_length'')"

definition request_body_too_large :: js_error where
  "request_body_too_large = GatewayRequestError 413 (js ''request_body_too_large'')"

definition validate_declared_body_length :: "ustr option \<Rightarrow> int \<Rightarrow> unit result" where
  "validate_declared_body_length header maximumBytes =
     (case header of
        None \<Rightarrow> Inr ()
      | Some h \<Rightarrow>
          if \<not> all_digits (trim h) then Inl invalid_content_length
          else (let declared = number_of_digits (trim h) in
                if \<not> is_safe_integer declared then Inl invalid_content_length
                else if \<not> jle declared (num maximumBytes) then Inl request_body_too_large
                else Inr ()))"

text \<open>The loop over the chunks, with the bytes counted so far.\<close>

fun read_chunks :: "int \<Rightarrow> int \<Rightarrow> bytes list \<Rightarrow> js_error option \<Rightarrow> bytes list result" where
  "read_chunks maximumBytes totalBytes [] failure = (case failure of None \<Rightarrow> Inr [] | Some e \<Rightarrow> Inl e)"
| "read_chunks maximumBytes totalBytes (chunk # chunks) failure =
     (let totalBytes = totalBytes + int (length chunk) in
      if totalBytes > maximumBytes then Inl request_body_too_large
      else bind_result (read_chunks maximumBytes totalBytes chunks failure) (\<lambda>cs. Inr (chunk # cs)))"

definition read_request_body :: "http_request \<Rightarrow> int \<Rightarrow> buffered_body result" where
  "read_request_body request maximumBytes =
     (if to_upper (req_method request) = js ''GET'' \<or> to_upper (req_method request) = js ''HEAD''
      then Inr \<lparr>bb_bytes = None, bb_text = None\<rparr>
      else
        bind_result (validate_declared_body_length (header_get (req_headers request) (js ''content-length'')) maximumBytes)
          (\<lambda>_. case req_body request of
             None \<Rightarrow> Inr \<lparr>bb_bytes = None, bb_text = None\<rparr>
           | Some stream \<Rightarrow>
               bind_result (read_chunks maximumBytes 0 (st_chunks stream) (st_failure stream)) (\<lambda>chunks.
                 Inr \<lparr>bb_bytes = Some (concat chunks), bb_text = Some (text_decode (concat chunks))\<rparr>)))"

section \<open>What is buffered\<close>

lemma read_chunks_Inr:
  "read_chunks m t cs failure = Inr cs' \<longleftrightarrow>
     failure = None \<and> cs' = cs \<and> (cs = [] \<or> t + int (length (concat cs)) \<le> m)"
proof (induction cs arbitrary: t cs')
  case (Cons c cs)
  then show ?case by (cases cs) (auto simp: Let_def bind_result_Inr)
qed (auto split: option.split)

text \<open>Only too many bytes, or the stream's own failure, stop the reading.\<close>

lemma read_chunks_Inl:
  "read_chunks m t cs failure = Inl e \<Longrightarrow> t \<le> m \<Longrightarrow>
     e = request_body_too_large \<and> t + int (length (concat cs)) > m \<or> failure = Some e"
proof (induction cs arbitrary: t)
  case (Cons c cs)
  show ?case
  proof (cases "t + int (length c) \<le> m")
    case True
    with Cons.prems have "read_chunks m (t + int (length c)) cs failure = Inl e"
      by (auto simp: Let_def bind_result_Inl)
    from Cons.IH [OF this True] show ?thesis by auto
  next
    case False
    with Cons.prems show ?thesis by (auto simp: Let_def)
  qed
qed (auto split: option.splits)

text \<open>A declared length that passes: a run of digits naming a safe integer within the maximum.\<close>

lemma declared_length_ok:
  assumes "0 \<le> m" "m \<le> max_safe"
  shows "validate_declared_body_length header m = Inr u \<longleftrightarrow>
     (case header of None \<Rightarrow> True | Some h \<Rightarrow> all_digits (trim h) \<and> digits_value (trim h) \<le> m)"
proof (cases header)
  case (Some h)
  show ?thesis
  proof (cases "all_digits (trim h)")
    case d: True
    then have v: "0 \<le> digits_value (trim h)" by (simp add: all_digits_def digits_value_nonneg)
    show ?thesis
    proof (cases "digits_value (trim h) \<le> 2 ^ 53")
      case True
      with v have "number_of_digits (trim h) = num (digits_value (trim h))"
        by (simp add: number_of_digits_def)
      with Some d v assms show ?thesis
        by (auto simp: validate_declared_body_length_def max_safe_def)
    next
      case False
      have "\<not> (is_safe_integer (number_of_digits (trim h)) \<and> jle (number_of_digits (trim h)) (num m))"
      proof
        assume *: "is_safe_integer (number_of_digits (trim h)) \<and> jle (number_of_digits (trim h)) (num m)"
        then obtain n where n: "fl (of_int (digits_value (trim h))) = num n" "\<bar>n\<bar> \<le> max_safe"
          by (auto simp: is_safe_integer_iff number_of_digits_def)
        have "(of_int (2 ^ 53) :: rat) \<le> of_int n"
          using fl_large [of "digits_value (trim h)" "of_int n"] False n(1) by (simp add: num_def)
        then have "(2 :: int) ^ 53 \<le> n" by (simp only: of_int_le_iff)
        with n(2) show False by (simp add: max_safe_def)
      qed
      with Some d False assms show ?thesis
        by (auto simp: validate_declared_body_length_def Let_def max_safe_def)
    qed
  next
    case False
    with Some show ?thesis by (simp add: validate_declared_body_length_def)
  qed
qed (simp add: validate_declared_body_length_def)

text \<open>C38: Bodies stay within the limit. A request is buffered with bytes \<open>b\<close> exactly when it is not a GET or
  HEAD, its declared length (if any) is a decimal within the limit, its stream ends without failure
  and \<open>b\<close> is the whole of it, no longer than the limit; the text is then the decoding of those very
  bytes. For limits that are positive safe integers, which the constructor enforces.\<close>

theorem body_within_limit:
  assumes "0 < m" "m \<le> max_safe"
  shows "read_request_body request m = Inr \<lparr>bb_bytes = Some b, bb_text = t\<rparr> \<longleftrightarrow>
     to_upper (req_method request) \<noteq> js ''GET'' \<and> to_upper (req_method request) \<noteq> js ''HEAD''
     \<and> (case header_get (req_headers request) (js ''content-length'') of None \<Rightarrow> True
        | Some h \<Rightarrow> all_digits (trim h) \<and> digits_value (trim h) \<le> m)
     \<and> (\<exists>stream. req_body request = Some stream \<and> st_failure stream = None \<and> concat (st_chunks stream) = b)
     \<and> int (length b) \<le> m \<and> t = Some (text_decode b)"
proof -
  have "read_chunks m 0 (st_chunks stream) (st_failure stream) = Inr cs
      \<longleftrightarrow> st_failure stream = None \<and> cs = st_chunks stream \<and> int (length (concat (st_chunks stream))) \<le> m" for stream cs
    using assms(1) by (auto simp: read_chunks_Inr)
  then show ?thesis
    using declared_length_ok [of m "header_get (req_headers request) (js ''content-length'')" "()"] assms
    by (cases "req_body request") (auto simp: read_request_body_def bind_result_Inr)
qed

text \<open>The errors of reading: those of the declared length, too many bytes, or the failure of the stream.\<close>

lemma body_errors:
  assumes "0 < m" "read_request_body request m = Inl e"
  shows "e \<in> {invalid_content_length, request_body_too_large}
     \<or> (\<exists>stream. req_body request = Some stream \<and> st_failure stream = Some e)"
proof (cases "validate_declared_body_length (header_get (req_headers request) (js ''content-length'')) m")
  case (Inl err)
  then have "err \<in> {invalid_content_length, request_body_too_large}"
    by (auto simp: validate_declared_body_length_def Let_def split: option.splits if_splits)
  with Inl assms(2) show ?thesis by (auto simp: read_request_body_def split: if_splits)
next
  case (Inr u)
  with assms(2) obtain stream where s: "req_body request = Some stream"
    and r: "read_chunks m 0 (st_chunks stream) (st_failure stream) = Inl e"
    by (auto simp: read_request_body_def bind_result_Inl split: if_splits option.splits)
  from read_chunks_Inl [OF r] assms(1) s show ?thesis by auto
qed

definition demo_post :: http_request where
  "demo_post = \<lparr>req_method = js ''POST'', req_url = \<lparr>u_protocol = js ''https:'', u_username = [], u_password = [],
       u_hostname = js ''edge.test'', u_host = js ''edge.test'', u_port = [], u_pathname = js ''/a'', u_search = [], u_hash = []\<rparr>,
     req_headers = [(js ''content-length'', js ''3'')],
     req_body = Some \<lparr>st_chunks = [[104, 105], [33]], st_failure = None\<rparr>\<rparr>"

theorem body_within_limit_witness:
  "read_request_body demo_post 3 = Inr \<lparr>bb_bytes = Some [104, 105, 33], bb_text = Some (text_decode [104, 105, 33])\<rparr>"
proof -
  have "to_upper (js ''POST'') = js ''POST''" "to_lower (js ''content-length'') = js ''content-length''" by code_simp+
  moreover have "trim (js ''3'') = js ''3''" by (rule trim_id) (simp_all add: js_def is_space_def)
  moreover have "all_digits (js ''3'')" "digits_value (js ''3'') = 3"
    by (simp_all add: all_digits_def js_def is_digit_def digits_value_def)
  ultimately show ?thesis
    using body_within_limit [of 3 demo_post "[104, 105, 33]" "Some (text_decode [104, 105, 33])"]
    by (simp add: demo_post_def header_get_def header_values_def max_safe_def)
qed

end
