(* ===== verification/Proxy.thy ===== *)
theory Proxy imports Http BundleTypes begin

text \<open>
  Forwarding a request (\<open>edge/src/proxy.ts\<close>): the upstream URL, the headers sent upstream and
  back, and the call of the fetcher. The fetcher, the URL parser and the two abort signals are
  arguments. Assigning to \<open>pathname\<close> and \<open>search\<close> of a URL replaces those components: what is
  assigned are components of parsed URLs, which the parser has already encoded.
\<close>

definition hop_by_hop_headers :: "ustr list" where
  "hop_by_hop_headers = [js ''connection'', js ''keep-alive'', js ''proxy-authenticate'',
     js ''proxy-authorization'', js ''te'', js ''trailer'', js ''transfer-encoding'', js ''upgrade'']"

text \<open>\<open>HEADER_NAME_PATTERN\<close>: the token characters.\<close>

definition token_char :: "nat \<Rightarrow> bool" where
  "token_char c \<longleftrightarrow> is_digit c \<or> is_lower c \<or> is_upper c
     \<or> c \<in> {33, 35, 36, 37, 38, 39, 42, 43, 45, 46, 94, 95, 96, 124, 126}"

definition header_name_pattern :: "ustr \<Rightarrow> bool" where
  "header_name_pattern name \<longleftrightarrow> name \<noteq> [] \<and> list_all token_char name"

definition default_upstream_timeout_ms :: int where "default_upstream_timeout_ms = 10000"

section \<open>The upstream URL\<close>

definition strip_slashes :: "ustr \<Rightarrow> ustr" where
  "strip_slashes s = rev (dropWhile (\<lambda>c. c = 47) (rev s))"

definition build_upstream_url :: "url_parser \<Rightarrow> ustr \<Rightarrow> url \<Rightarrow> url result" where
  "build_upstream_url parse_url upstream incomingUrl =
     (case parse_url upstream of
        None \<Rightarrow> Inl (TypeError (js ''Invalid URL''))
      | Some targetUrl \<Rightarrow>
          if u_protocol targetUrl \<noteq> js ''http:'' \<and> u_protocol targetUrl \<noteq> js ''https:''
          then Inl (Error (js ''upstream must use HTTP or HTTPS''))
          else if u_username targetUrl \<noteq> [] \<or> u_password targetUrl \<noteq> []
          then Inl (Error (js ''upstream must not contain credentials''))
          else if \<not> uses_secure_transport targetUrl
          then Inl (Error (js ''upstream must use HTTPS unless it targets loopback''))
          else
            (let upstreamPath = (if u_pathname targetUrl = js ''/'' then [] else strip_slashes (u_pathname targetUrl));
                 path = upstreamPath @ u_pathname incomingUrl in
             Inr (targetUrl\<lparr>u_pathname := (if path = [] then js ''/'' else path),
                            u_search := u_search incomingUrl, u_hash := []\<rparr>)))"

section \<open>Headers\<close>

definition connection_names :: "headers \<Rightarrow> ustr list" where
  "connection_names source =
     (case header_get source (js ''connection'') of
        None \<Rightarrow> []
      | Some connection \<Rightarrow> filter header_name_pattern (map trim (split_at 44 connection)))"

definition sanitize_headers :: "headers \<Rightarrow> headers" where
  "sanitize_headers source =
     foldl (\<lambda>h name. header_delete name h)
       (foldl (\<lambda>h name. header_delete name h) source (connection_names source)) hop_by_hop_headers"

definition replaced_headers :: "ustr list" where
  "replaced_headers = [js ''host'', js ''content-length'', js ''accept-encoding'', js ''forwarded'',
     js ''x-forwarded-for'', js ''x-forwarded-host'', js ''x-forwarded-proto'', js ''x-real-ip'',
     js ''x-request-id'']"

definition create_upstream_headers :: "headers \<Rightarrow> url \<Rightarrow> ustr option \<Rightarrow> ustr option \<Rightarrow> headers" where
  "create_upstream_headers source incomingUrl clientIp requestId =
     (let h = foldl (\<lambda>h name. header_delete name h) (sanitize_headers source) replaced_headers;
          h = header_set (js ''x-forwarded-host'') (u_host incomingUrl) h;
          h = header_set (js ''x-forwarded-proto'') (butlast (u_protocol incomingUrl)) h;
          h = (case clientIp of
                 Some ip \<Rightarrow>
                   if trim ip \<noteq> [] then header_set (js ''x-real-ip'') ip (header_set (js ''x-forwarded-for'') ip h)
                   else h
               | None \<Rightarrow> h)
      in case requestId of Some i \<Rightarrow> header_set (js ''x-request-id'') i h | None \<Rightarrow> h)"

definition create_client_response :: "http_response \<Rightarrow> http_response result" where
  "create_client_response upstreamResponse =
     (let h = sanitize_headers (res_headers upstreamResponse);
          h = (if header_has h (js ''content-encoding'')
               then header_delete (js ''content-length'') (header_delete (js ''content-encoding'') h) else h)
      in new_response (res_body upstreamResponse) (res_status upstreamResponse) (res_statusText upstreamResponse) h)"

section \<open>Forwarding\<close>

record upstream_request =
  up_method :: ustr
  up_url :: url
  up_headers :: headers
  up_body :: "bytes option"

text \<open>The world the proxy acts in: the fetcher, and the two abort signals it reads after a failure.\<close>

record 's proxy_env =
  env_fetcher :: "upstream_request \<Rightarrow> 's \<Rightarrow> http_response result \<times> 's"
  env_timeout_aborted :: "'s \<Rightarrow> bool"
  env_request_aborted :: "'s \<Rightarrow> bool"

record proxy_input =
  px_request :: http_request
  px_route :: compiled_route
  px_body :: "bytes option"
  px_clientIp :: "ustr option"
  px_requestId :: "ustr option"
  px_timeoutMs :: "jsnum option"

definition upstream_request_for :: "proxy_input \<Rightarrow> url \<Rightarrow> upstream_request" where
  "upstream_request_for i target =
     \<lparr>up_method = req_method (px_request i), up_url = target,
      up_headers = create_upstream_headers (req_headers (px_request i)) (req_url (px_request i))
        (px_clientIp i) (px_requestId i),
      up_body = (if req_method (px_request i) \<noteq> js ''GET'' \<and> req_method (px_request i) \<noteq> js ''HEAD''
                 then px_body i else None)\<rparr>"

definition proxy_to_upstream ::
  "url_parser \<Rightarrow> 's proxy_env \<Rightarrow> proxy_input \<Rightarrow> 's \<Rightarrow> http_response result \<times> 's" where
  "proxy_to_upstream parse_url env i s =
     (case build_upstream_url parse_url (cr_upstream (px_route i)) (req_url (px_request i)) of
        Inl e \<Rightarrow> (Inl e, s)
      | Inr targetUrl \<Rightarrow>
          (let timeoutMs = (case px_timeoutMs i of None \<Rightarrow> num default_upstream_timeout_ms | Some t \<Rightarrow> t) in
           if \<not> is_safe_integer timeoutMs \<or> jle timeoutMs (num 0)
           then (Inl (Error (js ''upstream timeout must be a positive integer'')), s)
           else
             (case env_fetcher env (upstream_request_for i targetUrl) s of
                (Inl e, s') \<Rightarrow>
                  (if env_timeout_aborted env s' \<and> \<not> env_request_aborted env s'
                   then (Inl UpstreamTimeoutError, s') else (Inl e, s'))
              | (Inr upstreamResponse, s') \<Rightarrow> (create_client_response upstreamResponse, s'))))"

section \<open>What the headers hold\<close>

lemma sanitize_get [header_simps]:
  "header_get (sanitize_headers h) n =
     (if to_lower n \<in> to_lower ` set (connection_names h) \<or> to_lower n \<in> set hop_by_hop_headers then None
      else header_get h n)"
proof -
  have "to_lower ` set hop_by_hop_headers = set hop_by_hop_headers" by code_simp
  then show ?thesis by (simp add: sanitize_headers_def header_get_foldl_delete)
qed

lemma headers_ok_foldl_delete: "headers_ok h \<Longrightarrow> headers_ok (foldl (\<lambda>h n. header_delete n h) h ns)"
  by (induction ns arbitrary: h) auto

lemma to_lower_names:
  "to_lower (js ''x-forwarded-for'') = js ''x-forwarded-for''"
  "to_lower (js ''x-forwarded-host'') = js ''x-forwarded-host''"
  "to_lower (js ''x-forwarded-proto'') = js ''x-forwarded-proto''"
  "to_lower (js ''x-real-ip'') = js ''x-real-ip''"
  "to_lower (js ''x-request-id'') = js ''x-request-id''"
  "to_lower (js ''content-encoding'') = js ''content-encoding''"
  "to_lower (js ''content-length'') = js ''content-length''"
  "to_lower ` set replaced_headers = set replaced_headers"
  by code_simp+

text \<open>
  The headers an upstream sees, as a specification: the proxy's own headers, then the
  client's end-to-end headers, and nothing else. The names are listed here on their own.
\<close>

definition upstream_header_spec :: "headers \<Rightarrow> url \<Rightarrow> ustr option \<Rightarrow> ustr option \<Rightarrow> ustr \<Rightarrow> ustr option" where
  "upstream_header_spec source incomingUrl clientIp requestId n =
     (if n = js ''x-forwarded-host'' then Some (u_host incomingUrl)
      else if n = js ''x-forwarded-proto'' then Some (butlast (u_protocol incomingUrl))
      else if n = js ''x-forwarded-for'' \<or> n = js ''x-real-ip''
      then (case clientIp of None \<Rightarrow> None | Some ip \<Rightarrow> if trim ip = [] then None else Some ip)
      else if n = js ''x-request-id'' then requestId
      else if n \<in> js ` {''host'', ''content-length'', ''accept-encoding'', ''forwarded''}
           \<or> n \<in> js ` {''connection'', ''keep-alive'', ''proxy-authenticate'', ''proxy-authorization'', ''te'', ''trailer'',
                ''transfer-encoding'', ''upgrade''}
           \<or> (\<exists>listed part. header_get source (js ''connection'') = Some listed \<and> part \<in> set (split_at 44 listed)
                \<and> header_name_pattern (trim part) \<and> n = to_lower (trim part)) then None
      else header_get source n)"

lemma connection_listed:
  "n \<in> to_lower ` set (connection_names source) \<longleftrightarrow>
     (\<exists>listed part. header_get source (js ''connection'') = Some listed \<and> part \<in> set (split_at 44 listed)
        \<and> header_name_pattern (trim part) \<and> n = to_lower (trim part))"
  by (cases "header_get source (js ''connection'')") (auto simp: connection_names_def)

lemma upstream_header_spec_lists:
  "upstream_header_spec source incomingUrl clientIp requestId n =
     (if n = js ''x-forwarded-host'' then Some (u_host incomingUrl)
      else if n = js ''x-forwarded-proto'' then Some (butlast (u_protocol incomingUrl))
      else if n = js ''x-forwarded-for'' \<or> n = js ''x-real-ip''
      then (case clientIp of None \<Rightarrow> None | Some ip \<Rightarrow> if trim ip = [] then None else Some ip)
      else if n = js ''x-request-id'' then requestId
      else if n \<in> set replaced_headers \<or> n \<in> set hop_by_hop_headers
           \<or> n \<in> to_lower ` set (connection_names source) then None
      else header_get source n)"
  unfolding upstream_header_spec_def connection_listed [symmetric] by (simp add: replaced_headers_def hop_by_hop_headers_def)

text \<open>C16: Header sanitising. Read under any name, the headers sent upstream are the proxy's own
  forwarding headers (host, protocol, client address, request id) or else the client's value of an
  end-to-end header: no hop-by-hop header, none the client's \<open>Connection\<close> lists, and no forwarding
  header the client supplied gets through, and every other header arrives unchanged.\<close>

theorem upstream_headers_exact:
  "header_get (create_upstream_headers source incomingUrl clientIp requestId) n
     = upstream_header_spec source incomingUrl clientIp requestId (to_lower n)"
proof -
  have get: "header_get source (to_lower n) = header_get source n"
    by (simp add: header_get_def header_values_def)
  have names: "js ''x-forwarded-for'' \<in> set replaced_headers" "js ''x-real-ip'' \<in> set replaced_headers"
    "js ''x-request-id'' \<in> set replaced_headers" "js ''x-forwarded-host'' \<in> set replaced_headers"
    "js ''x-forwarded-proto'' \<in> set replaced_headers"
    by (simp_all add: replaced_headers_def)
  show ?thesis
    using names
    by (cases clientIp; cases requestId)
      (simp_all add: create_upstream_headers_def upstream_header_spec_lists header_simps to_lower_names get Let_def)
qed

text \<open>What is left of a path without its trailing slashes.\<close>

lemma strip_slashes_exact:
  "\<exists>slashes. s = strip_slashes s @ replicate slashes 47 \<and> (strip_slashes s = [] \<or> last (strip_slashes s) \<noteq> 47)"
proof -
  define d z where "d = dropWhile (\<lambda>c. c = 47) (rev s)" and "z = takeWhile (\<lambda>c. c = 47) (rev s)"
  have "z = replicate (length z) 47"
    by (rule replicate_length_same [symmetric]) (auto simp: z_def dest: set_takeWhileD)
  moreover have "s = rev d @ rev z" by (simp add: d_def z_def flip: rev_append)
  ultimately have "s = strip_slashes s @ replicate (length z) 47"
    by (metis d_def rev_replicate strip_slashes_def)
  moreover have "d = [] \<or> hd d \<noteq> 47" using hd_dropWhile [of "\<lambda>c. c = 47" "rev s"] by (auto simp: d_def)
  ultimately show ?thesis by (auto simp: strip_slashes_def d_def last_rev)
qed

text \<open>C21: Upstream target. Whatever URL the client asked for, a request that is forwarded goes to the
  scheme, credentials (none), host and port of the route's upstream, over HTTPS or to a loopback
  host; the path is the upstream's path without its trailing slashes followed by the client's path
  (\<open>/\<close> if both are empty), the query is the client's, and there is no fragment.\<close>

theorem upstream_target_fixed:
  assumes "build_upstream_url parse_url upstream incomingUrl = Inr t"
  shows "\<exists>base. parse_url upstream = Some base \<and> uses_secure_transport t
     \<and> u_username t = [] \<and> u_password t = []
     \<and> t = base\<lparr>u_pathname := u_pathname t, u_search := u_search incomingUrl, u_hash := []\<rparr>
     \<and> (\<exists>pre slashes. u_pathname base = pre @ replicate slashes 47 \<and> (pre = [] \<or> last pre \<noteq> 47)
          \<and> u_pathname t = (if pre = [] \<and> u_pathname incomingUrl = [] then js ''/'' else pre @ u_pathname incomingUrl))"
proof -
  from assms obtain base where b: "parse_url upstream = Some base"
    by (auto simp: build_upstream_url_def split: option.splits)
  define pre where "pre = (if u_pathname base = js ''/'' then [] else strip_slashes (u_pathname base))"
  define p where "p = (if pre @ u_pathname incomingUrl = [] then js ''/'' else pre @ u_pathname incomingUrl)"
  from assms b have ok: "u_username base = []" "u_password base = []" "uses_secure_transport base"
    and t: "t = base\<lparr>u_pathname := p, u_search := u_search incomingUrl, u_hash := []\<rparr>"
    by (auto simp: build_upstream_url_def Let_def pre_def p_def split: if_splits)
  have "\<exists>slashes. u_pathname base = pre @ replicate slashes 47 \<and> (pre = [] \<or> last pre \<noteq> 47)"
  proof (cases "u_pathname base = js ''/''")
    case True
    then show ?thesis by (intro exI [of _ 1]) (simp add: pre_def js_def)
  next
    case False
    then show ?thesis using strip_slashes_exact [of "u_pathname base"] by (simp add: pre_def)
  qed
  then obtain slashes where slashes: "u_pathname base = pre @ replicate slashes 47" "pre = [] \<or> last pre \<noteq> 47" by blast
  have "u_pathname t = (if pre = [] \<and> u_pathname incomingUrl = [] then js ''/'' else pre @ u_pathname incomingUrl)"
    by (simp add: t p_def)
  with b ok t slashes show ?thesis
    by (intro exI [of _ base] conjI exI [of _ pre] exI [of _ slashes]) (simp_all add: uses_secure_transport_def)
qed

definition demo_base_url :: url where
  "demo_base_url = \<lparr>u_protocol = js ''https:'', u_username = [], u_password = [], u_hostname = js ''up.test'',
     u_host = js ''up.test'', u_port = [], u_pathname = js ''/api/'', u_search = [], u_hash = js ''#x''\<rparr>"

definition demo_incoming_url :: url where
  "demo_incoming_url = \<lparr>u_protocol = js ''http:'', u_username = [], u_password = [], u_hostname = js ''edge.test'',
     u_host = js ''edge.test'', u_port = [], u_pathname = js ''/v1'', u_search = js ''?q=1'', u_hash = []\<rparr>"

definition demo_target_url :: url where
  "demo_target_url = demo_base_url\<lparr>u_pathname := js ''/api/v1'', u_search := js ''?q=1'', u_hash := []\<rparr>"

lemma demo_build: "build_upstream_url (\<lambda>s. Some demo_base_url) [] demo_incoming_url = Inr demo_target_url"
  by (simp add: build_upstream_url_def demo_base_url_def demo_incoming_url_def demo_target_url_def
      uses_secure_transport_def strip_slashes_def js_def)

theorem upstream_target_fixed_witness:
  "uses_secure_transport demo_target_url \<and> u_search demo_target_url = js ''?q=1''
   \<and> (\<exists>pre slashes. js ''/api/'' = pre @ replicate slashes 47 \<and> (pre = [] \<or> last pre \<noteq> 47)
        \<and> js ''/api/v1'' = pre @ js ''/v1'')"
  using upstream_target_fixed [OF demo_build]
  by (auto simp: demo_incoming_url_def demo_target_url_def demo_base_url_def)

text \<open>What the client sees of an upstream response.\<close>

definition client_header_spec :: "headers \<Rightarrow> ustr \<Rightarrow> ustr option" where
  "client_header_spec source n =
     (if n \<in> set hop_by_hop_headers \<or> n \<in> to_lower ` set (connection_names source) then None
      else if header_get (sanitize_headers source) (js ''content-encoding'') \<noteq> None
           \<and> (n = js ''content-encoding'' \<or> n = js ''content-length'') then None
      else header_get source n)"

lemma client_response_headers:
  assumes "create_client_response r = Inr r'"
  shows "res_status r' = res_status r \<and> res_body r' = res_body r
     \<and> header_get (res_headers r') n = client_header_spec (res_headers r) (to_lower n)"
proof -
  have get: "header_get source (to_lower n) = header_get source n" for source
    by (simp add: header_get_def header_values_def)
  from assms show ?thesis
    by (auto simp: create_client_response_def new_response_def client_header_spec_def header_simps Let_def
        header_has_iff to_lower_names get split: if_splits)
qed

end
