(* ===== verification/CircuitBreaker.thy ===== *)
theory CircuitBreaker imports JsString begin

text \<open>
  The upstream circuit breaker (\<open>edge/src/circuit-breaker.ts\<close>): one circuit per upstream
  origin, the permits handed out to requests, and the transitions reported to the observer.
  Clock readings and durations are integers (milliseconds); the doubles of the source hold
  them exactly below \<open>2 ^ 53\<close>. The parser of URLs is an argument: \<open>origin_of u\<close> is
  \<open>new URL(u).origin\<close>, or \<open>None\<close> where the constructor throws.
\<close>

section \<open>State\<close>

datatype circuit_state = Closed | Open | HalfOpen

record circuit =
  ci_state :: circuit_state
  ci_consecutiveFailures :: int
  ci_openedUntil :: int
  ci_lastTouched :: int

text \<open>
  The breaker and, in \<open>cb_transitions\<close>, the calls made to \<open>onTransition\<close> so far, as pairs of
  the previous and the next state. An exception of the observer is swallowed by the code, so
  the observer is not part of the behaviour.
\<close>

record circuit_breaker =
  cb_failureThreshold :: int
  cb_openDurationMs :: int
  cb_maximumUpstreams :: int
  cb_circuits :: "circuit js_map"
  cb_transitions :: "(circuit_state \<times> circuit_state) list"

definition default_failure_threshold :: int where "default_failure_threshold = 5"
definition default_open_duration_ms :: int where "default_open_duration_ms = 30000"
definition default_maximum_upstreams :: int where "default_maximum_upstreams = 1024"

definition validate_positive_integer :: "jsnum \<Rightarrow> ustr \<Rightarrow> int result" where
  "validate_positive_integer value name =
     (if \<not> is_safe_integer value \<or> jle value (num 0)
      then Inl (Error (name @ js '' must be a positive integer''))
      else Inr (int_of_num value))"

definition new_circuit_breaker ::
  "jsnum option \<Rightarrow> jsnum option \<Rightarrow> jsnum option \<Rightarrow> circuit_breaker result" where
  "new_circuit_breaker failureThreshold openDurationMs maximumUpstreams =
     bind_result (validate_positive_integer
         (case failureThreshold of None \<Rightarrow> num default_failure_threshold | Some n \<Rightarrow> n)
         (js ''circuit failure threshold'')) (\<lambda>threshold.
     bind_result (validate_positive_integer
         (case openDurationMs of None \<Rightarrow> num default_open_duration_ms | Some n \<Rightarrow> n)
         (js ''circuit open duration'')) (\<lambda>duration.
     bind_result (validate_positive_integer
         (case maximumUpstreams of None \<Rightarrow> num default_maximum_upstreams | Some n \<Rightarrow> n)
         (js ''maximum upstream circuit count'')) (\<lambda>maximum.
       Inr \<lparr>cb_failureThreshold = threshold, cb_openDurationMs = duration, cb_maximumUpstreams = maximum,
            cb_circuits = [], cb_transitions = []\<rparr>)))"

definition upstream_origin :: "(ustr \<Rightarrow> ustr option) \<Rightarrow> ustr \<Rightarrow> ustr" where
  "upstream_origin origin_of upstream = (case origin_of upstream of Some origin \<Rightarrow> origin | None \<Rightarrow> upstream)"

section \<open>Circuits\<close>

text \<open>The loop of \<open>#evictClosedCircuit\<close>: the candidate so far with its touch time.\<close>

fun evict_candidate :: "(ustr \<times> int) option \<Rightarrow> (ustr \<times> circuit) list \<Rightarrow> (ustr \<times> int) option" where
  "evict_candidate best [] = best"
| "evict_candidate best ((key, c) # rest) =
     evict_candidate
       (if ci_state c = Closed \<and> (case best of None \<Rightarrow> True | Some (_, oldestTouch) \<Rightarrow> ci_lastTouched c < oldestTouch)
        then Some (key, ci_lastTouched c) else best) rest"

definition evict_closed_circuit :: "circuit_breaker \<Rightarrow> bool \<times> circuit_breaker" where
  "evict_closed_circuit b =
     (case evict_candidate None (cb_circuits b) of
        None \<Rightarrow> (False, b)
      | Some (candidateKey, _) \<Rightarrow> (True, b\<lparr>cb_circuits := AList.delete candidateKey (cb_circuits b)\<rparr>))"

definition fresh_circuit :: "int \<Rightarrow> circuit" where
  "fresh_circuit now = \<lparr>ci_state = Closed, ci_consecutiveFailures = 0, ci_openedUntil = 0, ci_lastTouched = now\<rparr>"

definition insert_circuit :: "ustr \<Rightarrow> circuit \<Rightarrow> circuit_breaker \<Rightarrow> circuit_breaker" where
  "insert_circuit key c b = b\<lparr>cb_circuits := AList.update key c (cb_circuits b)\<rparr>"

definition find_or_create :: "ustr \<Rightarrow> int \<Rightarrow> circuit_breaker \<Rightarrow> circuit option \<times> circuit_breaker" where
  "find_or_create key now b =
     (case map_of (cb_circuits b) key of
        Some existing \<Rightarrow> (Some existing, b)
      | None \<Rightarrow>
          (case (if int (length (cb_circuits b)) \<ge> cb_maximumUpstreams b then evict_closed_circuit b else (True, b)) of
             (False, b') \<Rightarrow> (None, b')
           | (True, b') \<Rightarrow> (Some (fresh_circuit now), insert_circuit key (fresh_circuit now) b')))"

text \<open>\<open>#transition\<close> on the circuit of a key: the new state and the report to the observer.\<close>

definition transition :: "ustr \<Rightarrow> circuit \<Rightarrow> circuit_state \<Rightarrow> circuit_breaker \<Rightarrow> circuit_breaker" where
  "transition key c next_state b =
     (if ci_state c = next_state then insert_circuit key c b
      else insert_circuit key (c\<lparr>ci_state := next_state\<rparr>)
             (b\<lparr>cb_transitions := cb_transitions b @ [(ci_state c, next_state)]\<rparr>))"

section \<open>Permits\<close>

text \<open>What \<open>acquire\<close> returns: a permit for a key, marked as the probe of a half-open circuit or
  not, or a rejection with the seconds to wait.\<close>

datatype acquisition = Permit ustr bool | Rejection int

definition rejection :: "int \<Rightarrow> acquisition" where
  "rejection remainingMilliseconds = Rejection (max 1 (- (- remainingMilliseconds div 1000)))"

definition circuit_acquire :: "ustr \<Rightarrow> int \<Rightarrow> circuit_breaker \<Rightarrow> acquisition \<times> circuit_breaker" where
  "circuit_acquire key now b =
     (case find_or_create key now b of
        (None, b') \<Rightarrow> (Rejection 1, b')
      | (Some circuit, b') \<Rightarrow>
          (let c = circuit\<lparr>ci_lastTouched := now\<rparr>; b1 = insert_circuit key c b' in
           if ci_state c = Open
           then (if now < ci_openedUntil c then (rejection (ci_openedUntil c - now), b1)
                 else (Permit key True, transition key c HalfOpen b1))
           else if ci_state c = HalfOpen then (Rejection 1, b1)
           else (Permit key False, b1)))"

definition record_success :: "ustr \<Rightarrow> circuit_breaker \<Rightarrow> circuit_breaker" where
  "record_success key b =
     (case map_of (cb_circuits b) key of
        None \<Rightarrow> b
      | Some c \<Rightarrow>
          (let b1 = (if ci_state c \<noteq> Closed then transition key c Closed b else b)
           in b1\<lparr>cb_circuits := AList.delete key (cb_circuits b1)\<rparr>))"

definition record_failure :: "ustr \<Rightarrow> int \<Rightarrow> circuit_breaker \<Rightarrow> circuit_breaker" where
  "record_failure key now b =
     (case find_or_create key now b of
        (None, b') \<Rightarrow> b'
      | (Some circuit, b') \<Rightarrow>
          (let c = circuit\<lparr>ci_lastTouched := now\<rparr> in
           if ci_state c = HalfOpen
           then transition key (c\<lparr>ci_openedUntil := now + cb_openDurationMs b\<rparr>) Open b'
           else if ci_state c = Open
           then insert_circuit key
                  (c\<lparr>ci_openedUntil := max (ci_openedUntil c) (now + cb_openDurationMs b)\<rparr>) b'
           else
             (let c1 = c\<lparr>ci_consecutiveFailures := ci_consecutiveFailures c + 1\<rparr> in
              if ci_consecutiveFailures c1 \<ge> cb_failureThreshold b
              then transition key (c1\<lparr>ci_openedUntil := now + cb_openDurationMs b\<rparr>) Open b'
              else insert_circuit key c1 b')))"

definition abandon :: "ustr \<Rightarrow> bool \<Rightarrow> int \<Rightarrow> circuit_breaker \<Rightarrow> circuit_breaker" where
  "abandon key halfOpenProbe now b =
     (case map_of (cb_circuits b) key of
        None \<Rightarrow> b
      | Some c \<Rightarrow>
          if halfOpenProbe \<and> ci_state c = HalfOpen
          then transition key (c\<lparr>ci_openedUntil := now\<rparr>) Open b
          else if ci_state c = Closed \<and> ci_consecutiveFailures c = 0
          then b\<lparr>cb_circuits := AList.delete key (cb_circuits b)\<rparr>
          else b)"

text \<open>
  The permit objects: each closes over its key, whether it is a probe, and its own
  \<open>completed\<close> flag, so that of all the calls made on one permit only the first acts.
\<close>

record circuit_permit =
  pm_key :: ustr
  pm_halfOpenProbe :: bool
  pm_completed :: bool

datatype permit_action = RecordSuccess | RecordFailure | Abandon

fun perform :: "permit_action \<Rightarrow> ustr \<Rightarrow> bool \<Rightarrow> int \<Rightarrow> circuit_breaker \<Rightarrow> circuit_breaker" where
  "perform RecordSuccess key probe now b = record_success key b"
| "perform RecordFailure key probe now b = record_failure key now b"
| "perform Abandon key probe now b = abandon key probe now b"

record breaker_system =
  bs_breaker :: circuit_breaker
  bs_permits :: "circuit_permit list"

text \<open>\<open>acquire\<close> of an upstream, and \<open>finish\<close> of the \<open>i\<close>-th permit with one of its actions.\<close>

definition acquire_permit ::
  "(ustr \<Rightarrow> ustr option) \<Rightarrow> ustr \<Rightarrow> int \<Rightarrow> breaker_system \<Rightarrow> acquisition \<times> breaker_system" where
  "acquire_permit origin_of upstream now s =
     (case circuit_acquire (upstream_origin origin_of upstream) now (bs_breaker s) of
        (Rejection seconds, b) \<Rightarrow> (Rejection seconds, s\<lparr>bs_breaker := b\<rparr>)
      | (Permit key probe, b) \<Rightarrow>
          (Permit key probe,
           \<lparr>bs_breaker = b,
            bs_permits = bs_permits s @ [\<lparr>pm_key = key, pm_halfOpenProbe = probe, pm_completed = False\<rparr>]\<rparr>))"

definition finish_permit :: "nat \<Rightarrow> permit_action \<Rightarrow> int \<Rightarrow> breaker_system \<Rightarrow> breaker_system" where
  "finish_permit i action now s =
     (if i < length (bs_permits s) \<and> \<not> pm_completed (bs_permits s ! i)
      then (let p = bs_permits s ! i in
            \<lparr>bs_breaker = perform action (pm_key p) (pm_halfOpenProbe p) now (bs_breaker s),
             bs_permits = (bs_permits s)[i := p\<lparr>pm_completed := True\<rparr>]\<rparr>)
      else s)"

datatype breaker_event = AcquireEvent ustr int | FinishEvent nat permit_action int

fun breaker_step :: "(ustr \<Rightarrow> ustr option) \<Rightarrow> breaker_event \<Rightarrow> breaker_system \<Rightarrow> acquisition option \<times> breaker_system" where
  "breaker_step origin_of (AcquireEvent upstream now) s =
     (case acquire_permit origin_of upstream now s of (a, s') \<Rightarrow> (Some a, s'))"
| "breaker_step origin_of (FinishEvent i action now) s = (None, finish_permit i action now s)"

text \<open>A run of the breaker from its construction.\<close>

inductive breaker_reachable :: "(ustr \<Rightarrow> ustr option) \<Rightarrow> circuit_breaker \<Rightarrow> breaker_system \<Rightarrow> bool"
  for origin_of b where
  start: "breaker_reachable origin_of b \<lparr>bs_breaker = b, bs_permits = []\<rparr>"
| step: "breaker_reachable origin_of b s \<Longrightarrow> breaker_step origin_of e s = (a, s') \<Longrightarrow>
    breaker_reachable origin_of b s'"

section \<open>Eviction\<close>

lemma evict_candidate_Some:
  "evict_candidate best m = Some (k, t) \<Longrightarrow>
     best = Some (k, t) \<or> (\<exists>c. (k, c) \<in> set m \<and> ci_state c = Closed \<and> ci_lastTouched c = t)"
proof (induction best m rule: evict_candidate.induct)
  case (2 best key c rest)
  from "2.prems" have "evict_candidate (if ci_state c = Closed \<and>
      (case best of None \<Rightarrow> True | Some (_, oldestTouch) \<Rightarrow> ci_lastTouched c < oldestTouch)
      then Some (key, ci_lastTouched c) else best) rest = Some (k, t)" by simp
  from "2.IH" [OF this] show ?case by (auto split: if_splits)
qed simp

lemma evict_candidate_None:
  "evict_candidate best m = None \<longleftrightarrow> best = None \<and> (\<forall>kc \<in> set m. ci_state (snd kc) \<noteq> Closed)"
  by (induction best m rule: evict_candidate.induct) auto

lemma evict_candidate_oldest:
  "evict_candidate best m = Some (k, t) \<Longrightarrow>
     (\<forall>k' t'. best = Some (k', t') \<longrightarrow> t \<le> t')
     \<and> (\<forall>kc \<in> set m. ci_state (snd kc) = Closed \<longrightarrow> t \<le> ci_lastTouched (snd kc))"
proof (induction best m rule: evict_candidate.induct)
  case (2 best key c rest)
  define best' where "best' = (if ci_state c = Closed \<and>
      (case best of None \<Rightarrow> True | Some (_, oldestTouch) \<Rightarrow> ci_lastTouched c < oldestTouch)
      then Some (key, ci_lastTouched c) else best)"
  from "2.prems" have r: "evict_candidate best' rest = Some (k, t)" by (simp add: best'_def)
  note IH = "2.IH" [folded best'_def, OF r]
  show ?case
  proof (cases "best' = best")
    case True
    with IH show ?thesis
      by (cases best) (force simp: best'_def split: if_splits)+
  next
    case False
    with IH show ?thesis
      by (cases best) (force simp: best'_def split: if_splits)+
  qed
qed simp

section \<open>The invariant\<close>

text \<open>A closed circuit has counted fewer failures than the threshold; any other has reached it.\<close>

definition circuit_ok :: "int \<Rightarrow> circuit \<Rightarrow> bool" where
  "circuit_ok threshold c \<longleftrightarrow> 0 \<le> ci_consecutiveFailures c
     \<and> (ci_state c = Closed \<longleftrightarrow> ci_consecutiveFailures c < threshold)"

definition breaker_ok :: "circuit_breaker \<Rightarrow> bool" where
  "breaker_ok b \<longleftrightarrow> 0 < cb_failureThreshold b \<and> 0 < cb_openDurationMs b \<and> 0 < cb_maximumUpstreams b
     \<and> map_ok (cb_circuits b) \<and> int (length (cb_circuits b)) \<le> cb_maximumUpstreams b
     \<and> (\<forall>k c. map_of (cb_circuits b) k = Some c \<longrightarrow> circuit_ok (cb_failureThreshold b) c)"

definition unavailable_count :: "circuit_breaker \<Rightarrow> int" where
  "unavailable_count b = count_values (\<lambda>c. ci_state c \<noteq> Closed) (cb_circuits b)"

text \<open>The effect of a report on the number of circuits that are not closed.\<close>

fun transition_delta :: "circuit_state \<times> circuit_state \<Rightarrow> int" where
  "transition_delta (previous, next_state) =
     (if previous = Closed \<and> next_state \<noteq> Closed then 1
      else if previous \<noteq> Closed \<and> next_state = Closed then - 1 else 0)"

text \<open>One step of the breaker: settings kept, at most one report, which accounts for the change in
  the number of unavailable circuits; circuits of other keys that are not closed stay as they are.\<close>

definition breaker_moves :: "ustr \<Rightarrow> circuit_breaker \<Rightarrow> circuit_breaker \<Rightarrow> bool" where
  "breaker_moves key b b' \<longleftrightarrow>
     breaker_ok b' \<and> cb_failureThreshold b' = cb_failureThreshold b
     \<and> cb_openDurationMs b' = cb_openDurationMs b \<and> cb_maximumUpstreams b' = cb_maximumUpstreams b
     \<and> (\<exists>ts. cb_transitions b' = cb_transitions b @ ts \<and> length ts \<le> 1
          \<and> unavailable_count b' = unavailable_count b + sum_list (map transition_delta ts))
     \<and> (\<forall>k c. k \<noteq> key \<longrightarrow> ci_state c \<noteq> Closed \<longrightarrow>
          (map_of (cb_circuits b') k = Some c \<longleftrightarrow> map_of (cb_circuits b) k = Some c))"

lemma breaker_moves_refl: "breaker_ok b \<Longrightarrow> breaker_moves key b b"
  by (auto simp: breaker_moves_def intro!: exI [of _ "[]"])

lemma breaker_moves_silent:
  assumes "breaker_moves key b b1" "breaker_moves key b1 b'" "cb_transitions b1 = cb_transitions b"
  shows "breaker_moves key b b'"
  using assms unfolding breaker_moves_def by fastforce

lemma insert_moves:
  assumes "breaker_ok b" "map_of (cb_circuits b) key = Some c" "ci_state c' = ci_state c"
    and "circuit_ok (cb_failureThreshold b) c'"
  shows "breaker_moves key b (insert_circuit key c' b)"
  using assms length_update_present [of "cb_circuits b" key c']
  by (auto simp: breaker_moves_def breaker_ok_def insert_circuit_def unavailable_count_def map_simps
      intro!: exI [of _ "[]"])

lemma transition_moves:
  assumes "breaker_ok b" "map_of (cb_circuits b) key = Some c0" "ci_state c0 = ci_state c"
    and "circuit_ok (cb_failureThreshold b) (c\<lparr>ci_state := next_state\<rparr>)"
  shows "breaker_moves key b (transition key c next_state b)"
proof (cases "ci_state c = next_state")
  case True
  then have "c\<lparr>ci_state := next_state\<rparr> = c" by (cases c) simp
  with True assms show ?thesis by (simp add: transition_def insert_moves)
next
  case False
  have "unavailable_count (transition key c next_state b)
      = unavailable_count b + transition_delta (ci_state c, next_state)"
    using assms(2,3) False
    by (auto simp: transition_def unavailable_count_def insert_circuit_def map_simps)
  with assms False length_update_present [of "cb_circuits b" key "c\<lparr>ci_state := next_state\<rparr>"] show ?thesis
    by (auto simp: breaker_moves_def breaker_ok_def transition_def insert_circuit_def
        intro!: exI [of _ "[(ci_state c, next_state)]"])
qed

lemma delete_closed_moves:
  assumes "breaker_ok b" "map_of (cb_circuits b) k = Some c" "ci_state c = Closed"
  shows "breaker_moves key b (b\<lparr>cb_circuits := AList.delete k (cb_circuits b)\<rparr>)"
  using assms length_delete_le [of k "cb_circuits b"]
  by (auto simp: breaker_moves_def breaker_ok_def unavailable_count_def map_simps intro!: exI [of _ "[]"])

section \<open>Every operation is a move\<close>

lemma evict_moves:
  assumes "breaker_ok b" "evict_closed_circuit b = (found, b')"
  shows "breaker_moves key b b'" and "cb_transitions b' = cb_transitions b"
    and "found \<Longrightarrow> length (cb_circuits b') < length (cb_circuits b)"
    and "map_of (cb_circuits b) k = None \<Longrightarrow> map_of (cb_circuits b') k = None"
    and "\<not> found \<Longrightarrow> b' = b \<and> (\<forall>kc \<in> set (cb_circuits b). ci_state (snd kc) \<noteq> Closed)"
proof -
  have "breaker_moves key b b' \<and> cb_transitions b' = cb_transitions b
      \<and> (found \<longrightarrow> length (cb_circuits b') < length (cb_circuits b))
      \<and> (map_of (cb_circuits b) k = None \<longrightarrow> map_of (cb_circuits b') k = None)
      \<and> (\<not> found \<longrightarrow> b' = b \<and> (\<forall>kc \<in> set (cb_circuits b). ci_state (snd kc) \<noteq> Closed))"
  proof (cases "evict_candidate None (cb_circuits b)")
    case None
    then have "\<not> found" "b' = b" using assms(2) by (simp_all add: evict_closed_circuit_def)
    with None show ?thesis
      using breaker_moves_refl [OF assms(1), of key] by (simp add: evict_candidate_None)
  next
    case (Some kt)
    obtain k' t where kt: "kt = (k', t)" by (cases kt)
    with Some obtain c where c: "(k', c) \<in> set (cb_circuits b)" "ci_state c = Closed"
      using evict_candidate_Some [of None "cb_circuits b" k' t] by auto
    with assms(1) have m: "map_of (cb_circuits b) k' = Some c" by (simp add: breaker_ok_def map_ok_set_iff)
    with delete_closed_moves [OF assms(1) m c(2)] length_delete_present [of "cb_circuits b" k'] assms(2) Some kt
    show ?thesis by (auto simp: evict_closed_circuit_def)
  qed
  then show "breaker_moves key b b'" and "cb_transitions b' = cb_transitions b"
    and "found \<Longrightarrow> length (cb_circuits b') < length (cb_circuits b)"
    and "map_of (cb_circuits b) k = None \<Longrightarrow> map_of (cb_circuits b') k = None"
    and "\<not> found \<Longrightarrow> b' = b \<and> (\<forall>kc \<in> set (cb_circuits b). ci_state (snd kc) \<noteq> Closed)" by auto
qed

lemma insert_fresh_moves:
  assumes "breaker_ok b" "map_of (cb_circuits b) key = None"
    and "int (length (cb_circuits b)) < cb_maximumUpstreams b"
  shows "breaker_moves key b (insert_circuit key (fresh_circuit now) b)"
  using assms length_update_absent [of "cb_circuits b" key "fresh_circuit now"]
  by (auto simp: breaker_moves_def breaker_ok_def insert_circuit_def unavailable_count_def map_simps
      fresh_circuit_def circuit_ok_def intro!: exI [of _ "[]"])

text \<open>The three outcomes of looking a circuit up.\<close>

lemma find_or_create_cases:
  assumes "breaker_ok b" "find_or_create key now b = (x, b')"
  obtains
    (found) c where "x = Some c" "map_of (cb_circuits b) key = Some c" "b' = b"
  | (created) "x = Some (fresh_circuit now)" "map_of (cb_circuits b) key = None"
      "map_of (cb_circuits b') key = Some (fresh_circuit now)"
      "breaker_moves key b b'" "cb_transitions b' = cb_transitions b"
  | (full) "x = None" "map_of (cb_circuits b) key = None" "b' = b"
      "int (length (cb_circuits b)) = cb_maximumUpstreams b"
      "\<forall>kc \<in> set (cb_circuits b). ci_state (snd kc) \<noteq> Closed"
proof (cases "map_of (cb_circuits b) key")
  case (Some c)
  with assms show ?thesis by (intro found [of c]) (simp_all add: find_or_create_def)
next
  case None
  obtain ok b1 where b1: "(if int (length (cb_circuits b)) \<ge> cb_maximumUpstreams b
      then evict_closed_circuit b else (True, b)) = (ok, b1)" by (rule prod.exhaust)
  have B: "breaker_moves key b b1 \<and> cb_transitions b1 = cb_transitions b
    \<and> map_of (cb_circuits b1) key = None
    \<and> (ok \<longrightarrow> int (length (cb_circuits b1)) < cb_maximumUpstreams b1)"
  proof (cases "int (length (cb_circuits b)) \<ge> cb_maximumUpstreams b")
    case True
    with b1 have e: "evict_closed_circuit b = (ok, b1)" by simp
    have "int (length (cb_circuits b)) \<le> cb_maximumUpstreams b" using assms(1) by (simp add: breaker_ok_def)
    moreover have "cb_maximumUpstreams b1 = cb_maximumUpstreams b"
      using evict_moves(1) [OF assms(1) e, of key] by (simp add: breaker_moves_def)
    ultimately show ?thesis
      using evict_moves(1-3) [OF assms(1) e] evict_moves(4) [OF assms(1) e None] by auto
  next
    case False
    with b1 None breaker_moves_refl [OF assms(1), of key] show ?thesis by simp
  qed
  show ?thesis
  proof (cases ok)
    case True
    then have b': "b' = insert_circuit key (fresh_circuit now) b1" "x = Some (fresh_circuit now)"
      using assms(2) None b1 by (simp_all add: find_or_create_def)
    have "breaker_ok b1" using B by (simp add: breaker_moves_def)
    with B True have "breaker_moves key b1 b'" unfolding b' by (simp add: insert_fresh_moves)
    with B have "breaker_moves key b b'" using breaker_moves_silent by blast
    with B b' None show ?thesis by (intro created) (simp_all add: insert_circuit_def)
  next
    case False
    with b1 have e: "cb_maximumUpstreams b \<le> int (length (cb_circuits b))" "evict_closed_circuit b = (False, b1)"
      by (auto split: if_splits)
    with assms(1) have "int (length (cb_circuits b)) = cb_maximumUpstreams b" by (simp add: breaker_ok_def)
    moreover have "b1 = b" "\<forall>kc \<in> set (cb_circuits b). ci_state (snd kc) \<noteq> Closed"
      using evict_moves(5) [OF assms(1) e(2)] by auto
    ultimately show ?thesis using None assms(2) b1 False
      by (intro full) (simp_all add: find_or_create_def)
  qed
qed

lemma moves_settings:
  "breaker_moves key b b' \<Longrightarrow> breaker_ok b' \<and> cb_failureThreshold b' = cb_failureThreshold b
     \<and> cb_openDurationMs b' = cb_openDurationMs b \<and> cb_maximumUpstreams b' = cb_maximumUpstreams b"
  by (simp add: breaker_moves_def)

lemma found_circuit:
  assumes "breaker_ok b" "find_or_create key now b = (Some c, b')"
  shows "breaker_moves key b b'" and "cb_transitions b' = cb_transitions b"
    and "map_of (cb_circuits b') key = Some c" and "breaker_ok b'"
    and "circuit_ok (cb_failureThreshold b') c"
proof -
  have *: "breaker_moves key b b' \<and> cb_transitions b' = cb_transitions b \<and> map_of (cb_circuits b') key = Some c"
    using assms
  proof (cases rule: find_or_create_cases)
    case (found c')
    with breaker_moves_refl [OF assms(1)] show ?thesis by simp
  qed simp_all
  then show "breaker_moves key b b'" and "cb_transitions b' = cb_transitions b"
    and "map_of (cb_circuits b') key = Some c" by auto
  from * show "breaker_ok b'" using moves_settings by blast
  with * show "circuit_ok (cb_failureThreshold b') c" unfolding breaker_ok_def by blast
qed

lemma lost_circuit: "breaker_ok b \<Longrightarrow> find_or_create key now b = (None, b') \<Longrightarrow> b' = b"
  by (erule find_or_create_cases) auto

lemma acquire_moves:
  assumes "breaker_ok b" "circuit_acquire key now b = (a, b')"
  shows "breaker_moves key b b'"
proof (cases "find_or_create key now b")
  case (Pair x b1)
  show ?thesis
  proof (cases x)
    case None
    with assms Pair lost_circuit [OF assms(1), of key now b1] breaker_moves_refl [OF assms(1)] show ?thesis
      by (simp add: circuit_acquire_def)
  next
    case (Some c)
    note F = found_circuit [OF assms(1) Pair [unfolded Some]]
    define c1 where "c1 = c\<lparr>ci_lastTouched := now\<rparr>"
    define b2 where "b2 = insert_circuit key c1 b1"
    have c1: "circuit_ok (cb_failureThreshold b1) c1" using F(5) by (simp add: c1_def circuit_ok_def)
    have m2: "breaker_moves key b1 b2"
      unfolding b2_def using c1 by (intro insert_moves [OF F(4,3)]) (simp_all add: c1_def)
    have t2: "cb_transitions b2 = cb_transitions b1" by (simp add: b2_def insert_circuit_def)
    have m: "breaker_moves key b b2" by (rule breaker_moves_silent [OF F(1) m2 F(2)])
    have b': "b' = b2 \<or> b' = transition key c1 HalfOpen b2 \<and> ci_state c1 = Open"
      using assms(2) Pair Some by (auto simp: circuit_acquire_def Let_def c1_def b2_def split: if_splits)
    have "breaker_moves key b (transition key c1 HalfOpen b2)" if "ci_state c1 = Open"
    proof (rule breaker_moves_silent [OF m])
      have "circuit_ok (cb_failureThreshold b2) (c1\<lparr>ci_state := HalfOpen\<rparr>)"
        using c1 that by (simp add: circuit_ok_def b2_def insert_circuit_def)
      with moves_settings [OF m2] show "breaker_moves key b2 (transition key c1 HalfOpen b2)"
        by (intro transition_moves [of _ _ c1]) (simp_all add: b2_def insert_circuit_def)
    qed (simp add: t2 F(2))
    with m b' show ?thesis by blast
  qed
qed

lemma failure_moves:
  assumes "breaker_ok b"
  shows "breaker_moves key b (record_failure key now b)"
proof (cases "find_or_create key now b")
  case (Pair x b1)
  show ?thesis
  proof (cases x)
    case None
    with Pair lost_circuit [OF assms, of key now b1] breaker_moves_refl [OF assms] show ?thesis
      by (simp add: record_failure_def)
  next
    case (Some c)
    note F = found_circuit [OF assms Pair [unfolded Some]]
    have thr: "cb_failureThreshold b = cb_failureThreshold b1" using moves_settings [OF F(1)] by simp
    have "breaker_moves key b1 (record_failure key now b)"
      using F(5) thr
      by (auto simp: record_failure_def Pair Some Let_def circuit_ok_def
          intro!: insert_moves [OF F(4,3)] transition_moves [OF F(4,3)])
    from breaker_moves_silent [OF F(1) this F(2)] show ?thesis .
  qed
qed

lemma success_moves:
  assumes "breaker_ok b"
  shows "breaker_moves key b (record_success key b)"
proof (cases "map_of (cb_circuits b) key")
  case None
  with breaker_moves_refl [OF assms] show ?thesis by (simp add: record_success_def)
next
  case (Some c)
  then have d: "unavailable_count (record_success key b)
      = unavailable_count b + (if ci_state c = Closed then 0 else - 1)"
    using assms
    by (auto simp: record_success_def Let_def transition_def insert_circuit_def unavailable_count_def map_simps
        breaker_ok_def delete_update_same)
  have len: "length (AList.delete key (AList.update key v (cb_circuits b))) \<le> length (cb_circuits b)" for v
    using length_delete_le [of key "cb_circuits b"] by (simp add: delete_update_same)
  from Some assms d len [of "c\<lparr>ci_state := Closed\<rparr>"] length_delete_le [of key "cb_circuits b"]
  show ?thesis
    by (auto simp: record_success_def Let_def transition_def insert_circuit_def breaker_moves_def breaker_ok_def
        intro!: exI [of _ "if ci_state c = Closed then [] else [(ci_state c, Closed)]"])
qed

lemma abandon_moves:
  assumes "breaker_ok b"
  shows "breaker_moves key b (abandon key probe now b)"
proof (cases "map_of (cb_circuits b) key")
  case None
  with breaker_moves_refl [OF assms] show ?thesis by (simp add: abandon_def)
next
  case (Some c)
  with assms have "circuit_ok (cb_failureThreshold b) c" by (simp add: breaker_ok_def)
  with Some assms show ?thesis
    using breaker_moves_refl [OF assms]
    by (auto simp: abandon_def circuit_ok_def intro!: transition_moves [OF assms Some] delete_closed_moves)
qed

lemma perform_moves: "breaker_ok b \<Longrightarrow> breaker_moves key b (perform action key probe now b)"
  by (cases action) (simp_all add: success_moves failure_moves abandon_moves)

section \<open>Half-open circuits and their probes\<close>

lemma map_of_insert_circuit [simp]:
  "map_of (cb_circuits (insert_circuit key c b)) k = (if k = key then Some c else map_of (cb_circuits b) k)"
  by (simp add: insert_circuit_def)

lemma map_of_transition [simp]:
  "map_of (cb_circuits (transition key c next_state b)) k
     = (if k = key then Some (c\<lparr>ci_state := next_state\<rparr>) else map_of (cb_circuits b) k)"
  by (auto simp: transition_def)

lemma found_before:
  assumes "breaker_ok b" "find_or_create key now b = (Some c, b')" "ci_state c \<noteq> Closed"
  shows "map_of (cb_circuits b) key = Some c"
  using assms(1,2)
proof (cases rule: find_or_create_cases)
  case created
  with assms(3) show ?thesis by (simp add: fresh_circuit_def)
qed auto

lemma acquire_half_open:
  assumes "breaker_ok b" "circuit_acquire key now b = (a, b')"
    and "map_of (cb_circuits b') key = Some c" "ci_state c = HalfOpen"
  shows "a = Permit key True \<or> (\<exists>c0. map_of (cb_circuits b) key = Some c0 \<and> ci_state c0 = HalfOpen)"
proof (cases "find_or_create key now b")
  case (Pair x b1)
  show ?thesis
  proof (cases x)
    case None
    with Pair assms lost_circuit [OF assms(1), of key now b1] show ?thesis by (auto simp: circuit_acquire_def)
  next
    case (Some c1)
    with assms(2-4) Pair have "a = Permit key True \<or> ci_state c1 = HalfOpen"
      by (auto simp: circuit_acquire_def Let_def split: if_splits)
    with found_before [OF assms(1) Pair [unfolded Some]] show ?thesis by auto
  qed
qed

lemma perform_half_open:
  assumes "breaker_ok b" "map_of (cb_circuits (perform action key probe now b)) key = Some c" "ci_state c = HalfOpen"
  shows "\<not> probe \<and> map_of (cb_circuits b) key = Some c"
proof (cases action)
  case RecordSuccess
  with assms(2) show ?thesis by (auto simp: record_success_def Let_def split: option.splits if_splits)
next
  case RecordFailure
  show ?thesis
  proof (cases "find_or_create key now b")
    case (Pair x b1)
    show ?thesis
    proof (cases x)
      case None
      have "b1 = b" "map_of (cb_circuits b) key = None"
        using find_or_create_cases [OF assms(1) Pair] None by auto
      with assms(2) RecordFailure Pair None show ?thesis by (simp add: record_failure_def)
    next
      case (Some c1)
      with assms(2,3) RecordFailure Pair show ?thesis
        by (cases "ci_state c1") (auto simp: record_failure_def Let_def split: if_splits)
    qed
  qed
next
  case Abandon
  with assms(2,3) show ?thesis by (auto simp: abandon_def split: option.splits if_splits)
qed

text \<open>The invariant of a breaker with its permits.\<close>

definition has_live_probe :: "breaker_system \<Rightarrow> ustr \<Rightarrow> bool" where
  "has_live_probe s key \<longleftrightarrow> (\<exists>i < length (bs_permits s). pm_key (bs_permits s ! i) = key
     \<and> pm_halfOpenProbe (bs_permits s ! i) \<and> \<not> pm_completed (bs_permits s ! i))"

definition system_ok :: "breaker_system \<Rightarrow> bool" where
  "system_ok s \<longleftrightarrow> breaker_ok (bs_breaker s)
     \<and> sum_list (map transition_delta (cb_transitions (bs_breaker s))) = unavailable_count (bs_breaker s)
     \<and> (\<forall>k c. map_of (cb_circuits (bs_breaker s)) k = Some c \<longrightarrow> ci_state c = HalfOpen \<longrightarrow> has_live_probe s k)"

lemma moves_reports:
  assumes "breaker_moves key b b'"
    and "sum_list (map transition_delta (cb_transitions b)) = unavailable_count b"
  shows "sum_list (map transition_delta (cb_transitions b')) = unavailable_count b'"
  using assms by (auto simp: breaker_moves_def)

lemma moves_half_open_other:
  assumes "breaker_moves key b b'" "k \<noteq> key" "map_of (cb_circuits b') k = Some c" "ci_state c = HalfOpen"
  shows "map_of (cb_circuits b) k = Some c"
  using assms by (auto simp: breaker_moves_def)

lemma acquire_permit_ok:
  assumes "system_ok s" "acquire_permit origin_of upstream now s = (a, s')"
  shows "system_ok s'"
proof -
  define key where "key = upstream_origin origin_of upstream"
  have b: "breaker_ok (bs_breaker s)" using assms(1) by (simp add: system_ok_def)
  obtain b' where b': "circuit_acquire key now (bs_breaker s) = (a, b')" "bs_breaker s' = b'"
    and ps: "bs_permits s' = bs_permits s @ (case a of Rejection n \<Rightarrow> []
        | Permit k probe \<Rightarrow> [\<lparr>pm_key = k, pm_halfOpenProbe = probe, pm_completed = False\<rparr>])"
    using assms(2) by (auto simp: acquire_permit_def key_def split: prod.splits acquisition.splits)
  note M = acquire_moves [OF b b'(1)]
  have keep: "has_live_probe s k \<Longrightarrow> has_live_probe s' k" for k
    by (fastforce simp: has_live_probe_def ps nth_append)
  have new: "a = Permit key True \<Longrightarrow> has_live_probe s' key"
    by (auto simp: has_live_probe_def ps intro!: exI [of _ "length (bs_permits s)"])
  have "has_live_probe s' k" if "map_of (cb_circuits b') k = Some c" "ci_state c = HalfOpen" for k c
  proof (cases "k = key")
    case True
    with acquire_half_open [OF b b'(1) _ that(2)] that(1) assms(1) new keep show ?thesis
      by (auto simp: system_ok_def)
  next
    case False
    with moves_half_open_other [OF M _ that] that(2) assms(1) keep show ?thesis by (auto simp: system_ok_def)
  qed
  with M assms(1) moves_reports [OF M] b'(2) moves_settings [OF M] show ?thesis by (simp add: system_ok_def)
qed

lemma finish_permit_ok:
  assumes "system_ok s"
  shows "system_ok (finish_permit i action now s)"
proof (cases "i < length (bs_permits s) \<and> \<not> pm_completed (bs_permits s ! i)")
  case False
  with assms show ?thesis by (auto simp: finish_permit_def)
next
  case True
  define p where "p = bs_permits s ! i"
  define b' where "b' = perform action (pm_key p) (pm_halfOpenProbe p) now (bs_breaker s)"
  define s' where "s' = finish_permit i action now s"
  have s': "bs_breaker s' = b'" "bs_permits s' = (bs_permits s)[i := p\<lparr>pm_completed := True\<rparr>]"
    using True by (simp_all add: s'_def finish_permit_def b'_def p_def Let_def)
  have b: "breaker_ok (bs_breaker s)" using assms by (simp add: system_ok_def)
  note M = perform_moves [OF b, of "pm_key p" action "pm_halfOpenProbe p" now, folded b'_def]
  have keep: "has_live_probe s' k" if "has_live_probe s k" "k \<noteq> pm_key p \<or> \<not> pm_halfOpenProbe p" for k
  proof -
    from that(1) obtain j where j: "j < length (bs_permits s)" "pm_key (bs_permits s ! j) = k"
      "pm_halfOpenProbe (bs_permits s ! j)" "\<not> pm_completed (bs_permits s ! j)"
      by (auto simp: has_live_probe_def)
    with that(2) have "j \<noteq> i" by (auto simp: p_def)
    with j show ?thesis by (auto simp: has_live_probe_def s')
  qed
  have "has_live_probe s' k" if c: "map_of (cb_circuits b') k = Some c" "ci_state c = HalfOpen" for k c
  proof (cases "k = pm_key p")
    case True
    with perform_half_open [OF b c(1) [unfolded b'_def True] c(2)] c(2) assms keep
    show ?thesis by (auto simp: system_ok_def)
  next
    case False
    with moves_half_open_other [OF M _ c] c(2) assms keep show ?thesis by (auto simp: system_ok_def)
  qed
  with assms moves_reports [OF M] moves_settings [OF M] s'(1) have "system_ok s'" by (simp add: system_ok_def)
  then show ?thesis by (simp add: s'_def)
qed

lemma new_breaker_ok: "new_circuit_breaker f d m = Inr b \<Longrightarrow> breaker_ok b \<and> cb_circuits b = [] \<and> cb_transitions b = []"
  by (auto simp: new_circuit_breaker_def validate_positive_integer_def bind_result_Inr breaker_ok_def
      is_safe_integer_iff num_def split: if_splits)

lemma breaker_step_ok:
  "system_ok s \<Longrightarrow> breaker_step origin_of e s = (a, s') \<Longrightarrow> system_ok s'"
  by (cases e) (auto split: prod.splits dest: acquire_permit_ok intro: finish_permit_ok)

lemma reachable_ok:
  assumes "breaker_reachable origin_of b s" "new_circuit_breaker f d m = Inr b"
  shows "system_ok s"
  using assms(1)
proof (induction rule: breaker_reachable.induct)
  case start
  with new_breaker_ok [OF assms(2)] show ?case by (simp add: system_ok_def unavailable_count_def)
next
  case (step s e a s')
  then show ?case by (blast intro: breaker_step_ok)
qed

section \<open>An open circuit stays open\<close>

text \<open>The circuit of a key is open at least until \<open>u\<close>.\<close>

definition open_until :: "ustr \<Rightarrow> int \<Rightarrow> circuit_breaker \<Rightarrow> bool" where
  "open_until key u b \<longleftrightarrow> (case map_of (cb_circuits b) key of None \<Rightarrow> False
     | Some c \<Rightarrow> ci_state c = Open \<and> u \<le> ci_openedUntil c)"

lemma open_until_iff: "open_until key u b \<longleftrightarrow>
    (\<exists>c. map_of (cb_circuits b) key = Some c \<and> ci_state c = Open \<and> u \<le> ci_openedUntil c)"
  by (auto simp: open_until_def split: option.splits)

lemma moves_other:
  "breaker_moves key b b' \<Longrightarrow> k \<noteq> key \<Longrightarrow> ci_state c = Open \<Longrightarrow> map_of (cb_circuits b) k = Some c \<Longrightarrow>
     map_of (cb_circuits b') k = Some c"
  by (simp add: breaker_moves_def)

lemma open_until_other:
  "breaker_moves key b b' \<Longrightarrow> k \<noteq> key \<Longrightarrow> open_until k u b \<Longrightarrow> open_until k u b'"
  unfolding open_until_iff using moves_other by blast

lemma acquire_open:
  assumes "breaker_ok b" "open_until key u b" "now < u" "circuit_acquire k now b = (a, b')"
  shows "open_until key u b'" and "k = key \<Longrightarrow> \<exists>n. a = Rejection n \<and> 1 \<le> n \<and> u - now \<le> n * 1000"
proof -
  have "open_until key u b' \<and> (k = key \<longrightarrow> (\<exists>n. a = Rejection n \<and> 1 \<le> n \<and> u - now \<le> n * 1000))"
  proof (cases "k = key")
    case False
    with open_until_other [OF acquire_moves [OF assms(1,4)] _ assms(2)] show ?thesis by simp
  next
    case True
    from assms(2) obtain c where c: "map_of (cb_circuits b) key = Some c" "ci_state c = Open" "u \<le> ci_openedUntil c"
      by (auto simp: open_until_iff)
    with assms(3,4) True
    have a: "a = rejection (ci_openedUntil c - now)" "b' = insert_circuit key (c\<lparr>ci_lastTouched := now\<rparr>) b"
      by (auto simp: circuit_acquire_def find_or_create_def Let_def)
    have "u - now \<le> - (- (ci_openedUntil c - now) div 1000) * 1000" using c(3) by linarith
    with a c show ?thesis by (auto simp: rejection_def open_until_iff max_def)
  qed
  then show "open_until key u b'" and "k = key \<Longrightarrow> \<exists>n. a = Rejection n \<and> 1 \<le> n \<and> u - now \<le> n * 1000" by auto
qed

lemma perform_open:
  assumes "breaker_ok b" "open_until key u b" "\<not> (action = RecordSuccess \<and> k = key)"
  shows "open_until key u (perform action k probe now b)"
proof (cases "k = key")
  case False
  with open_until_other [OF perform_moves [OF assms(1)] _ assms(2)] show ?thesis by simp
next
  case True
  with assms show ?thesis
    by (cases action) (auto simp: open_until_iff record_failure_def find_or_create_def abandon_def Let_def)
qed

text \<open>
  The events of a run that leave an open circuit closed to traffic: acquisitions before
  \<open>u\<close>, and settlements of permits other than a success of the same upstream.
\<close>

fun keeps_open :: "ustr \<Rightarrow> int \<Rightarrow> breaker_event \<Rightarrow> breaker_system \<Rightarrow> bool" where
  "keeps_open key u (AcquireEvent upstream now) s = (now < u)"
| "keeps_open key u (FinishEvent i action now) s =
     (action = RecordSuccess \<longrightarrow> i < length (bs_permits s) \<longrightarrow> pm_key (bs_permits s ! i) \<noteq> key)"

fun stays_open :: "(ustr \<Rightarrow> ustr option) \<Rightarrow> ustr \<Rightarrow> int \<Rightarrow> breaker_event list \<Rightarrow> breaker_system \<Rightarrow> bool" where
  "stays_open origin_of key u [] s = True"
| "stays_open origin_of key u (e # es) s =
     (keeps_open key u e s \<and> stays_open origin_of key u es (snd (breaker_step origin_of e s)))"

fun run_breaker ::
  "(ustr \<Rightarrow> ustr option) \<Rightarrow> breaker_event list \<Rightarrow> breaker_system \<Rightarrow> acquisition option list \<times> breaker_system" where
  "run_breaker origin_of [] s = ([], s)"
| "run_breaker origin_of (e # es) s =
     (case breaker_step origin_of e s of
        (a, s1) \<Rightarrow> (case run_breaker origin_of es s1 of (as, s') \<Rightarrow> (a # as, s')))"

lemma step_stays_open:
  assumes "breaker_ok (bs_breaker s)" "open_until key u (bs_breaker s)" "keeps_open key u e s"
    and "breaker_step origin_of e s = (a, s')"
  shows "open_until key u (bs_breaker s')" and "breaker_ok (bs_breaker s')"
    and "a = Some (Permit k probe) \<Longrightarrow> k \<noteq> key"
proof -
  have "open_until key u (bs_breaker s') \<and> breaker_ok (bs_breaker s') \<and> (a = Some (Permit k probe) \<longrightarrow> k \<noteq> key)"
  proof (cases e)
    case (AcquireEvent upstream now)
    define k0 where "k0 = upstream_origin origin_of upstream"
    obtain a0 b' where b': "circuit_acquire k0 now (bs_breaker s) = (a0, b')" by (rule prod.exhaust)
    with AcquireEvent assms(4) have s': "a = Some a0" "bs_breaker s' = b'"
      by (auto simp: acquire_permit_def k0_def split: prod.splits acquisition.splits)
    have k: "a0 = Permit k probe \<Longrightarrow> k = k0"
      using b' by (auto simp: circuit_acquire_def Let_def rejection_def split: prod.splits option.splits if_splits)
    from acquire_open [OF assms(1,2) _ b'] assms(3) AcquireEvent moves_settings [OF acquire_moves [OF assms(1) b']] k
    show ?thesis by (auto simp: s')
  next
    case (FinishEvent i action now)
    with assms show ?thesis
      using perform_open [OF assms(1,2)] moves_settings [OF perform_moves [OF assms(1)]]
      by (auto simp: finish_permit_def Let_def split: if_splits)
  qed
  then show "open_until key u (bs_breaker s')" and "breaker_ok (bs_breaker s')"
    and "a = Some (Permit k probe) \<Longrightarrow> k \<noteq> key" by auto
qed

lemma run_stays_open:
  assumes "breaker_ok (bs_breaker s)" "open_until key u (bs_breaker s)" "stays_open origin_of key u es s"
    and "run_breaker origin_of es s = (as, s')"
  shows "open_until key u (bs_breaker s') \<and> (\<forall>probe. Some (Permit key probe) \<notin> set as)"
  using assms
proof (induction es arbitrary: s as)
  case Nil
  then show ?case by simp
next
  case (Cons e es)
  obtain a s1 where a: "breaker_step origin_of e s = (a, s1)" by (rule prod.exhaust)
  with Cons.prems obtain as1 where as1: "run_breaker origin_of es s1 = (as1, s')" "as = a # as1"
    by (auto split: prod.splits)
  have k: "keeps_open key u e s" and k1: "stays_open origin_of key u es s1" using Cons.prems(3) a by auto
  note S = step_stays_open [OF Cons.prems(1,2) k a]
  from Cons.IH [OF S(2,1) k1 as1(1)] S(3) [of key] show ?case by (auto simp: as1(2))
qed

section \<open>Failures in a row\<close>

fun record_failures :: "ustr \<Rightarrow> int list \<Rightarrow> circuit_breaker \<Rightarrow> circuit_breaker" where
  "record_failures key [] b = b"
| "record_failures key (now # ts) b = record_failures key ts (record_failure key now b)"

lemma record_failure_present:
  assumes "map_of (cb_circuits b) key = Some c"
  shows "map_of (cb_circuits (record_failure key now b)) key =
     Some (if ci_state c = Open
           then c\<lparr>ci_lastTouched := now, ci_openedUntil := max (ci_openedUntil c) (now + cb_openDurationMs b)\<rparr>
           else if ci_state c = HalfOpen
           then c\<lparr>ci_lastTouched := now, ci_openedUntil := now + cb_openDurationMs b, ci_state := Open\<rparr>
           else if ci_consecutiveFailures c + 1 < cb_failureThreshold b
           then c\<lparr>ci_lastTouched := now, ci_consecutiveFailures := ci_consecutiveFailures c + 1\<rparr>
           else c\<lparr>ci_lastTouched := now, ci_consecutiveFailures := ci_consecutiveFailures c + 1,
                  ci_openedUntil := now + cb_openDurationMs b, ci_state := Open\<rparr>)"
  using assms by (cases "ci_state c") (auto simp: record_failure_def find_or_create_def Let_def)

lemma record_failures_open:
  assumes "breaker_ok b" "map_of (cb_circuits b) key = Some c" "ci_state c = Open"
  shows "\<exists>c'. map_of (cb_circuits (record_failures key ts b)) key = Some c' \<and> ci_state c' = Open
     \<and> ci_openedUntil c \<le> ci_openedUntil c' \<and> (\<forall>t \<in> set ts. t + cb_openDurationMs b \<le> ci_openedUntil c')"
  using assms
proof (induction ts arbitrary: b c)
  case Nil
  then show ?case by simp
next
  case (Cons now ts)
  note M = moves_settings [OF failure_moves [OF Cons.prems(1), of key now]]
  define c1 where "c1 = c\<lparr>ci_lastTouched := now, ci_openedUntil := max (ci_openedUntil c) (now + cb_openDurationMs b)\<rparr>"
  have "map_of (cb_circuits (record_failure key now b)) key = Some c1" "ci_state c1 = Open"
    using record_failure_present [OF Cons.prems(2), of now] Cons.prems(3) by (simp_all add: c1_def)
  from Cons.IH [OF _ this] M show ?case by (fastforce simp: c1_def)
qed

lemma record_failures_closed:
  assumes "breaker_ok b" "map_of (cb_circuits b) key = Some c" "ci_state c = Closed"
    and "ci_consecutiveFailures c + int (length ts) < cb_failureThreshold b"
  shows "\<exists>c'. map_of (cb_circuits (record_failures key ts b)) key = Some c' \<and> ci_state c' = Closed
     \<and> ci_consecutiveFailures c' = ci_consecutiveFailures c + int (length ts)"
  using assms
proof (induction ts arbitrary: b c)
  case Nil
  then show ?case by simp
next
  case (Cons now ts)
  note M = moves_settings [OF failure_moves [OF Cons.prems(1), of key now]]
  define c1 where "c1 = c\<lparr>ci_lastTouched := now, ci_consecutiveFailures := ci_consecutiveFailures c + 1\<rparr>"
  have c1: "map_of (cb_circuits (record_failure key now b)) key = Some c1" "ci_state c1 = Closed"
    using record_failure_present [OF Cons.prems(2), of now] Cons.prems(3,4) by (simp_all add: c1_def)
  have "ci_consecutiveFailures c1 + int (length ts) < cb_failureThreshold (record_failure key now b)"
    using Cons.prems(4) M by (simp add: c1_def)
  from Cons.IH [OF _ c1 this] M show ?case by (auto simp: c1_def)
qed

lemma record_failures_append:
  "record_failures key (ts @ us) b = record_failures key us (record_failures key ts b)"
  by (induction ts arbitrary: b) auto

lemma record_failures_moves:
  "breaker_ok b \<Longrightarrow> breaker_ok (record_failures key ts b) \<and> cb_failureThreshold (record_failures key ts b) = cb_failureThreshold b
     \<and> cb_openDurationMs (record_failures key ts b) = cb_openDurationMs b"
proof (induction ts arbitrary: b)
  case (Cons now ts)
  from moves_settings [OF failure_moves [OF Cons.prems, of key now]] Cons.IH [of "record_failure key now b"]
  show ?case by simp
qed simp

section \<open>Properties\<close>

definition demo_breaker :: circuit_breaker where
  "demo_breaker = \<lparr>cb_failureThreshold = 1, cb_openDurationMs = 1000, cb_maximumUpstreams = 2,
     cb_circuits = [], cb_transitions = []\<rparr>"

lemma demo_breaker_new: "new_circuit_breaker (Some (num 1)) (Some (num 1000)) (Some (num 2)) = Inr demo_breaker"
  by (simp add: new_circuit_breaker_def validate_positive_integer_def demo_breaker_def is_safe_integer_iff
      max_safe_def num_def)

lemma demo_breaker_ok: "breaker_ok demo_breaker"
  using new_breaker_ok [OF demo_breaker_new] by simp

text \<open>A failure at time 0 opens the circuit of upstream \<open>[97]\<close>; a probe is let through at 1000.\<close>

definition demo_opened :: breaker_system where
  "demo_opened = \<lparr>bs_breaker = \<lparr>cb_failureThreshold = 1, cb_openDurationMs = 1000, cb_maximumUpstreams = 2,
       cb_circuits = [([97], \<lparr>ci_state = Open, ci_consecutiveFailures = 1, ci_openedUntil = 1000, ci_lastTouched = 0\<rparr>)],
       cb_transitions = [(Closed, Open)]\<rparr>,
     bs_permits = [\<lparr>pm_key = [97], pm_halfOpenProbe = False, pm_completed = True\<rparr>]\<rparr>"

definition demo_probed :: breaker_system where
  "demo_probed = \<lparr>bs_breaker = \<lparr>cb_failureThreshold = 1, cb_openDurationMs = 1000, cb_maximumUpstreams = 2,
       cb_circuits = [([97], \<lparr>ci_state = HalfOpen, ci_consecutiveFailures = 1, ci_openedUntil = 1000, ci_lastTouched = 1000\<rparr>)],
       cb_transitions = [(Closed, Open), (Open, HalfOpen)]\<rparr>,
     bs_permits = [\<lparr>pm_key = [97], pm_halfOpenProbe = False, pm_completed = True\<rparr>,
                   \<lparr>pm_key = [97], pm_halfOpenProbe = True, pm_completed = False\<rparr>]\<rparr>"

lemmas breaker_run_defs = acquire_permit_def finish_permit_def circuit_acquire_def find_or_create_def
  record_failure_def transition_def insert_circuit_def fresh_circuit_def upstream_origin_def Let_def

lemma demo_reaches_opened: "breaker_reachable (\<lambda>u. None) demo_breaker demo_opened"
proof (rule breaker_reachable.step [OF breaker_reachable.step [OF breaker_reachable.start]])
  let ?start = "\<lparr>bs_breaker = demo_breaker, bs_permits = []\<rparr>"
  show "breaker_step (\<lambda>u. None) (AcquireEvent [97] 0) ?start
      = (Some (Permit [97] False), snd (breaker_step (\<lambda>u. None) (AcquireEvent [97] 0) ?start))"
    by (simp add: breaker_run_defs demo_breaker_def)
  show "breaker_step (\<lambda>u. None) (FinishEvent 0 RecordFailure 0)
      (snd (breaker_step (\<lambda>u. None) (AcquireEvent [97] 0) ?start)) = (None, demo_opened)"
    by (simp add: breaker_run_defs demo_breaker_def demo_opened_def)
qed

lemma demo_reaches_probed: "breaker_reachable (\<lambda>u. None) demo_breaker demo_probed"
proof (rule breaker_reachable.step [OF demo_reaches_opened])
  show "breaker_step (\<lambda>u. None) (AcquireEvent [97] 1000) demo_opened = (Some (Permit [97] True), demo_probed)"
    by (simp add: breaker_run_defs demo_opened_def demo_probed_def)
qed

text \<open>
  The breaker does not tell the permits of one opening from those of another. Two requests are let through
  while the circuit of upstream \<open>[97]\<close> is closed; the first fails and opens it, the probe goes out at 1000,
  and the late success of the second closes the circuit while the probe is still outstanding: the next
  request is let through without waiting for the probe (the exception that \<open>stays_open\<close> names).
\<close>

definition late_success :: "breaker_event list" where
  "late_success = [AcquireEvent [97] 0, AcquireEvent [97] 0, FinishEvent 0 RecordFailure 0, AcquireEvent [97] 1000,
     FinishEvent 1 RecordSuccess 1001, AcquireEvent [97] 1002]"

lemma late_success_readmits:
  "\<exists>s'. run_breaker (\<lambda>u. None) late_success \<lparr>bs_breaker = demo_breaker, bs_permits = []\<rparr>
       = ([Some (Permit [97] False), Some (Permit [97] False), None, Some (Permit [97] True), None,
           Some (Permit [97] False)], s')
     \<and> pm_halfOpenProbe (bs_permits s' ! 2) \<and> \<not> pm_completed (bs_permits s' ! 2)"
  by (simp add: late_success_def breaker_run_defs record_success_def demo_breaker_def)

text \<open>C13: Probes settle. In every state the breaker can reach, a circuit that is half open has an
  outstanding probe permit, and whatever that permit reports first (success, failure or abandon, at
  any time) takes the circuit out of the half-open state: no upstream is locked out for good.\<close>

theorem half_open_probe_settles:
  assumes "new_circuit_breaker f d m = Inr b" "breaker_reachable origin_of b s"
    and "map_of (cb_circuits (bs_breaker s)) key = Some c" "ci_state c = HalfOpen"
  shows "\<exists>i < length (bs_permits s). pm_key (bs_permits s ! i) = key \<and> pm_halfOpenProbe (bs_permits s ! i)
     \<and> \<not> pm_completed (bs_permits s ! i)
     \<and> (\<forall>action now c'. map_of (cb_circuits (bs_breaker (finish_permit i action now s))) key = Some c' \<longrightarrow>
          ci_state c' \<noteq> HalfOpen)"
proof -
  have ok: "system_ok s" by (rule reachable_ok [OF assms(2,1)])
  with assms(3,4) obtain i where i: "i < length (bs_permits s)" "pm_key (bs_permits s ! i) = key"
    "pm_halfOpenProbe (bs_permits s ! i)" "\<not> pm_completed (bs_permits s ! i)"
    by (auto simp: system_ok_def has_live_probe_def)
  with perform_half_open [of "bs_breaker s" _ key True] ok
  have "map_of (cb_circuits (bs_breaker (finish_permit i action now s))) key = Some c' \<Longrightarrow> ci_state c' \<noteq> HalfOpen"
    for action now c' by (auto simp: finish_permit_def Let_def system_ok_def)
  with i show ?thesis by blast
qed

theorem half_open_probe_settles_witness:
  "\<exists>i < length (bs_permits demo_probed). pm_halfOpenProbe (bs_permits demo_probed ! i)
     \<and> (\<forall>now c'. map_of (cb_circuits (bs_breaker (finish_permit i Abandon now demo_probed))) [97] = Some c'
          \<longrightarrow> ci_state c' \<noteq> HalfOpen)"
  using half_open_probe_settles [OF demo_breaker_new demo_reaches_probed,
      of "[97]" "snd (hd (cb_circuits (bs_breaker demo_probed)))"]
  by (auto simp: demo_probed_def)

text \<open>C10: Fail fast. While the circuit of an upstream is open, no run of acquisitions (of any upstream)
  and settlements before its open time ends grants a permit for it, unless an earlier request to that
  upstream reports success; and the circuit is still open at the end of the run.\<close>

theorem open_circuit_rejects:
  assumes "breaker_ok (bs_breaker s)" "open_until key u (bs_breaker s)" "stays_open origin_of key u es s"
    and "run_breaker origin_of es s = (as, s')"
  shows "open_until key u (bs_breaker s') \<and> (\<forall>probe. Some (Permit key probe) \<notin> set as)"
  using assms by (rule run_stays_open)

theorem open_circuit_rejects_witness:
  "\<exists>as s'. run_breaker (\<lambda>u. None) [AcquireEvent [97] 999, AcquireEvent [98] 999, FinishEvent 1 RecordSuccess 999,
        AcquireEvent [97] 999] demo_opened = (as, s')
     \<and> open_until [97] 1000 (bs_breaker s') \<and> Some (Permit [97] False) \<notin> set as"
proof -
  define es where "es = [AcquireEvent [97] 999, AcquireEvent [98] 999, FinishEvent 1 RecordSuccess 999,
        AcquireEvent [97] 999]"
  obtain as s' where r: "run_breaker (\<lambda>u. None) es demo_opened = (as, s')" by (rule prod.exhaust)
  have "system_ok demo_opened" by (rule reachable_ok [OF demo_reaches_opened demo_breaker_new])
  then have "breaker_ok (bs_breaker demo_opened)" by (simp add: system_ok_def)
  moreover have "open_until [97] 1000 (bs_breaker demo_opened)" by (simp add: open_until_def demo_opened_def)
  moreover have "stays_open (\<lambda>u. None) [97] 1000 es demo_opened"
    by (simp add: es_def demo_opened_def breaker_run_defs rejection_def)
  ultimately show ?thesis
    using open_circuit_rejects [OF _ _ _ r] r unfolding es_def by blast
qed

text \<open>C18: Threshold. Failures in a row on a closed circuit: below the threshold it stays closed and
  counts them; from the failure that reaches the threshold on it is open, until no less than the open
  duration after that failure and every later one.\<close>

theorem trips_at_threshold:
  assumes "breaker_ok b" "map_of (cb_circuits b) key = Some c" "ci_state c = Closed" "ts \<noteq> []"
  defines "total_failures \<equiv> ci_consecutiveFailures c + int (length ts)"
  shows "\<exists>c'. map_of (cb_circuits (record_failures key ts b)) key = Some c'
     \<and> (if total_failures < cb_failureThreshold b
        then ci_state c' = Closed \<and> ci_consecutiveFailures c' = total_failures
        else ci_state c' = Open
          \<and> (\<forall>k < length ts. cb_failureThreshold b \<le> ci_consecutiveFailures c + int k + 1 \<longrightarrow>
                ts ! k + cb_openDurationMs b \<le> ci_openedUntil c'))"
proof (cases "total_failures < cb_failureThreshold b")
  case True
  with record_failures_closed [OF assms(1-3), of ts] show ?thesis by (simp add: total_failures_def)
next
  case False
  define n where "n = nat (cb_failureThreshold b - ci_consecutiveFailures c - 1)"
  have "circuit_ok (cb_failureThreshold b) c" using assms(1,2) by (simp add: breaker_ok_def)
  then have n: "ci_consecutiveFailures c + int n + 1 = cb_failureThreshold b"
    using assms(3) by (simp add: n_def circuit_ok_def)
  with False have less: "n < length ts" by (simp add: total_failures_def)
  then have ts: "ts = take n ts @ ts ! n # drop (Suc n) ts" by (rule id_take_nth_drop)
  obtain c1 where c1: "map_of (cb_circuits (record_failures key (take n ts) b)) key = Some c1" "ci_state c1 = Closed"
      "ci_consecutiveFailures c1 = ci_consecutiveFailures c + int n"
    using record_failures_closed [OF assms(1-3), of "take n ts"] n less by auto
  note M = record_failures_moves [OF assms(1), of key "take n ts"]
  define b2 where "b2 = record_failure key (ts ! n) (record_failures key (take n ts) b)"
  have b2: "breaker_ok b2" "cb_openDurationMs b2 = cb_openDurationMs b"
    using moves_settings [OF failure_moves [of "record_failures key (take n ts) b" key "ts ! n"]] M
    by (simp_all add: b2_def)
  obtain c2 where c2: "map_of (cb_circuits b2) key = Some c2" "ci_state c2 = Open"
      "ci_openedUntil c2 = ts ! n + cb_openDurationMs b"
    using record_failure_present [OF c1(1), of "ts ! n"] c1(2,3) M n by (simp add: b2_def)
  obtain c3 where c3: "map_of (cb_circuits (record_failures key (drop (Suc n) ts) b2)) key = Some c3"
      "ci_state c3 = Open" "ci_openedUntil c2 \<le> ci_openedUntil c3"
      "\<forall>t \<in> set (drop (Suc n) ts). t + cb_openDurationMs b2 \<le> ci_openedUntil c3"
    using record_failures_open [OF b2(1) c2(1,2)] by blast
  have "record_failures key ts b = record_failures key (drop (Suc n) ts) b2"
    by (subst ts) (simp add: record_failures_append b2_def)
  moreover have "ts ! k + cb_openDurationMs b \<le> ci_openedUntil c3"
    if "k < length ts" "cb_failureThreshold b \<le> ci_consecutiveFailures c + int k + 1" for k
  proof (cases "k = n")
    case True
    with c2 c3 show ?thesis by simp
  next
    case False
    with that n have "Suc n \<le> k" by simp
    with that(1) have "ts ! k \<in> set (drop (Suc n) ts)"
      by (auto simp: in_set_conv_nth intro!: exI [of _ "k - Suc n"])
    with c3(4) b2(2) show ?thesis by simp
  qed
  ultimately show ?thesis using False c3(1,2) by simp
qed

theorem trips_at_threshold_witness:
  "\<exists>c'. map_of (cb_circuits (record_failures [97] [5, 7] (insert_circuit [97] (fresh_circuit 0) demo_breaker))) [97]
        = Some c' \<and> ci_state c' = Open \<and> 1007 \<le> ci_openedUntil c'"
proof -
  let ?b = "insert_circuit [97] (fresh_circuit 0) demo_breaker"
  have "breaker_ok ?b"
    using moves_settings [OF insert_fresh_moves [OF demo_breaker_ok, of "[97]" 0]] by (simp add: demo_breaker_def)
  from trips_at_threshold [OF this, of "[97]" "fresh_circuit 0" "[5, 7]"] obtain c' where
    "map_of (cb_circuits (record_failures [97] [5, 7] ?b)) [97] = Some c'" "ci_state c' = Open"
    and t: "\<forall>k < length [5, 7 :: int]. cb_failureThreshold ?b \<le> ci_consecutiveFailures (fresh_circuit 0) + int k + 1
        \<longrightarrow> [5, 7] ! k + cb_openDurationMs ?b \<le> ci_openedUntil c'"
    by (auto simp: insert_circuit_def demo_breaker_def fresh_circuit_def)
  moreover from t [rule_format, of 1] have "1007 \<le> ci_openedUntil c'"
    by (simp add: insert_circuit_def demo_breaker_def fresh_circuit_def)
  ultimately show ?thesis by blast
qed

text \<open>C23: Bounded and fair. In every reachable state there are at most the configured number of circuits,
  each closed exactly while its failures in a row are below the threshold; and when room is needed for
  a new upstream the circuit given up is a closed one that was used least recently, never one that is
  open or half open.\<close>

theorem breaker_bounded:
  assumes "new_circuit_breaker f d m = Inr b" "breaker_reachable origin_of b s"
  shows "breaker_ok (bs_breaker s)
     \<and> (\<forall>b'. evict_closed_circuit (bs_breaker s) = (True, b') \<longrightarrow>
          (\<exists>k c. map_of (cb_circuits (bs_breaker s)) k = Some c \<and> ci_state c = Closed
             \<and> cb_circuits b' = AList.delete k (cb_circuits (bs_breaker s))
             \<and> (\<forall>k' c'. map_of (cb_circuits (bs_breaker s)) k' = Some c' \<longrightarrow> ci_state c' = Closed
                  \<longrightarrow> ci_lastTouched c \<le> ci_lastTouched c')))"
proof -
  have ok: "breaker_ok (bs_breaker s)" using reachable_ok [OF assms(2,1)] by (simp add: system_ok_def)
  then have m: "map_ok (cb_circuits (bs_breaker s))" by (simp add: breaker_ok_def)
  have "\<exists>k c. map_of (cb_circuits (bs_breaker s)) k = Some c \<and> ci_state c = Closed
             \<and> cb_circuits b' = AList.delete k (cb_circuits (bs_breaker s))
             \<and> (\<forall>k' c'. map_of (cb_circuits (bs_breaker s)) k' = Some c' \<longrightarrow> ci_state c' = Closed
                  \<longrightarrow> ci_lastTouched c \<le> ci_lastTouched c')"
    if e: "evict_closed_circuit (bs_breaker s) = (True, b')" for b'
  proof -
    from e obtain k t where kt: "evict_candidate None (cb_circuits (bs_breaker s)) = Some (k, t)"
      and b': "cb_circuits b' = AList.delete k (cb_circuits (bs_breaker s))"
      by (auto simp: evict_closed_circuit_def split: option.splits)
    from evict_candidate_Some [OF kt] obtain c where
      c: "(k, c) \<in> set (cb_circuits (bs_breaker s))" "ci_state c = Closed" "ci_lastTouched c = t" by auto
    from evict_candidate_oldest [OF kt] have
      "ci_state c' = Closed \<Longrightarrow> t \<le> ci_lastTouched c'" if "map_of (cb_circuits (bs_breaker s)) k' = Some c'" for k' c'
      using map_of_SomeD [OF that] by fastforce
    with c b' map_ok_set_iff [OF m] show ?thesis by blast
  qed
  with ok show ?thesis by blast
qed

theorem breaker_bounded_witness: "breaker_ok (bs_breaker demo_probed)"
  using breaker_bounded [OF demo_breaker_new demo_reaches_probed] by simp

end
