(* ===== verification/Metrics.thy ===== *)
theory Metrics imports CircuitBreaker FixedWindow NumberText "HOL-Library.List_Lexorder" begin

text \<open>
  The operational metrics (\<open>edge/src/metrics.ts\<close>): the counters and gauges the components report
  to, and the text a scrape renders. Counters are integers. The labels that TypeScript types as a
  union of literals are datatypes, so the run-time tests that a label is in its list hold by
  construction.
\<close>

section \<open>State\<close>

datatype gateway_outcome = GatewayAllowed | GatewayDenied | GatewayError
datatype refresh_outcome = RefreshUpdated | RefreshUnchanged
datatype tls_role = ListenerRole | ControlPlaneClientRole
datatype tls_outcome = TlsUpdated | TlsRejected

fun outcome_text :: "gateway_outcome \<Rightarrow> ustr" where
  "outcome_text GatewayAllowed = js ''allowed''"
| "outcome_text GatewayDenied = js ''denied''"
| "outcome_text GatewayError = js ''error''"

fun refresh_text :: "refresh_outcome \<Rightarrow> ustr" where
  "refresh_text RefreshUpdated = js ''updated''"
| "refresh_text RefreshUnchanged = js ''unchanged''"

fun circuit_text :: "circuit_state \<Rightarrow> ustr" where
  "circuit_text Closed = js ''closed''"
| "circuit_text Open = js ''open''"
| "circuit_text HalfOpen = js ''half_open''"

fun role_text :: "tls_role \<Rightarrow> ustr" where
  "role_text ListenerRole = js ''listener''"
| "role_text ControlPlaneClientRole = js ''control_plane_client''"

fun tls_outcome_text :: "tls_outcome \<Rightarrow> ustr" where
  "tls_outcome_text TlsUpdated = js ''updated''"
| "tls_outcome_text TlsRejected = js ''rejected''"

record gateway_metric_record =
  gm_outcome :: gateway_outcome
  gm_status :: jsnum
  gm_durationMs :: jsnum

record metrics_snapshot =
  sn_ready :: bool
  sn_rateLimiterReady :: "bool option"
  sn_policyLoadedAtMilliseconds :: "jsnum option"

record duration_aggregate =
  da_count :: int
  da_sumSeconds :: jsnum

text \<open>The texts of the rate limiter's labels, which label its metrics.\<close>

fun backend_text :: "rate_limit_backend \<Rightarrow> ustr" where
  "backend_text BackendMemory = js ''memory''"
| "backend_text BackendRedis = js ''redis''"

fun check_text :: "rate_limit_metric_outcome \<Rightarrow> ustr" where
  "check_text OutcomeAllowed = js ''allowed''"
| "check_text OutcomeLimited = js ''limited''"
| "check_text OutcomeError = js ''error''"

definition gateway_outcomes :: "gateway_outcome list" where
  "gateway_outcomes = [GatewayAllowed, GatewayDenied, GatewayError]"

definition refresh_outcomes :: "refresh_outcome list" where
  "refresh_outcomes = [RefreshUpdated, RefreshUnchanged]"

definition rate_limit_backends :: "rate_limit_backend list" where
  "rate_limit_backends = [BackendMemory, BackendRedis]"

definition rate_limit_outcomes :: "rate_limit_metric_outcome list" where
  "rate_limit_outcomes = [OutcomeAllowed, OutcomeLimited, OutcomeError]"

definition circuit_states :: "circuit_state list" where
  "circuit_states = [Closed, Open, HalfOpen]"

definition tls_roles :: "tls_role list" where
  "tls_roles = [ListenerRole, ControlPlaneClientRole]"

definition tls_outcomes :: "tls_outcome list" where
  "tls_outcomes = [TlsUpdated, TlsRejected]"

record metrics =
  mt_startedAtMilliseconds :: jsnum
  mt_gatewayRequests :: "int js_map"
  mt_gatewayDurations :: "(gateway_outcome \<times> duration_aggregate) list"
  mt_configurationRefreshes :: "(refresh_outcome \<times> int) list"
  mt_rateLimitChecks :: "int js_map"
  mt_circuitTransitions :: "(circuit_state \<times> int) list"
  mt_tlsReloads :: "int js_map"
  mt_scrapes :: int
  mt_configurationSyncErrors :: int
  mt_activeGatewayRequests :: int
  mt_gatewayOverloadRejections :: int
  mt_gatewayAcceptingRequests :: int
  mt_gatewayDrainRejections :: int
  mt_upstreamCircuitRejections :: int
  mt_unavailableUpstreamCircuits :: int

definition new_metrics :: "jsnum \<Rightarrow> metrics" where
  "new_metrics now =
     \<lparr>mt_startedAtMilliseconds = now, mt_gatewayRequests = [],
      mt_gatewayDurations = map (\<lambda>outcome. (outcome, \<lparr>da_count = 0, da_sumSeconds = num 0\<rparr>)) gateway_outcomes,
      mt_configurationRefreshes = map (\<lambda>outcome. (outcome, 0)) refresh_outcomes, mt_rateLimitChecks = [],
      mt_circuitTransitions = map (\<lambda>st. (st, 0)) circuit_states, mt_tlsReloads = [], mt_scrapes = 0,
      mt_configurationSyncErrors = 0, mt_activeGatewayRequests = 0, mt_gatewayOverloadRejections = 0,
      mt_gatewayAcceptingRequests = 1, mt_gatewayDrainRejections = 0, mt_upstreamCircuitRejections = 0,
      mt_unavailableUpstreamCircuits = 0\<rparr>"

section \<open>Recording\<close>

text \<open>\<open>map.set(key, (map.get(key) ?? 0) + 1)\<close>.\<close>

definition count_up :: "'k \<Rightarrow> ('k \<times> int) list \<Rightarrow> ('k \<times> int) list" where
  "count_up key m = AList.update key ((case map_of m key of None \<Rightarrow> 0 | Some n \<Rightarrow> n) + 1) m"

text \<open>A key of two labels, joined by U+0000.\<close>

definition label_key :: "ustr \<Rightarrow> ustr \<Rightarrow> ustr" where
  "label_key a b = a @ [0] @ b"

definition normalize_status :: "jsnum \<Rightarrow> ustr" where
  "normalize_status status =
     (if is_safe_integer status \<and> jle (num 100) status \<and> jle status (num 599) then number_text status
      else js ''unknown'')"

definition normalize_duration_seconds :: "jsnum \<Rightarrow> jsnum" where
  "normalize_duration_seconds durationMs =
     (if \<not> is_finite durationMs then num 0 else jdiv (jmax (num 0) durationMs) (num 1000))"

definition record_gateway_request :: "gateway_metric_record \<Rightarrow> metrics \<Rightarrow> metrics" where
  "record_gateway_request event m =
     (let key = label_key (outcome_text (gm_outcome event)) (normalize_status (gm_status event));
          m1 = m\<lparr>mt_gatewayRequests := count_up key (mt_gatewayRequests m)\<rparr> in
      case map_of (mt_gatewayDurations m1) (gm_outcome event) of
        None \<Rightarrow> m1
      | Some aggregate \<Rightarrow>
          m1\<lparr>mt_gatewayDurations := AList.update (gm_outcome event)
               \<lparr>da_count = da_count aggregate + 1,
                da_sumSeconds = jadd (da_sumSeconds aggregate) (normalize_duration_seconds (gm_durationMs event))\<rparr>
               (mt_gatewayDurations m1)\<rparr>)"

definition record_configuration_refresh :: "refresh_outcome \<Rightarrow> metrics \<Rightarrow> metrics" where
  "record_configuration_refresh outcome m =
     m\<lparr>mt_configurationRefreshes := count_up outcome (mt_configurationRefreshes m)\<rparr>"

definition record_configuration_sync_error :: "metrics \<Rightarrow> metrics" where
  "record_configuration_sync_error m = m\<lparr>mt_configurationSyncErrors := mt_configurationSyncErrors m + 1\<rparr>"

definition record_tls_reload :: "tls_role \<Rightarrow> tls_outcome \<Rightarrow> metrics \<Rightarrow> metrics" where
  "record_tls_reload role outcome m =
     m\<lparr>mt_tlsReloads := count_up (label_key (role_text role) (tls_outcome_text outcome)) (mt_tlsReloads m)\<rparr>"

definition record_gateway_request_started :: "metrics \<Rightarrow> metrics" where
  "record_gateway_request_started m = m\<lparr>mt_activeGatewayRequests := mt_activeGatewayRequests m + 1\<rparr>"

definition record_gateway_request_finished :: "metrics \<Rightarrow> metrics" where
  "record_gateway_request_finished m = m\<lparr>mt_activeGatewayRequests := max 0 (mt_activeGatewayRequests m - 1)\<rparr>"

definition record_gateway_overload :: "metrics \<Rightarrow> metrics" where
  "record_gateway_overload m = m\<lparr>mt_gatewayOverloadRejections := mt_gatewayOverloadRejections m + 1\<rparr>"

definition record_gateway_drain_started :: "metrics \<Rightarrow> metrics" where
  "record_gateway_drain_started m = m\<lparr>mt_gatewayAcceptingRequests := 0\<rparr>"

definition record_gateway_drain_rejection :: "metrics \<Rightarrow> metrics" where
  "record_gateway_drain_rejection m = m\<lparr>mt_gatewayDrainRejections := mt_gatewayDrainRejections m + 1\<rparr>"

definition record_upstream_circuit_rejection :: "metrics \<Rightarrow> metrics" where
  "record_upstream_circuit_rejection m = m\<lparr>mt_upstreamCircuitRejections := mt_upstreamCircuitRejections m + 1\<rparr>"

definition record_upstream_circuit_transition :: "circuit_state \<Rightarrow> circuit_state \<Rightarrow> metrics \<Rightarrow> metrics" where
  "record_upstream_circuit_transition previous next_state m =
     (if previous = next_state then m
      else
        (let m1 = m\<lparr>mt_circuitTransitions := count_up next_state (mt_circuitTransitions m)\<rparr> in
         if previous = Closed \<and> next_state \<noteq> Closed
         then m1\<lparr>mt_unavailableUpstreamCircuits := mt_unavailableUpstreamCircuits m1 + 1\<rparr>
         else if previous \<noteq> Closed \<and> next_state = Closed
         then m1\<lparr>mt_unavailableUpstreamCircuits := max 0 (mt_unavailableUpstreamCircuits m1 - 1)\<rparr>
         else m1))"

definition record_rate_limit_check :: "rate_limit_backend \<Rightarrow> rate_limit_metric_outcome \<Rightarrow> metrics \<Rightarrow> metrics" where
  "record_rate_limit_check backend outcome m =
     m\<lparr>mt_rateLimitChecks := count_up (label_key (backend_text backend) (check_text outcome)) (mt_rateLimitChecks m)\<rparr>"

section \<open>Rendering\<close>

text \<open>\<open>formatNumber\<close>, and the age of the policy.\<close>

definition format_number :: "jsnum \<Rightarrow> ustr" where
  "format_number x = (if \<not> is_finite x then js ''0'' else number_text x)"

definition policy_age_seconds :: "metrics_snapshot \<Rightarrow> jsnum \<Rightarrow> jsnum" where
  "policy_age_seconds snapshot now =
     (case sn_policyLoadedAtMilliseconds snapshot of
        None \<Rightarrow> num 0
      | Some loadedAt \<Rightarrow>
          if \<not> sn_ready snapshot \<or> \<not> is_finite loadedAt then num 0
          else jdiv (jmax (num 0) (jsub now loadedAt)) (num 1000))"

text \<open>The two comment lines of a metric, and a sample line with its labels.\<close>

definition metric_name :: "string \<Rightarrow> ustr" where
  "metric_name name = js ''shieldward_edge_'' @ js name"

definition describe :: "string \<Rightarrow> string \<Rightarrow> string \<Rightarrow> ustr list" where
  "describe name kind help =
     [js ''# HELP '' @ metric_name name @ js '' '' @ js help, js ''# TYPE '' @ metric_name name @ js '' '' @ js kind]"

definition sample :: "string \<Rightarrow> (string \<times> ustr) list \<Rightarrow> ustr \<Rightarrow> ustr" where
  "sample name labels v = metric_name name
     @ (if labels = [] then []
        else js ''{'' @ join_with (js '','') (map (\<lambda>(l, x). js l @ [61, 34] @ x @ [34]) labels) @ js ''}'')
     @ js '' '' @ v"

text \<open>The counters of a list of labels, those without an entry at zero.\<close>

definition count_of :: "('k \<times> int) list \<Rightarrow> 'k \<Rightarrow> int" where
  "count_of m key = (case map_of m key of None \<Rightarrow> 0 | Some n \<Rightarrow> n)"

definition gauge_lines :: "metrics_snapshot \<Rightarrow> jsnum \<Rightarrow> metrics \<Rightarrow> ustr list" where
  "gauge_lines snapshot now m =
     describe ''process_start_time_seconds'' ''gauge'' ''Start time of the edge process.''
     @ [sample ''process_start_time_seconds'' [] (format_number (jdiv (mt_startedAtMilliseconds m) (num 1000)))]
     @ describe ''process_uptime_seconds'' ''gauge'' ''Uptime of the edge process.''
     @ [sample ''process_uptime_seconds'' []
          (format_number (jdiv (jmax (num 0) (jsub now (mt_startedAtMilliseconds m))) (num 1000)))]
     @ describe ''ready'' ''gauge'' ''Whether a verified policy is ready for evaluation.''
     @ [sample ''ready'' [] (if sn_ready snapshot then js ''1'' else js ''0'')]
     @ describe ''rate_limiter_ready'' ''gauge'' ''Whether the configured rate-limit backend is ready.''
     @ [sample ''rate_limiter_ready'' [] (if sn_rateLimiterReady snapshot = Some False then js ''0'' else js ''1'')]
     @ describe ''gateway_active_requests'' ''gauge'' ''Requests admitted and not yet completed or cancelled.''
     @ [sample ''gateway_active_requests'' [] (dec_int (mt_activeGatewayRequests m))]
     @ describe ''gateway_overload_rejections_total'' ''counter'' ''Requests rejected because the in-flight limit was reached.''
     @ [sample ''gateway_overload_rejections_total'' [] (dec_int (mt_gatewayOverloadRejections m))]
     @ describe ''gateway_accepting_requests'' ''gauge'' ''Whether the gateway is accepting new requests.''
     @ [sample ''gateway_accepting_requests'' [] (dec_int (mt_gatewayAcceptingRequests m))]
     @ describe ''gateway_drain_rejections_total'' ''counter'' ''Requests rejected because graceful draining had started.''
     @ [sample ''gateway_drain_rejections_total'' [] (dec_int (mt_gatewayDrainRejections m))]
     @ describe ''upstream_circuits_unavailable'' ''gauge'' ''Upstream circuits that are open or half open.''
     @ [sample ''upstream_circuits_unavailable'' [] (dec_int (mt_unavailableUpstreamCircuits m))]
     @ describe ''upstream_circuit_rejections_total'' ''counter'' ''Requests rejected by an unavailable upstream circuit.''
     @ [sample ''upstream_circuit_rejections_total'' [] (dec_int (mt_upstreamCircuitRejections m))]
     @ describe ''policy_age_seconds'' ''gauge'' ''Age of the active verified policy.''
     @ [sample ''policy_age_seconds'' [] (format_number (policy_age_seconds snapshot now))]"

text \<open>
  The gateway's counters. Their keys are compared by \<open>localeCompare\<close>, which ignores U+0000 and
  sorts digits before letters; for keys of this form that is the order of their units.
\<close>

definition gateway_lines :: "metrics \<Rightarrow> ustr list" where
  "gateway_lines m =
     describe ''gateway_requests_total'' ''counter'' ''Gateway requests grouped by bounded outcome and status.''
     @ map (\<lambda>(key, count). sample ''gateway_requests_total''
          [(''outcome'', hd (split_at 0 key)), (''status'', hd (tl (split_at 0 key)))] (dec_int count))
         (sort_key fst (mt_gatewayRequests m))
     @ describe ''gateway_request_duration_seconds'' ''summary'' ''Gateway request duration by outcome.''
     @ concat (map (\<lambda>outcome.
         (case map_of (mt_gatewayDurations m) outcome of
            None \<Rightarrow> []
          | Some aggregate \<Rightarrow>
              [sample ''gateway_request_duration_seconds_count'' [(''outcome'', outcome_text outcome)] (dec_int (da_count aggregate)),
               sample ''gateway_request_duration_seconds_sum'' [(''outcome'', outcome_text outcome)]
                 (format_number (da_sumSeconds aggregate))])) gateway_outcomes)"

definition counter_lines :: "metrics \<Rightarrow> ustr list" where
  "counter_lines m =
     describe ''upstream_circuit_transitions_total'' ''counter'' ''Upstream circuit transitions grouped by destination state.''
     @ map (\<lambda>st. sample ''upstream_circuit_transitions_total'' [(''state'', circuit_text st)]
         (dec_int (count_of (mt_circuitTransitions m) st))) circuit_states
     @ describe ''rate_limit_checks_total'' ''counter'' ''Rate-limit checks grouped by bounded backend and result.''
     @ concat (map (\<lambda>backend. map (\<lambda>outcome.
         sample ''rate_limit_checks_total'' [(''backend'', backend_text backend), (''result'', check_text outcome)]
           (dec_int (count_of (mt_rateLimitChecks m) (label_key (backend_text backend) (check_text outcome)))))
         rate_limit_outcomes) rate_limit_backends)
     @ describe ''tls_reload_total'' ''counter'' ''TLS material reloads grouped by bounded role and result.''
     @ concat (map (\<lambda>role. map (\<lambda>outcome.
         sample ''tls_reload_total'' [(''role'', role_text role), (''result'', tls_outcome_text outcome)]
           (dec_int (count_of (mt_tlsReloads m) (label_key (role_text role) (tls_outcome_text outcome)))))
         tls_outcomes) tls_roles)
     @ describe ''configuration_refresh_total'' ''counter'' ''Configuration refresh attempts by result.''
     @ map (\<lambda>outcome. sample ''configuration_refresh_total'' [(''result'', refresh_text outcome)]
         (dec_int (count_of (mt_configurationRefreshes m) outcome))) refresh_outcomes
     @ describe ''configuration_sync_errors_total'' ''counter'' ''Configuration synchronization errors.''
     @ [sample ''configuration_sync_errors_total'' [] (dec_int (mt_configurationSyncErrors m))]
     @ describe ''metrics_scrapes_total'' ''counter'' ''Successful local metrics scrapes.''
     @ [sample ''metrics_scrapes_total'' [] (dec_int (mt_scrapes m))]"

definition render :: "metrics_snapshot \<Rightarrow> jsnum \<Rightarrow> metrics \<Rightarrow> ustr \<times> metrics" where
  "render snapshot now m =
     (let m1 = m\<lparr>mt_scrapes := mt_scrapes m + 1\<rparr> in
      (join_with [10] (gauge_lines snapshot now m1 @ gateway_lines m1 @ counter_lines m1 @ [[]]), m1))"

section \<open>Counters count\<close>

text \<open>What the components report.\<close>

datatype metric_event =
    GatewayRequest gateway_metric_record
  | ConfigurationRefresh refresh_outcome
  | ConfigurationSyncErr
  | TlsReload tls_role tls_outcome
  | GatewayRequestStarted
  | GatewayRequestFinished
  | GatewayOverload
  | GatewayDrainStarted
  | GatewayDrainRejection
  | CircuitRejection
  | CircuitTransition circuit_state circuit_state
  | RateLimitCheck rate_limit_backend rate_limit_metric_outcome

fun record_event :: "metrics \<Rightarrow> metric_event \<Rightarrow> metrics" where
  "record_event m (GatewayRequest e) = record_gateway_request e m"
| "record_event m (ConfigurationRefresh r) = record_configuration_refresh r m"
| "record_event m ConfigurationSyncErr = record_configuration_sync_error m"
| "record_event m (TlsReload r t) = record_tls_reload r t m"
| "record_event m GatewayRequestStarted = record_gateway_request_started m"
| "record_event m GatewayRequestFinished = record_gateway_request_finished m"
| "record_event m GatewayOverload = record_gateway_overload m"
| "record_event m GatewayDrainStarted = record_gateway_drain_started m"
| "record_event m GatewayDrainRejection = record_gateway_drain_rejection m"
| "record_event m CircuitRejection = record_upstream_circuit_rejection m"
| "record_event m (CircuitTransition p n) = record_upstream_circuit_transition p n m"
| "record_event m (RateLimitCheck b r) = record_rate_limit_check b r m"

definition happened :: "(metric_event \<Rightarrow> bool) \<Rightarrow> metric_event list \<Rightarrow> int" where
  "happened P es = int (length (filter P es))"

lemma happened_snoc [simp]: "happened P [] = 0" "happened P (es @ [e]) = happened P es + (if P e then 1 else 0)"
  by (simp_all add: happened_def)

text \<open>The labels of a request are one of three outcomes with a status from 100 to 599 or \<open>unknown\<close>.\<close>

definition request_key :: "gateway_metric_record \<Rightarrow> ustr" where
  "request_key e = label_key (outcome_text (gm_outcome e)) (normalize_status (gm_status e))"

definition status_labels :: "ustr list" where
  "status_labels = js ''unknown'' # map dec [100..<600]"

definition request_keys :: "ustr list" where
  "request_keys = concat (map (\<lambda>outcome. map (label_key (outcome_text outcome)) status_labels) gateway_outcomes)"

lemma count_of_up [simp]: "count_of (count_up key m) k = count_of m k + (if key = k then 1 else 0)"
  by (auto simp add: count_of_def count_up_def)

lemma set_status_labels: "set status_labels = insert (js ''unknown'') (dec ` {100..<600})"
  unfolding status_labels_def list.set(2) set_map set_upt ..

lemma normalize_status_label: "normalize_status status \<in> set status_labels"
proof (cases "is_safe_integer status \<and> jle (num 100) status \<and> jle status (num 599)")
  case True
  then obtain n where n: "status = num n" "\<bar>n\<bar> \<le> max_safe" "100 \<le> n" "n \<le> 599"
    by (auto simp: is_safe_integer_iff)
  then have "normalize_status status = dec (nat n)" using True number_text_int [OF n(2)]
    by (simp add: normalize_status_def dec_int_def)
  moreover have "dec (nat n) \<in> dec ` {100..<600}" using n by (intro imageI) (auto simp: nat_less_iff le_nat_iff)
  ultimately show ?thesis unfolding set_status_labels by simp
qed (auto simp: normalize_status_def set_status_labels)

lemma request_key_listed: "request_key e \<in> set request_keys"
  using normalize_status_label [of "gm_status e"]
  by (cases "gm_outcome e") (auto simp: request_keys_def request_key_def gateway_outcomes_def)

definition counters_exact :: "metric_event list \<Rightarrow> metrics \<Rightarrow> bool" where
  "counters_exact es m \<longleftrightarrow>
     (\<forall>key. count_of (mt_gatewayRequests m) key = happened (\<lambda>e. case e of GatewayRequest r \<Rightarrow> request_key r = key | _ \<Rightarrow> False) es)
     \<and> (\<forall>outcome. \<exists>a. map_of (mt_gatewayDurations m) outcome = Some a
          \<and> da_count a = happened (\<lambda>e. case e of GatewayRequest r \<Rightarrow> gm_outcome r = outcome | _ \<Rightarrow> False) es)
     \<and> (\<forall>r. count_of (mt_configurationRefreshes m) r = happened (\<lambda>e. e = ConfigurationRefresh r) es)
     \<and> (\<forall>b r. count_of (mt_rateLimitChecks m) (label_key (backend_text b) (check_text r)) = happened (\<lambda>e. e = RateLimitCheck b r) es)
     \<and> (\<forall>r t. count_of (mt_tlsReloads m) (label_key (role_text r) (tls_outcome_text t)) = happened (\<lambda>e. e = TlsReload r t) es)
     \<and> (\<forall>st. count_of (mt_circuitTransitions m) st
          = happened (\<lambda>e. case e of CircuitTransition p n \<Rightarrow> p \<noteq> n \<and> n = st | _ \<Rightarrow> False) es)
     \<and> mt_configurationSyncErrors m = happened (\<lambda>e. e = ConfigurationSyncErr) es
     \<and> mt_gatewayOverloadRejections m = happened (\<lambda>e. e = GatewayOverload) es
     \<and> mt_gatewayDrainRejections m = happened (\<lambda>e. e = GatewayDrainRejection) es
     \<and> mt_upstreamCircuitRejections m = happened (\<lambda>e. e = CircuitRejection) es
     \<and> (mt_gatewayAcceptingRequests m = (if happened (\<lambda>e. e = GatewayDrainStarted) es = 0 then 1 else 0))
     \<and> map_ok (mt_gatewayRequests m) \<and> fst ` set (mt_gatewayRequests m) \<subseteq> set request_keys"

lemma label_key_inject [simp]:
  "label_key (backend_text b) (check_text r) = label_key (backend_text b') (check_text r') \<longleftrightarrow> b = b' \<and> r = r'"
  "label_key (role_text t) (tls_outcome_text u) = label_key (role_text t') (tls_outcome_text u') \<longleftrightarrow> t = t' \<and> u = u'"
  by (cases b; cases b'; cases r; cases r'; simp add: label_key_def js_def)
    (cases t; cases t'; cases u; cases u'; simp add: label_key_def js_def)

lemma happened_nonneg [simp]: "0 \<le> happened P es"
  by (simp add: happened_def)

lemma set_count_up: "fst ` set (count_up key m) = insert key (fst ` set m)"
  by (auto simp: count_up_def update_keys image_iff simp flip: set_map)

lemma counters_new: "counters_exact [] (new_metrics now)"
  by (auto simp: counters_exact_def new_metrics_def count_of_def gateway_outcomes_def refresh_outcomes_def
      circuit_states_def)
    (use gateway_outcome.exhaust in blast)

lemma counters_durations:
  "counters_exact es m \<Longrightarrow> \<exists>a. map_of (mt_gatewayDurations m) outcome = Some a
     \<and> da_count a = happened (\<lambda>e. case e of GatewayRequest r \<Rightarrow> gm_outcome r = outcome | _ \<Rightarrow> False) es"
  by (simp add: counters_exact_def)

lemma counters_request:
  assumes "counters_exact es m"
  shows "counters_exact (es @ [GatewayRequest r]) (record_gateway_request r m)"
proof -
  obtain a where a: "map_of (mt_gatewayDurations m) (gm_outcome r) = Some a"
    and n: "da_count a = happened (\<lambda>e. case e of GatewayRequest x \<Rightarrow> gm_outcome x = gm_outcome r | _ \<Rightarrow> False) es"
    using counters_durations [OF assms] by blast
  define m' where "m' = record_gateway_request r m"
  have m': "m' = m\<lparr>mt_gatewayRequests := count_up (request_key r) (mt_gatewayRequests m),
      mt_gatewayDurations := AList.update (gm_outcome r)
        \<lparr>da_count = da_count a + 1,
         da_sumSeconds = jadd (da_sumSeconds a) (normalize_duration_seconds (gm_durationMs r))\<rparr> (mt_gatewayDurations m)\<rparr>"
    using a by (simp add: m'_def record_gateway_request_def request_key_def)
  have "\<exists>x. map_of (mt_gatewayDurations m') outcome = Some x
          \<and> da_count x = happened (\<lambda>e. case e of GatewayRequest r \<Rightarrow> gm_outcome r = outcome | _ \<Rightarrow> False) (es @ [GatewayRequest r])" for outcome
  proof (cases "outcome = gm_outcome r")
    case True
    with n show ?thesis by (simp add: m')
  next
    case False
    with counters_durations [OF assms, of outcome] show ?thesis by (auto simp: m')
  qed
  moreover have "map_ok (mt_gatewayRequests m')" "fst ` set (mt_gatewayRequests m') \<subseteq> set request_keys"
    using assms request_key_listed [of r] unfolding counters_exact_def m' by (simp_all add: set_count_up) (simp add: count_up_def)
  moreover have "count_of (mt_gatewayRequests m') key
      = happened (\<lambda>e. case e of GatewayRequest r \<Rightarrow> request_key r = key | _ \<Rightarrow> False) (es @ [GatewayRequest r])" for key
    using assms unfolding counters_exact_def by (simp add: m')
  ultimately show ?thesis
    unfolding m'_def [symmetric] using assms unfolding counters_exact_def by (simp add: m')
qed

lemma counters_step: "counters_exact es m \<Longrightarrow> counters_exact (es @ [e]) (record_event m e)"
proof (cases e)
  case (GatewayRequest r)
  then show "counters_exact es m \<Longrightarrow> ?thesis" by (simp add: counters_request)
next
  case (CircuitTransition p n)
  then show "counters_exact es m \<Longrightarrow> ?thesis"
    by (auto simp: counters_exact_def record_upstream_circuit_transition_def Let_def)
qed (simp_all add: counters_exact_def record_configuration_refresh_def record_configuration_sync_error_def
    record_tls_reload_def record_gateway_request_started_def record_gateway_request_finished_def
    record_gateway_overload_def record_gateway_drain_started_def record_gateway_drain_rejection_def
    record_upstream_circuit_rejection_def record_rate_limit_check_def add_nonneg_eq_0_iff)

text \<open>C40: Counters. After any sequence of reports every counter is the number of reports it is for, the
  count of a request's duration included; the accepting gauge is 1 until draining starts; and
  whatever statuses are reported there are at most 1503 request series, so the text a scrape renders
  stays bounded.\<close>

theorem metrics_count:
  "counters_exact es (foldl record_event (new_metrics now) es)
   \<and> length (mt_gatewayRequests (foldl record_event (new_metrics now) es)) \<le> 1503"
proof -
  have ex: "counters_exact es (foldl record_event (new_metrics now) es)"
  proof (induction es rule: rev_induct)
    case Nil
    then show ?case by (simp add: counters_new)
  next
    case (snoc e es)
    from counters_step [OF this] show ?case by simp
  qed
  define m where "m = foldl record_event (new_metrics now) es"
  have "distinct (map fst (mt_gatewayRequests m))" "set (map fst (mt_gatewayRequests m)) \<subseteq> set request_keys"
    using ex by (simp_all add: m_def counters_exact_def map_ok_def)
  then have "length (mt_gatewayRequests m) \<le> length request_keys"
    by (metis card_length card_mono distinct_card finite_set le_trans length_map)
  also have "length request_keys = 1503" by (simp add: request_keys_def gateway_outcomes_def status_labels_def)
  finally show ?thesis using ex by (simp add: m_def)
qed

section \<open>The gauge of unavailable circuits\<close>

definition observe_transitions :: "(circuit_state \<times> circuit_state) list \<Rightarrow> metrics \<Rightarrow> metrics" where
  "observe_transitions ts m = foldl (\<lambda>m t. record_upstream_circuit_transition (fst t) (snd t) m) m ts"

lemma observe_append: "observe_transitions (ts @ us) m = observe_transitions us (observe_transitions ts m)"
  by (simp add: observe_transitions_def)

lemma observe_other:
  "mt_activeGatewayRequests (observe_transitions ts m) = mt_activeGatewayRequests m"
  "mt_gatewayAcceptingRequests (observe_transitions ts m) = mt_gatewayAcceptingRequests m"
proof (induction ts arbitrary: m)
  case (Cons t ts)
  { case 1 with Cons show ?case by (simp add: observe_transitions_def record_upstream_circuit_transition_def Let_def) }
  { case 2 with Cons show ?case by (simp add: observe_transitions_def record_upstream_circuit_transition_def Let_def) }
qed (simp_all add: observe_transitions_def)

lemma gauge_transition:
  assumes "0 \<le> mt_unavailableUpstreamCircuits m + transition_delta (p, n)"
  shows "mt_unavailableUpstreamCircuits (record_upstream_circuit_transition p n m)
     = mt_unavailableUpstreamCircuits m + transition_delta (p, n)"
  using assms by (auto simp: record_upstream_circuit_transition_def Let_def)

text \<open>A step of the breaker whose report is observed moves the gauge with the number of circuits.\<close>

lemma gauge_moves:
  assumes "breaker_moves key b b'" "mt_unavailableUpstreamCircuits m = unavailable_count b"
  shows "mt_unavailableUpstreamCircuits (observe_transitions (drop (length (cb_transitions b)) (cb_transitions b')) m)
     = unavailable_count b'"
proof -
  from assms(1) obtain ts where ts: "cb_transitions b' = cb_transitions b @ ts" "length ts \<le> 1"
    "unavailable_count b' = unavailable_count b + sum_list (map transition_delta ts)"
    by (auto simp: breaker_moves_def)
  have "0 \<le> unavailable_count b'" by (simp add: unavailable_count_def)
  with ts assms(2) show ?thesis
    by (cases ts) (auto simp: observe_transitions_def gauge_transition simp del: transition_delta.simps)
qed

end
