(* ===== verification/AuditLog.thy ===== *)
theory AuditLog imports Json Metrics begin

text \<open>
  The audit log (\<open>edge/src/audit.ts\<close>): one JSON object per line for each request, and for the
  events of the system. The clock's \<open>toISOString()\<close> and the sink are arguments.
\<close>

section \<open>Records\<close>

text \<open>The outcomes of a request are those of its metric.\<close>

record security_audit_record =
  sa_requestId :: ustr
  sa_method :: ustr
  sa_path :: ustr
  sa_outcome :: gateway_outcome
  sa_status :: jsnum
  sa_durationMs :: jsnum
  sa_policyVersion :: "ustr option"
  sa_routeId :: "ustr option"
  sa_reason :: "ustr option"
  sa_upstreamStatus :: "jsnum option"

datatype system_audit_record =
    ConfigurationSyncFailed
  | ListenerTlsReloaded
  | ListenerTlsReloadFailed
  | ControlPlaneClientTlsReloaded
  | ControlPlaneClientTlsReloadFailed

fun system_component :: "system_audit_record \<Rightarrow> ustr" where
  "system_component ConfigurationSyncFailed = js ''configuration_sync''"
| "system_component _ = js ''tls''"

fun system_outcome :: "system_audit_record \<Rightarrow> ustr" where
  "system_outcome ListenerTlsReloaded = js ''updated''"
| "system_outcome ControlPlaneClientTlsReloaded = js ''updated''"
| "system_outcome _ = js ''error''"

fun system_reason :: "system_audit_record \<Rightarrow> ustr" where
  "system_reason ConfigurationSyncFailed = js ''configuration_sync_failed''"
| "system_reason ListenerTlsReloaded = js ''listener_tls_reloaded''"
| "system_reason ListenerTlsReloadFailed = js ''listener_tls_reload_failed''"
| "system_reason ControlPlaneClientTlsReloaded = js ''control_plane_client_tls_reloaded''"
| "system_reason ControlPlaneClientTlsReloadFailed = js ''control_plane_client_tls_reload_failed''"

definition optional_member :: "string \<Rightarrow> ('a \<Rightarrow> json) \<Rightarrow> 'a option \<Rightarrow> (ustr \<times> json) list" where
  "optional_member key wrap x = (case x of None \<Rightarrow> [] | Some v \<Rightarrow> [(js key, wrap v)])"

definition audit_json :: "ustr \<Rightarrow> security_audit_record \<Rightarrow> json" where
  "audit_json timestamp event = JObject
     ([(js ''type'', JString (js ''security_request'')), (js ''schemaVersion'', JNumber (num 1)),
       (js ''timestamp'', JString timestamp), (js ''requestId'', JString (sa_requestId event)),
       (js ''method'', JString (sa_method event)), (js ''path'', JString (sa_path event)),
       (js ''outcome'', JString (outcome_text (sa_outcome event))), (js ''status'', JNumber (sa_status event)),
       (js ''durationMs'', JNumber (sa_durationMs event))]
      @ optional_member ''policyVersion'' JString (sa_policyVersion event)
      @ optional_member ''routeId'' JString (sa_routeId event)
      @ optional_member ''reason'' JString (sa_reason event)
      @ optional_member ''upstreamStatus'' JNumber (sa_upstreamStatus event))"

definition system_json :: "ustr \<Rightarrow> system_audit_record \<Rightarrow> json" where
  "system_json timestamp event = JObject
     [(js ''type'', JString (js ''security_system'')), (js ''schemaVersion'', JNumber (num 1)),
      (js ''timestamp'', JString timestamp), (js ''component'', JString (system_component event)),
      (js ''outcome'', JString (system_outcome event)), (js ''reason'', JString (system_reason event))]"

text \<open>\<open>record\<close> and \<open>recordSystem\<close>: the line written to the sink.\<close>

definition record_line :: "ustr \<Rightarrow> security_audit_record \<Rightarrow> ustr" where
  "record_line timestamp event = json_text (audit_json timestamp event)"

definition record_system_line :: "ustr \<Rightarrow> system_audit_record \<Rightarrow> ustr" where
  "record_system_line timestamp event = json_text (system_json timestamp event)"

section \<open>One record, one line\<close>

text \<open>A text without control characters.\<close>

definition printable :: "ustr \<Rightarrow> bool" where
  "printable s \<longleftrightarrow> list_all (\<lambda>c. 32 \<le> c) s"

lemma printable_append [simp]: "printable (s @ t) \<longleftrightarrow> printable s \<and> printable t"
  by (simp add: printable_def)

lemma printable_basic [simp]: "printable []" "printable (c # s) \<longleftrightarrow> 32 \<le> c \<and> printable s"
  by (simp_all add: printable_def)

lemma printable_number: "printable (number_text x)"
  using plain_ascii_number [of x] by (auto simp: printable_def plain_ascii_def list_all_iff)

lemma printable_string: "printable (string_text s)"
proof -
  have h: "32 \<le> hex_digit d" for d by (simp add: hex_digit_def)
  have p: "printable (plain_char_text c)" for c by (simp add: plain_char_text_def unit_escape_def h)
  have "printable (string_chars s)"
    by (induction s rule: string_chars.induct) (simp_all add: p)
  then show ?thesis by (simp add: string_text_def)
qed

lemma printable_join: "list_all printable ws \<Longrightarrow> printable d \<Longrightarrow> printable (join_with d ws)"
  by (induction d ws rule: join_with.induct) simp_all

lemma printable_json: "printable (json_text v)"
proof (induction v rule: json_text.induct)
  case (5 vs)
  then have "printable (join_with [44] (map json_text vs))" by (intro printable_join) (auto simp: list_all_iff)
  then show ?case by simp
next
  case (6 ms)
  then have "printable (join_with [44] (map (\<lambda>kv. string_text (fst kv) @ 58 # json_text (snd kv)) ms))"
    by (intro printable_join) (auto simp: list_all_iff printable_string)
  then show ?case by simp
qed (simp_all add: js_def printable_number printable_string)

text \<open>Records whose texts are made of 16-bit units and whose numbers are finite.\<close>

definition audit_ok :: "security_audit_record \<Rightarrow> bool" where
  "audit_ok e \<longleftrightarrow> json_ok (JString (sa_requestId e)) \<and> json_ok (JString (sa_method e)) \<and> json_ok (JString (sa_path e))
     \<and> is_double (sa_status e) \<and> is_double (sa_durationMs e)
     \<and> pred_option (\<lambda>s. json_ok (JString s)) (sa_policyVersion e) \<and> pred_option (\<lambda>s. json_ok (JString s)) (sa_routeId e)
     \<and> pred_option (\<lambda>s. json_ok (JString s)) (sa_reason e) \<and> pred_option is_double (sa_upstreamStatus e)"

lemma audit_json_ok: "audit_ok e \<Longrightarrow> json_ok (JString timestamp) \<Longrightarrow> json_ok (audit_json timestamp e)"
proof -
  assume ok: "audit_ok e" "json_ok (JString timestamp)"
  have outcome: "list_all (\<lambda>c. c < 65536) (outcome_text (sa_outcome e))" by (cases "sa_outcome e") simp_all
  obtain v r q u where opt: "sa_policyVersion e = v" "sa_routeId e = r" "sa_reason e = q" "sa_upstreamStatus e = u" by blast
  from ok outcome show ?thesis
    unfolding audit_json_def opt
    by (cases v; cases r; cases q; cases u)
      (simp_all add: audit_ok_def opt optional_member_def own_order_names all_digits_js is_digit_def map_ok_def)
qed

lemma system_json_ok: "json_ok (JString timestamp) \<Longrightarrow> json_ok (system_json timestamp e)"
  by (cases e) (simp_all add: system_json_def own_order_names all_digits_js is_digit_def map_ok_def)

text \<open>
  What a reader of the log finds under each name of a record, written down by name: nothing else,
  and an absent member where the record has none.
\<close>

definition audit_member :: "ustr \<Rightarrow> security_audit_record \<Rightarrow> ustr \<Rightarrow> json option" where
  "audit_member timestamp e name =
     (if name = js ''status'' then Some (JNumber (sa_status e))
      else if name = js ''durationMs'' then Some (JNumber (sa_durationMs e))
      else if name = js ''method'' then Some (JString (sa_method e))
      else if name = js ''path'' then Some (JString (sa_path e))
      else if name = js ''requestId'' then Some (JString (sa_requestId e))
      else if name = js ''outcome'' then Some (JString (case sa_outcome e of
          GatewayAllowed \<Rightarrow> js ''allowed'' | GatewayDenied \<Rightarrow> js ''denied'' | GatewayError \<Rightarrow> js ''error''))
      else if name = js ''routeId'' then map_option JString (sa_routeId e)
      else if name = js ''reason'' then map_option JString (sa_reason e)
      else if name = js ''policyVersion'' then map_option JString (sa_policyVersion e)
      else if name = js ''upstreamStatus'' then map_option JNumber (sa_upstreamStatus e)
      else if name = js ''timestamp'' then Some (JString timestamp)
      else if name = js ''type'' then Some (JString (js ''security_request''))
      else if name = js ''schemaVersion'' then Some (JNumber (num 1))
      else None)"

definition system_member :: "ustr \<Rightarrow> system_audit_record \<Rightarrow> ustr \<Rightarrow> json option" where
  "system_member timestamp e name =
     (if name = js ''component''
      then Some (JString (if e = ConfigurationSyncFailed then js ''configuration_sync'' else js ''tls''))
      else if name = js ''outcome''
      then Some (JString (if e = ListenerTlsReloaded \<or> e = ControlPlaneClientTlsReloaded then js ''updated'' else js ''error''))
      else if name = js ''reason''
      then Some (JString (case e of ConfigurationSyncFailed \<Rightarrow> js ''configuration_sync_failed''
          | ListenerTlsReloaded \<Rightarrow> js ''listener_tls_reloaded'' | ListenerTlsReloadFailed \<Rightarrow> js ''listener_tls_reload_failed''
          | ControlPlaneClientTlsReloaded \<Rightarrow> js ''control_plane_client_tls_reloaded''
          | ControlPlaneClientTlsReloadFailed \<Rightarrow> js ''control_plane_client_tls_reload_failed''))
      else if name = js ''timestamp'' then Some (JString timestamp)
      else if name = js ''type'' then Some (JString (js ''security_system''))
      else if name = js ''schemaVersion'' then Some (JNumber (num 1))
      else None)"

lemma map_of_optional [simp]:
  "map_of (optional_member key wrap x @ ms) name =
     (if name = js key \<and> x \<noteq> None then map_option wrap x else map_of ms name)"
  by (cases x) (auto simp: optional_member_def)

lemma map_of_optional_last [simp]:
  "map_of (optional_member key wrap x) name = (if name = js key then map_option wrap x else None)"
  by (cases x) (auto simp: optional_member_def)

lemma audit_json_members: "\<exists>obj. audit_json timestamp e = JObject obj \<and> map_of obj = audit_member timestamp e"
proof -
  have outcome: "outcome_text (sa_outcome e) = (case sa_outcome e of
      GatewayAllowed \<Rightarrow> js ''allowed'' | GatewayDenied \<Rightarrow> js ''denied'' | GatewayError \<Rightarrow> js ''error'')"
    by (cases "sa_outcome e") simp_all
  obtain obj where obj: "audit_json timestamp e = JObject obj" by (simp add: audit_json_def)
  have "map_of obj name = audit_member timestamp e name" for name
    using obj unfolding audit_json_def json.inject outcome audit_member_def
    by (drule_tac sym) (simp del: map_of_append)
  with obj show ?thesis by blast
qed

lemma system_json_members: "\<exists>obj. system_json timestamp e = JObject obj \<and> map_of obj = system_member timestamp e"
  by (cases e) (auto simp: system_json_def system_member_def)

text \<open>C39: The log cannot be forged. Whatever a request holds, the line written for it, or for an event of
  the system, has no control character, so one record is one line; and for a record of finite numbers
  (fractional durations too) and 16-bit texts, parsing the line gives an object in which each name
  has the value of its own field of the record, the optional ones exactly when the record has them,
  and no other member.\<close>

theorem audit_line:
  "list_all (\<lambda>c. 32 \<le> c) (record_line timestamp e) \<and> list_all (\<lambda>c. 32 \<le> c) (record_system_line timestamp e')
   \<and> (audit_ok e \<and> list_all (\<lambda>c. c < 65536) timestamp \<longrightarrow>
        (\<exists>obj. json_parse (record_line timestamp e) = Some (JObject obj)
           \<and> (\<forall>name. map_of obj name = audit_member timestamp e name)))
   \<and> (list_all (\<lambda>c. c < 65536) timestamp \<longrightarrow>
        (\<exists>obj. json_parse (record_system_line timestamp e') = Some (JObject obj)
           \<and> (\<forall>name. map_of obj name = system_member timestamp e' name)))"
proof -
  obtain obj where obj: "audit_json timestamp e = JObject obj" "map_of obj = audit_member timestamp e"
    using audit_json_members by blast
  obtain obj' where obj': "system_json timestamp e' = JObject obj'" "map_of obj' = system_member timestamp e'"
    using system_json_members by blast
  show ?thesis
    using printable_json [of "audit_json timestamp e"] printable_json [of "system_json timestamp e'"] obj obj'
      json_round_trip [OF audit_json_ok, of e timestamp] json_round_trip [OF system_json_ok, of timestamp e']
    by (simp add: record_line_def record_system_line_def printable_def)
qed

definition demo_audit :: security_audit_record where
  "demo_audit = \<lparr>sa_requestId = js ''1'', sa_method = js ''GET'', sa_path = [47, 10, 34], sa_outcome = GatewayDenied,
     sa_status = num 403, sa_durationMs = Fin (13 / 8), sa_policyVersion = None, sa_routeId = Some (js ''r''),
     sa_reason = Some (js ''waf_blocked''), sa_upstreamStatus = None\<rparr>"

theorem audit_line_witness:
  "list_all (\<lambda>c. 32 \<le> c) (record_line (js ''t'') demo_audit)
   \<and> (\<exists>obj. json_parse (record_line (js ''t'') demo_audit) = Some (JObject obj)
        \<and> map_of obj (js ''durationMs'') = Some (JNumber (Fin (13 / 8))) \<and> map_of obj (js ''path'') = Some (JString [47, 10, 34])
        \<and> map_of obj (js ''policyVersion'') = None)"
proof -
  have "fl (13 / 8) = Fin (13 / 8)" by code_simp
  then have "audit_ok demo_audit" by (simp add: audit_ok_def demo_audit_def)
  with audit_line [of "js ''t''" demo_audit ListenerTlsReloaded] obtain obj where
    "json_parse (record_line (js ''t'') demo_audit) = Some (JObject obj)"
    "\<And>name. map_of obj name = audit_member (js ''t'') demo_audit name" by auto
  moreover have "audit_member (js ''t'') demo_audit (js ''durationMs'') = Some (JNumber (Fin (13 / 8)))"
    "audit_member (js ''t'') demo_audit (js ''path'') = Some (JString [47, 10, 34])"
    "audit_member (js ''t'') demo_audit (js ''policyVersion'') = None"
    by (simp_all add: audit_member_def demo_audit_def)
  ultimately show ?thesis using audit_line [of "js ''t''" demo_audit] by simp
qed

end
