(* ===== verification/Gateway.thy ===== *)
theory Gateway imports Ownership AdmissionGate RequestBody Proxy PolicyEngine AuditLog begin

text \<open>
  The gateway (\<open>edge/src/gateway.ts\<close>): admission, buffering of the body, policy, circuit breaker,
  proxy, audit and metrics of each request. \<open>handle\<close> is asynchronous; the stretches between its
  awaits are the operations here, and requests in flight are interleaved by a step relation. What
  the policy evaluator answers, what the fetch gives and what the clocks read are arguments of the
  steps.
\<close>

section \<open>State\<close>

definition default_max_in_flight_requests :: int where "default_max_in_flight_requests = 1024"

record gateway =
  gw_maxRequestBodyBytes :: int
  gw_upstreamTimeoutMs :: int
  gw_audited :: bool
  gw_gate :: admission_gate
  gw_breaker :: breaker_system
  gw_metrics :: "metrics option"
  gw_audit :: "security_audit_record list"

record gateway_options =
  go_maxRequestBodyBytes :: "jsnum option"
  go_upstreamTimeoutMs :: "jsnum option"
  go_maxInFlightRequests :: "jsnum option"
  go_circuitFailureThreshold :: "jsnum option"
  go_circuitOpenDurationMs :: "jsnum option"
  go_circuitMaximumUpstreams :: "jsnum option"
  go_audited :: bool
  go_metrics :: "metrics option"

definition or_default :: "jsnum option \<Rightarrow> int \<Rightarrow> jsnum" where
  "or_default x d = (case x of None \<Rightarrow> num d | Some v \<Rightarrow> v)"

definition new_gateway :: "gateway_options \<Rightarrow> gateway result" where
  "new_gateway options =
     (let bodyBytes = or_default (go_maxRequestBodyBytes options) default_max_request_body_bytes;
          timeoutMs = or_default (go_upstreamTimeoutMs options) default_upstream_timeout_ms in
      bind_result (new_admission_gate (or_default (go_maxInFlightRequests options) default_max_in_flight_requests)) (\<lambda>gate.
      bind_result (new_circuit_breaker (go_circuitFailureThreshold options) (go_circuitOpenDurationMs options)
          (go_circuitMaximumUpstreams options)) (\<lambda>breaker.
        if \<not> is_safe_integer bodyBytes \<or> jle bodyBytes (num 0)
        then Inl (Error (js ''maximum request body size must be a positive integer''))
        else if \<not> is_safe_integer timeoutMs \<or> jle timeoutMs (num 0)
        then Inl (Error (js ''upstream timeout must be a positive integer''))
        else Inr \<lparr>gw_maxRequestBodyBytes = int_of_num bodyBytes, gw_upstreamTimeoutMs = int_of_num timeoutMs,
               gw_audited = go_audited options, gw_gate = gate,
               gw_breaker = \<lparr>bs_breaker = breaker, bs_permits = []\<rparr>, gw_metrics = go_metrics options, gw_audit = []\<rparr>)))"

text \<open>Reports to the metrics, if there are any; a report that throws is swallowed by the code.\<close>

definition measure_gateway :: "(metrics \<Rightarrow> metrics) \<Rightarrow> gateway \<Rightarrow> gateway" where
  "measure_gateway report g = g\<lparr>gw_metrics := map_option report (gw_metrics g)\<rparr>"

text \<open>The breaker after an operation, its transitions observed by the gateway.\<close>

definition with_breaker :: "breaker_system \<Rightarrow> gateway \<Rightarrow> gateway" where
  "with_breaker bs g =
     measure_gateway (observe_transitions (drop (length (cb_transitions (bs_breaker (gw_breaker g)))) (cb_transitions (bs_breaker bs))))
       (g\<lparr>gw_breaker := bs\<rparr>)"

section \<open>Responses\<close>

definition error_response :: "int \<Rightarrow> ustr \<Rightarrow> headers \<Rightarrow> http_response" where
  "error_response status code additional =
     (let h = header_set (js ''content-type'') (js ''application/json; charset=UTF-8'') additional;
          h = header_set (js ''cache-control'') (js ''no-store'') h in
      \<lparr>res_status = status, res_statusText = [], res_headers = h,
       res_body = Some \<lparr>st_chunks = [utf8_encode (json_text (JObject [(js ''error'', JString code)]))], st_failure = None\<rparr>\<rparr>)"

definition denied_response :: "denial \<Rightarrow> http_response" where
  "denied_response d =
     (let h = (if dn_status d = 401 then [(js ''www-authenticate'', js ''Bearer'')] else []);
          h = (case dn_retryAfterSeconds d of
                 Some seconds \<Rightarrow> if dn_status d = 429 then header_set (js ''retry-after'') (number_text seconds) h else h
               | None \<Rightarrow> h)
      in error_response (dn_status d) (denial_text (dn_code d)) h)"

section \<open>Completion\<close>

record audit_completion =
  co_outcome :: gateway_outcome
  co_reason :: "ustr option"
  co_routeId :: "ustr option"
  co_upstreamStatus :: "jsnum option"

text \<open>What the clocks and the evaluator's version read at a step.\<close>

record moment =
  mo_now :: jsnum
  mo_version :: "ustr option"
  mo_clock :: int

text \<open>A request under way: what \<open>handle\<close> closes over.\<close>

record request_info =
  ri_request :: http_request
  ri_clientIp :: "ustr option"
  ri_requestId :: ustr
  ri_startedAt :: jsnum

text \<open>
  No stream fails with a \<open>GatewayRequestError\<close>: the class is private to the module, whose only
  throws of it are those of \<open>readRequestBody\<close> itself.
\<close>

definition own_failure_only :: "request_info \<Rightarrow> bool" where
  "own_failure_only ri \<longleftrightarrow>
     (\<forall>stream status code. req_body (ri_request ri) = Some stream \<longrightarrow> st_failure stream \<noteq> Some (GatewayRequestError status code))"

definition audit_record_of :: "request_info \<Rightarrow> moment \<Rightarrow> int \<Rightarrow> jsnum \<Rightarrow> audit_completion \<Rightarrow> security_audit_record" where
  "audit_record_of ri mo status durationMs completion =
     \<lparr>sa_requestId = ri_requestId ri, sa_method = to_upper (req_method (ri_request ri)),
      sa_path = u_pathname (req_url (ri_request ri)), sa_outcome = co_outcome completion, sa_status = num status,
      sa_durationMs = durationMs, sa_policyVersion = mo_version mo, sa_routeId = co_routeId completion,
      sa_reason = co_reason completion, sa_upstreamStatus = co_upstreamStatus completion\<rparr>"

definition complete :: "request_info \<Rightarrow> moment \<Rightarrow> http_response \<Rightarrow> audit_completion \<Rightarrow> gateway \<Rightarrow> http_response \<times> gateway" where
  "complete ri mo response completion g =
     (let response = response\<lparr>res_headers := header_set (js ''x-request-id'') (ri_requestId ri) (res_headers response)\<rparr>;
          durationMs = jmax (num 0) (jsub (mo_now mo) (ri_startedAt ri));
          g = (if gw_audited g
               then g\<lparr>gw_audit := gw_audit g @ [audit_record_of ri mo (res_status response) durationMs completion]\<rparr>
               else g)
      in (response, measure_gateway (record_gateway_request
            \<lparr>gm_outcome = co_outcome completion, gm_status = num (res_status response), gm_durationMs = durationMs\<rparr>) g))"

definition failed :: "gateway_outcome \<Rightarrow> ustr \<Rightarrow> ustr option \<Rightarrow> audit_completion" where
  "failed outcome reason routeId =
     \<lparr>co_outcome = outcome, co_reason = Some reason, co_routeId = routeId, co_upstreamStatus = None\<rparr>"

section \<open>The stretches of a request\<close>

text \<open>
  \<open>handle\<close> up to its first await: the request is refused, with its response, or admitted under a
  ticket of the gate.
\<close>

definition arrive :: "request_info \<Rightarrow> moment \<Rightarrow> gateway \<Rightarrow> (http_response + nat) \<times> gateway" where
  "arrive ri mo g =
     (case try_acquire (gw_gate g) of
        (Draining, gate) \<Rightarrow>
          (case complete ri mo
                  (error_response 503 (js ''gateway_draining'') [(js ''connection'', js ''close''), (js ''retry-after'', js ''1'')])
                  (failed GatewayError (js ''gateway_draining'') None)
                  (measure_gateway record_gateway_drain_rejection (g\<lparr>gw_gate := gate\<rparr>)) of
             (response, g') \<Rightarrow> (Inl response, g'))
      | (Overloaded, gate) \<Rightarrow>
          (case complete ri mo
                  (error_response 503 (js ''gateway_overloaded'') [(js ''retry-after'', js ''1'')])
                  (failed GatewayError (js ''gateway_overloaded'') None)
                  (measure_gateway record_gateway_overload (g\<lparr>gw_gate := gate\<rparr>)) of
             (response, g') \<Rightarrow> (Inl response, g'))
      | (Accepted ticket, gate) \<Rightarrow>
          (Inr ticket, measure_gateway record_gateway_request_started (g\<lparr>gw_gate := gate\<rparr>)))"

text \<open>
  The phases of an admitted request: reading its body, being evaluated, forwarded under a permit of
  the breaker, answered with a body not yet consumed, settled.
\<close>

datatype request_phase =
    ReadingBody
  | Evaluating buffered_body policy_request
  | Forwarding compiled_route nat proxy_input
  | Responding http_response
  | Settled "http_response result"

text \<open>A stretch of \<open>#handleAdmitted\<close> ends the handler with a result, or goes on to a phase.\<close>

type_synonym stretch = "http_response result + request_phase"

definition finish :: "http_response \<times> gateway \<Rightarrow> stretch \<times> gateway" where
  "finish rg = (Inl (Inr (fst rg)), snd rg)"

text \<open>After \<open>readRequestBody\<close>.\<close>

definition policy_request_of :: "request_info \<Rightarrow> buffered_body \<Rightarrow> policy_request" where
  "policy_request_of ri body =
     \<lparr>pr_method = req_method (ri_request ri), pr_url = req_url (ri_request ri), pr_headers = req_headers (ri_request ri),
      pr_body = bb_text body, pr_clientIp = ri_clientIp ri\<rparr>"

definition after_body :: "request_info \<Rightarrow> moment \<Rightarrow> gateway \<Rightarrow> stretch \<times> gateway" where
  "after_body ri mo g =
     (case read_request_body (ri_request ri) (gw_maxRequestBodyBytes g) of
        Inl e \<Rightarrow>
          (case e of
             GatewayRequestError status code \<Rightarrow>
               finish (complete ri mo (error_response (int status) code []) (failed GatewayDenied code None) g)
           | _ \<Rightarrow>
               finish (complete ri mo (error_response 400 (js ''request_body_unreadable'') [])
                 (failed GatewayError (js ''request_body_unreadable'') None) g))
      | Inr body \<Rightarrow> (Inr (Evaluating body (policy_request_of ri body)), g))"

text \<open>After the policy evaluator: refuse, or acquire the circuit and forward.\<close>

definition proxy_input_of :: "request_info \<Rightarrow> compiled_route \<Rightarrow> buffered_body \<Rightarrow> gateway \<Rightarrow> proxy_input" where
  "proxy_input_of ri route body g =
     \<lparr>px_request = ri_request ri, px_route = route, px_body = bb_bytes body, px_clientIp = ri_clientIp ri,
      px_requestId = Some (ri_requestId ri), px_timeoutMs = Some (num (gw_upstreamTimeoutMs g))\<rparr>"

definition after_decision ::
  "(ustr \<Rightarrow> ustr option) \<Rightarrow> request_info \<Rightarrow> moment \<Rightarrow> buffered_body \<Rightarrow> 'j policy_decision result \<Rightarrow> gateway
     \<Rightarrow> stretch \<times> gateway" where
  "after_decision origin_of ri mo body decision g =
     (case decision of
        Inl e \<Rightarrow>
          finish (complete ri mo (error_response 503 (js ''policy_evaluation_failed'') [])
            (failed GatewayError (js ''policy_evaluation_failed'') None) g)
      | Inr (Denied d) \<Rightarrow>
          finish (complete ri mo (denied_response d)
            (failed GatewayDenied (denial_text (dn_code d)) (map_option cr_id (dn_route d))) g)
      | Inr (Allowed a) \<Rightarrow>
          (case al_route a of
             None \<Rightarrow>
               finish (complete ri mo (error_response 404 (js ''route_not_found'') [])
                 (failed GatewayDenied (js ''route_not_found'') None) g)
           | Some route \<Rightarrow>
               (case acquire_permit origin_of (cr_upstream route) (mo_clock mo) (gw_breaker g) of
                  (Rejection retryAfterSeconds, bs) \<Rightarrow>
                    finish (complete ri mo
                      (error_response 503 (js ''upstream_circuit_open'') [(js ''retry-after'', dec_int retryAfterSeconds)])
                      (failed GatewayError (js ''upstream_circuit_open'') (Some (cr_id route)))
                      (measure_gateway record_upstream_circuit_rejection (with_breaker bs g)))
                | (Permit key probe, bs) \<Rightarrow>
                    (Inr (Forwarding route (length (bs_permits (gw_breaker g))) (proxy_input_of ri route body g)),
                     with_breaker bs g))))"

text \<open>The request that \<open>proxyToUpstream\<close> hands to the fetcher, before anything is awaited.\<close>

definition dispatched :: "url_parser \<Rightarrow> proxy_input \<Rightarrow> upstream_request option" where
  "dispatched parse_url i =
     (case proxy_to_upstream parse_url
             \<lparr>env_fetcher = \<lambda>up sent. (Inl UpstreamTimeoutError, Some up), env_timeout_aborted = \<lambda>_. False,
              env_request_aborted = \<lambda>_. False\<rparr> i None of (r, sent) \<Rightarrow> sent)"

text \<open>What the fetch gave, and which signals were aborted when it failed.\<close>

record fetch_outcome =
  fo_result :: "http_response result"
  fo_timeoutAborted :: bool
  fo_requestAborted :: bool

definition proxied :: "url_parser \<Rightarrow> proxy_input \<Rightarrow> fetch_outcome \<Rightarrow> http_response result" where
  "proxied parse_url i f =
     fst (proxy_to_upstream parse_url
       \<lparr>env_fetcher = \<lambda>up s. (fo_result f, s), env_timeout_aborted = \<lambda>_. fo_timeoutAborted f,
        env_request_aborted = \<lambda>_. fo_requestAborted f\<rparr> i ())"

text \<open>After \<open>proxyToUpstream\<close>: settle the permit and answer.\<close>

definition settle_permit :: "nat \<Rightarrow> permit_action \<Rightarrow> moment \<Rightarrow> gateway \<Rightarrow> gateway" where
  "settle_permit permit action mo g = with_breaker (finish_permit permit action (mo_clock mo) (gw_breaker g)) g"

definition after_fetch ::
  "url_parser \<Rightarrow> request_info \<Rightarrow> moment \<Rightarrow> compiled_route \<Rightarrow> nat \<Rightarrow> proxy_input \<Rightarrow> fetch_outcome \<Rightarrow> gateway
     \<Rightarrow> stretch \<times> gateway" where
  "after_fetch parse_url ri mo route permit i f g =
     (case proxied parse_url i f of
        Inr response \<Rightarrow>
          finish (complete ri mo response
            \<lparr>co_outcome = GatewayAllowed, co_reason = None, co_routeId = Some (cr_id route),
             co_upstreamStatus = Some (num (res_status response))\<rparr>
            (settle_permit permit (if res_status response \<ge> 500 then RecordFailure else RecordSuccess) mo g))
      | Inl e \<Rightarrow>
          if fo_requestAborted f then (Inl (Inl e), settle_permit permit Abandon mo g)
          else if e = UpstreamTimeoutError then
            finish (complete ri mo (error_response 504 (js ''upstream_timeout'') [])
              (failed GatewayError (js ''upstream_timeout'') (Some (cr_id route))) (settle_permit permit RecordFailure mo g))
          else
            finish (complete ri mo (error_response 502 (js ''upstream_unavailable'') [])
              (failed GatewayError (js ''upstream_unavailable'') (Some (cr_id route))) (settle_permit permit RecordFailure mo g)))"

section \<open>Requests in flight\<close>

text \<open>A request of the system; \<open>rq_ticket\<close> is its admission, \<open>rq_released\<close> the flag of \<open>releaseRequest\<close>.\<close>

record request_state =
  rq_info :: request_info
  rq_ticket :: "nat option"
  rq_released :: bool
  rq_phase :: request_phase

definition release_request :: "request_state \<Rightarrow> gateway \<Rightarrow> request_state \<times> gateway" where
  "release_request rq g =
     (case rq_ticket rq of
        None \<Rightarrow> (rq, g)
      | Some ticket \<Rightarrow>
          if rq_released rq then (rq, g)
          else (rq\<lparr>rq_released := True\<rparr>,
                measure_gateway record_gateway_request_finished (g\<lparr>gw_gate := gate_release ticket (gw_gate g)\<rparr>)))"

text \<open>
  The end of \<open>handle\<close>: an exception releases the request and is thrown on; a response without a body
  releases it at once; one with a body is wrapped, to be released when the body ends, fails or is
  cancelled.
\<close>

definition release_and_settle :: "http_response result \<Rightarrow> request_state \<Rightarrow> gateway \<Rightarrow> request_state \<times> gateway" where
  "release_and_settle r rq g = (case release_request rq g of (rq', g') \<Rightarrow> (rq'\<lparr>rq_phase := Settled r\<rparr>, g'))"

definition release_when_consumed :: "http_response \<Rightarrow> request_state \<Rightarrow> gateway \<Rightarrow> request_state \<times> gateway" where
  "release_when_consumed response rq g =
     (if res_body response = None then release_and_settle (Inr response) rq g
      else (case new_response (res_body response) (res_status response) (res_statusText response) (res_headers response) of
              Inl e \<Rightarrow> release_and_settle (Inl e) rq g
            | Inr wrapped \<Rightarrow> (rq\<lparr>rq_phase := Responding wrapped\<rparr>, g)))"

definition conclude :: "stretch \<times> gateway \<Rightarrow> request_state \<Rightarrow> request_state \<times> gateway" where
  "conclude st rq =
     (case st of
        (Inl (Inl e), g) \<Rightarrow> release_and_settle (Inl e) rq g
      | (Inl (Inr response), g) \<Rightarrow> release_when_consumed response rq g
      | (Inr phase, g) \<Rightarrow> (rq\<lparr>rq_phase := phase\<rparr>, g))"

definition begin_drain :: "gateway \<Rightarrow> gateway" where
  "begin_drain g =
     (case gate_begin_drain (gw_gate g) of (began, gate) \<Rightarrow>
        if began then measure_gateway record_gateway_drain_started (g\<lparr>gw_gate := gate\<rparr>) else g\<lparr>gw_gate := gate\<rparr>)"

definition wait_for_idle :: "nat \<Rightarrow> gateway \<Rightarrow> gateway" where
  "wait_for_idle w g = g\<lparr>gw_gate := gate_wait w (gw_gate g)\<rparr>"

text \<open>The gateway with its requests, and, for each request handed to the fetcher, what was evaluated.\<close>

record gateway_system =
  gs_gateway :: gateway
  gs_requests :: "request_state list"
  gs_sent :: "(policy_request \<times> compiled_route \<times> upstream_request) list"

definition put_request :: "nat \<Rightarrow> request_state \<times> gateway \<Rightarrow> gateway_system \<Rightarrow> gateway_system" where
  "put_request i rg s = s\<lparr>gs_requests := (gs_requests s)[i := fst rg], gs_gateway := snd rg\<rparr>"

text \<open>
  One step. \<open>decides\<close> says which answers the policy evaluator gives to a request; clocks, bodies
  and fetches are whatever they are.
\<close>

inductive gateway_step ::
  "(policy_request \<Rightarrow> 'j policy_decision result \<Rightarrow> bool) \<Rightarrow> url_parser \<Rightarrow> (ustr \<Rightarrow> ustr option)
     \<Rightarrow> gateway_system \<Rightarrow> gateway_system \<Rightarrow> bool"
  for decides parse_url origin_of where
  refused: "arrive ri mo (gs_gateway s) = (Inl response, g) \<Longrightarrow>
     gateway_step decides parse_url origin_of s
       (s\<lparr>gs_gateway := g, gs_requests := gs_requests s @
          [\<lparr>rq_info = ri, rq_ticket = None, rq_released = True, rq_phase = Settled (Inr response)\<rparr>]\<rparr>)"
| admitted: "arrive ri mo (gs_gateway s) = (Inr ticket, g) \<Longrightarrow> own_failure_only ri \<Longrightarrow>
     gateway_step decides parse_url origin_of s
       (s\<lparr>gs_gateway := g, gs_requests := gs_requests s @
          [\<lparr>rq_info = ri, rq_ticket = Some ticket, rq_released = False, rq_phase = ReadingBody\<rparr>]\<rparr>)"
| body_read: "i < length (gs_requests s) \<Longrightarrow> gs_requests s ! i = rq \<Longrightarrow> rq_phase rq = ReadingBody \<Longrightarrow>
     gateway_step decides parse_url origin_of s
       (put_request i (conclude (after_body (rq_info rq) mo (gs_gateway s)) rq) s)"
| decided: "i < length (gs_requests s) \<Longrightarrow> gs_requests s ! i = rq \<Longrightarrow> rq_phase rq = Evaluating body pr \<Longrightarrow>
     decides pr decision \<Longrightarrow>
     after_decision origin_of (rq_info rq) mo body decision (gs_gateway s) = (st, g) \<Longrightarrow>
     gateway_step decides parse_url origin_of s
       (put_request i (conclude (st, g) rq)
          (s\<lparr>gs_sent := gs_sent s @
             (case st of
                Inr (Forwarding route permit px) \<Rightarrow>
                  (case dispatched parse_url px of None \<Rightarrow> [] | Some up \<Rightarrow> [(pr, route, up)])
              | _ \<Rightarrow> [])\<rparr>))"
| fetched: "i < length (gs_requests s) \<Longrightarrow> gs_requests s ! i = rq \<Longrightarrow> rq_phase rq = Forwarding route permit px \<Longrightarrow>
     gateway_step decides parse_url origin_of s
       (put_request i (conclude (after_fetch parse_url (rq_info rq) mo route permit px f (gs_gateway s)) rq) s)"
| consumed: "i < length (gs_requests s) \<Longrightarrow> gs_requests s ! i = rq \<Longrightarrow> rq_phase rq = Responding response \<Longrightarrow>
     gateway_step decides parse_url origin_of s
       (put_request i (release_and_settle (Inr response) rq (gs_gateway s)) s)"
| draining: "gateway_step decides parse_url origin_of s (s\<lparr>gs_gateway := begin_drain (gs_gateway s)\<rparr>)"
| waiting: "gateway_step decides parse_url origin_of s (s\<lparr>gs_gateway := wait_for_idle w (gs_gateway s)\<rparr>)"

inductive gateway_reachable ::
  "(policy_request \<Rightarrow> 'j policy_decision result \<Rightarrow> bool) \<Rightarrow> url_parser \<Rightarrow> (ustr \<Rightarrow> ustr option) \<Rightarrow> gateway
     \<Rightarrow> gateway_system \<Rightarrow> bool"
  for decides parse_url origin_of g where
  start: "gateway_reachable decides parse_url origin_of g \<lparr>gs_gateway = g, gs_requests = [], gs_sent = []\<rparr>"
| step: "gateway_reachable decides parse_url origin_of g s \<Longrightarrow> gateway_step decides parse_url origin_of s s' \<Longrightarrow>
     gateway_reachable decides parse_url origin_of g s'"

inductive_cases gateway_stepE: "gateway_step decides parse_url origin_of s s'"

section \<open>What an operation leaves of the gateway\<close>

text \<open>
  The gateway's own invariant: the gate and the breaker are in order, and the gauges of the metrics
  show them.
\<close>

definition gauges_show :: "gateway \<Rightarrow> metrics \<Rightarrow> bool" where
  "gauges_show g m \<longleftrightarrow> mt_activeGatewayRequests m = ag_active (gw_gate g)
     \<and> mt_gatewayAcceptingRequests m = (if ag_accepting (gw_gate g) then 1 else 0)
     \<and> mt_unavailableUpstreamCircuits m = unavailable_count (bs_breaker (gw_breaker g))"

definition gateway_ok :: "gateway \<Rightarrow> bool" where
  "gateway_ok g \<longleftrightarrow> gate_ok (gw_gate g) \<and> system_ok (gw_breaker g)
     \<and> (case gw_metrics g of None \<Rightarrow> True | Some m \<Rightarrow> gauges_show g m)"

text \<open>Two gateways with the same gate and breaker, and the same gauges.\<close>

definition same_gauges :: "metrics \<Rightarrow> metrics \<Rightarrow> bool" where
  "same_gauges m m' \<longleftrightarrow> mt_activeGatewayRequests m' = mt_activeGatewayRequests m
     \<and> mt_gatewayAcceptingRequests m' = mt_gatewayAcceptingRequests m
     \<and> mt_unavailableUpstreamCircuits m' = mt_unavailableUpstreamCircuits m"

definition only_reports :: "gateway \<Rightarrow> gateway \<Rightarrow> bool" where
  "only_reports g g' \<longleftrightarrow> gw_gate g' = gw_gate g \<and> gw_breaker g' = gw_breaker g
     \<and> gw_maxRequestBodyBytes g' = gw_maxRequestBodyBytes g \<and> gw_audited g' = gw_audited g
     \<and> rel_option same_gauges (gw_metrics g) (gw_metrics g')"

lemma only_reports_ok: "only_reports g g' \<Longrightarrow> gateway_ok g \<Longrightarrow> gateway_ok g'"
  by (auto simp: only_reports_def gateway_ok_def gauges_show_def same_gauges_def option_rel_Some1 split: option.splits)

lemma only_reports_refl: "only_reports g g"
  by (cases "gw_metrics g") (auto simp: only_reports_def same_gauges_def)

lemma only_reports_trans: "only_reports g g1 \<Longrightarrow> only_reports g1 g2 \<Longrightarrow> only_reports g g2"
  by (auto simp: only_reports_def same_gauges_def rel_option_iff split: option.splits)

lemma measure_reports:
  assumes "\<And>m. same_gauges m (report m)"
  shows "only_reports g (measure_gateway report g)"
  using assms by (cases "gw_metrics g") (simp_all add: only_reports_def measure_gateway_def)

lemma same_gauges_reports:
  "same_gauges m (record_gateway_request r m)" "same_gauges m (record_gateway_overload m)"
  "same_gauges m (record_gateway_drain_rejection m)" "same_gauges m (record_upstream_circuit_rejection m)"
  by (simp_all add: same_gauges_def record_gateway_request_def record_gateway_overload_def
      record_gateway_drain_rejection_def record_upstream_circuit_rejection_def Let_def split: option.split)

lemma complete_reports: "only_reports g (snd (complete ri mo response completion g))"
proof -
  have "only_reports g (if gw_audited g then g\<lparr>gw_audit := a\<rparr> else g)" for a
    by (cases "gw_metrics g") (auto simp: only_reports_def same_gauges_def)
  then show ?thesis unfolding complete_def Let_def snd_conv
    by (rule only_reports_trans) (rule measure_reports, rule same_gauges_reports)
qed

text \<open>The breaker's operations, observed.\<close>

lemma with_breaker_ok:
  assumes "gateway_ok g" "breaker_moves key (bs_breaker (gw_breaker g)) (bs_breaker bs)" "system_ok bs"
  shows "gateway_ok (with_breaker bs g)"
  using assms gauge_moves [OF assms(2)] observe_other
  by (auto simp: gateway_ok_def with_breaker_def measure_gateway_def gauges_show_def split: option.split)

lemma with_breaker_keeps [simp]:
  "gw_gate (with_breaker bs g) = gw_gate g" "gw_breaker (with_breaker bs g) = bs"
  "gw_maxRequestBodyBytes (with_breaker bs g) = gw_maxRequestBodyBytes g" "gw_audited (with_breaker bs g) = gw_audited g"
  by (simp_all add: with_breaker_def measure_gateway_def)

lemma acquire_permit_moves:
  assumes "system_ok s" "acquire_permit origin_of upstream now s = (a, s')"
  shows "\<exists>key. breaker_moves key (bs_breaker s) (bs_breaker s')"
  using assms acquire_moves [of "bs_breaker s" "upstream_origin origin_of upstream" now]
  by (auto simp: acquire_permit_def system_ok_def split: prod.splits acquisition.splits)

lemma finish_permit_moves:
  assumes "system_ok s"
  shows "\<exists>key. breaker_moves key (bs_breaker s) (bs_breaker (finish_permit i action now s))"
  using assms perform_moves breaker_moves_refl by (fastforce simp: finish_permit_def system_ok_def Let_def)

lemma settle_permit_ok: "gateway_ok g \<Longrightarrow> gateway_ok (settle_permit permit action mo g)"
  unfolding settle_permit_def using finish_permit_moves with_breaker_ok finish_permit_ok
  by (meson gateway_ok_def)

section \<open>Tickets and permits\<close>

fun in_progress :: "request_phase \<Rightarrow> bool" where
  "in_progress (Settled r) = False"
| "in_progress phase = True"

fun held_permit :: "request_phase \<Rightarrow> nat option" where
  "held_permit (Forwarding route permit px) = Some permit"
| "held_permit phase = None"

definition live_ticket :: "request_state \<Rightarrow> nat option" where
  "live_ticket rq = (if rq_released rq then None else rq_ticket rq)"

text \<open>A request is in progress exactly while it holds an admission it has not released.\<close>

definition request_ok :: "request_state \<Rightarrow> bool" where
  "request_ok rq \<longleftrightarrow> (in_progress (rq_phase rq) \<longleftrightarrow> live_ticket rq \<noteq> None)"

text \<open>Every admission not released and every permit not completed is owned by one request.\<close>

definition requests_ok :: "request_state list \<Rightarrow> gateway \<Rightarrow> bool" where
  "requests_ok rqs g \<longleftrightarrow> list_all request_ok rqs
     \<and> owned (map live_ticket rqs) (ag_released (gw_gate g))
     \<and> owned (map (held_permit \<circ> rq_phase) rqs) (map pm_completed (bs_permits (gw_breaker g)))"

lemma progress_count:
  assumes "requests_ok rqs g"
  shows "length (filter Not (ag_released (gw_gate g))) = length (filter (\<lambda>rq. in_progress (rq_phase rq)) rqs)"
proof -
  have "length (filter (\<lambda>h. h \<noteq> None) (map live_ticket rqs)) = length (filter (\<lambda>rq. in_progress (rq_phase rq)) rqs)"
    using assms by (auto simp: requests_ok_def request_ok_def list_all_iff filter_map comp_def
        intro!: arg_cong [of _ _ length] filter_cong)
  moreover have "owned (map live_ticket rqs) (ag_released (gw_gate g))" using assms by (simp add: requests_ok_def)
  ultimately show ?thesis using owned_count by simp
qed

text \<open>The request \<open>i\<close> goes on under its admission; or it ends and its admission is released.\<close>

lemma requests_go_on:
  assumes "requests_ok rqs g" "i < length rqs" "in_progress (rq_phase (rqs ! i))" "in_progress (rq_phase rq)"
    and "rq_ticket rq = rq_ticket (rqs ! i)" "rq_released rq = rq_released (rqs ! i)" "gw_gate g' = gw_gate g"
    and "owned (map (held_permit \<circ> rq_phase) (rqs[i := rq])) (map pm_completed (bs_permits (gw_breaker g')))"
  shows "requests_ok (rqs[i := rq]) g'"
proof -
  have l: "live_ticket rq = live_ticket (rqs ! i)" using assms(5,6) by (simp add: live_ticket_def)
  have "map live_ticket (rqs[i := rq]) = map live_ticket rqs"
    using assms(2) l by (simp add: map_update list_update_same_conv)
  moreover have "request_ok rq" using assms(1-4) l by (auto simp: requests_ok_def request_ok_def list_all_length)
  then have "list_all request_ok (rqs[i := rq])"
    using assms(1) set_update_subset_insert [of rqs i rq] by (auto simp: requests_ok_def list_all_iff)
  ultimately show ?thesis using assms(1,7,8) by (simp add: requests_ok_def)
qed

lemma requests_end:
  assumes "requests_ok rqs g" "i < length rqs" "live_ticket (rqs ! i) = Some t"
    and "rq_released rq" "\<not> in_progress (rq_phase rq)" "gw_gate g' = gate_release t (gw_gate g)"
    and "owned (map (held_permit \<circ> rq_phase) (rqs[i := rq])) (map pm_completed (bs_permits (gw_breaker g')))"
  shows "requests_ok (rqs[i := rq]) g'"
proof -
  have "owned (map live_ticket (rqs[i := rq])) (ag_released (gw_gate g'))"
    using owned_give [of "map live_ticket rqs" "ag_released (gw_gate g)" i t] assms
    by (simp add: map_update requests_ok_def live_ticket_def release_flags)
  with assms show ?thesis by (auto simp: requests_ok_def request_ok_def live_ticket_def list_all_length nth_list_update)
qed

section \<open>What a stretch does\<close>

text \<open>A stretch that ends or goes on leaves the gate, and settles or takes the permits of its request.\<close>

lemma gateway_ok_release:
  assumes "gateway_ok g" "t < length (ag_released (gw_gate g))" "\<not> ag_released (gw_gate g) ! t"
  shows "gateway_ok (measure_gateway record_gateway_request_finished (g\<lparr>gw_gate := gate_release t (gw_gate g)\<rparr>))"
proof -
  have "ag_active (gw_gate g) \<ge> 1"
  proof -
    have "False \<in> set (ag_released (gw_gate g))" using assms(2,3) by (auto simp: in_set_conv_nth)
    then have "filter Not (ag_released (gw_gate g)) \<noteq> []" by (auto simp: filter_empty_conv)
    with assms(1) show ?thesis
      by (cases "filter Not (ag_released (gw_gate g))") (auto simp: gateway_ok_def gate_ok_def)
  qed
  with assms release_active [OF assms(2,3)] release_ok show ?thesis
    by (auto simp: gateway_ok_def measure_gateway_def gauges_show_def record_gateway_request_finished_def
        split: option.split)
qed

text \<open>\<open>release_and_settle\<close> ends a request in progress.\<close>

lemma settle_ok:
  assumes "requests_ok rqs g" "gateway_ok g1" "i < length rqs" "in_progress (rq_phase (rqs ! i))" "gw_gate g1 = gw_gate g"
    and "owned ((map (held_permit \<circ> rq_phase) rqs)[i := None]) (map pm_completed (bs_permits (gw_breaker g1)))"
    and "release_and_settle r (rqs ! i) g1 = (rq', g')"
  shows "requests_ok (rqs[i := rq']) g' \<and> gateway_ok g'"
proof -
  have "live_ticket (rqs ! i) \<noteq> None"
    using assms(1,3,4) by (auto simp: requests_ok_def request_ok_def list_all_length)
  then obtain t where t: "live_ticket (rqs ! i) = Some t" by blast
  then have rel: "rq_ticket (rqs ! i) = Some t" "\<not> rq_released (rqs ! i)"
    by (auto simp: live_ticket_def split: if_splits)
  have "owned (map live_ticket rqs) (ag_released (gw_gate g))" using assms(1) by (simp add: requests_ok_def)
  from owned_member [OF this, of i t] assms(3) t
  have u: "t < length (ag_released (gw_gate g1))" "\<not> ag_released (gw_gate g1) ! t" by (simp_all add: assms(5))
  from assms(7) rel have rq': "rq' = (rqs ! i)\<lparr>rq_released := True, rq_phase := Settled r\<rparr>"
    and g': "g' = measure_gateway record_gateway_request_finished (g1\<lparr>gw_gate := gate_release t (gw_gate g1)\<rparr>)"
    by (simp_all add: release_and_settle_def release_request_def)
  have "requests_ok (rqs[i := rq']) g'"
    by (rule requests_end [OF assms(1,3) t])
      (use assms(3,5,6) in \<open>simp_all add: rq' g' measure_gateway_def map_update\<close>)
  with gateway_ok_release [OF assms(2) u] show ?thesis by (simp add: g')
qed

text \<open>\<open>conclude\<close> after a stretch.\<close>

lemma conclude_ok:
  assumes "requests_ok rqs g" "gateway_ok g1" "i < length rqs" "in_progress (rq_phase (rqs ! i))" "gw_gate g1 = gw_gate g"
    and "owned ((map (held_permit \<circ> rq_phase) rqs)[i := (case st of Inl r \<Rightarrow> None | Inr phase \<Rightarrow> held_permit phase)])
           (map pm_completed (bs_permits (gw_breaker g1)))"
    and "case st of Inl r \<Rightarrow> True | Inr phase \<Rightarrow> in_progress phase"
    and "conclude (st, g1) (rqs ! i) = (rq', g')"
  shows "requests_ok (rqs[i := rq']) g' \<and> gateway_ok g'"
proof (cases st)
  case (Inr phase)
  with assms(8) have e: "rq' = (rqs ! i)\<lparr>rq_phase := phase\<rparr>" "g' = g1" by (simp_all add: conclude_def)
  have "requests_ok (rqs[i := rq']) g'"
    by (rule requests_go_on [OF assms(1,3,4)])
      (use assms(3,5,6,7) Inr in \<open>simp_all add: e map_update\<close>)
  with assms(2) e show ?thesis by simp
next
  case (Inl r)
  note settle = settle_ok [OF assms(1-5)]
  have h: "owned ((map (held_permit \<circ> rq_phase) rqs)[i := None]) (map pm_completed (bs_permits (gw_breaker g1)))"
    using assms(6) Inl by simp
  show ?thesis
  proof (cases "\<exists>r'. release_and_settle r' (rqs ! i) g1 = (rq', g')")
    case True
    then show ?thesis using settle [OF h] by blast
  next
    case False
    with assms(8) Inl obtain wrapped where "rq' = (rqs ! i)\<lparr>rq_phase := Responding wrapped\<rparr>" "g' = g1"
      by (auto simp: conclude_def release_when_consumed_def split: sum.splits if_splits)
    note e = this
    have "requests_ok (rqs[i := rq']) g'"
      by (rule requests_go_on [OF assms(1,3,4)]) (use assms(3,5) h in \<open>simp_all add: e map_update\<close>)
    with assms(2) e show ?thesis by simp
  qed
qed

lemma after_body_effect:
  assumes "after_body ri mo g = (st, g1)"
  shows "only_reports g g1 \<and> (case st of
       Inl r \<Rightarrow> \<exists>response. r = Inr response
     | Inr phase \<Rightarrow> \<exists>body. read_request_body (ri_request ri) (gw_maxRequestBodyBytes g) = Inr body
          \<and> phase = Evaluating body (policy_request_of ri body))"
proof -
  have r: "only_reports g (snd (complete ri mo response completion g))" for response completion
    by (rule complete_reports)
  from assms show ?thesis unfolding after_body_def finish_def
    by (auto simp: r only_reports_refl split: sum.splits js_error.splits)
qed

lemma acquire_permits:
  "acquire_permit origin_of upstream now s = (a, s') \<Longrightarrow>
     map pm_completed (bs_permits s') = map pm_completed (bs_permits s) @ (case a of Permit k p \<Rightarrow> [False] | Rejection n \<Rightarrow> [])"
  by (auto simp: acquire_permit_def split: prod.splits acquisition.splits)

lemma with_breaker_acquired:
  assumes "gateway_ok g" "acquire_permit origin_of upstream now (gw_breaker g) = (a, bs)"
  shows "gateway_ok (with_breaker bs g)"
proof -
  have "system_ok (gw_breaker g)" using assms(1) by (simp add: gateway_ok_def)
  from acquire_permit_moves [OF this assms(2)] acquire_permit_ok [OF this assms(2)] with_breaker_ok [OF assms(1)]
  show ?thesis by blast
qed

lemma after_decision_effect:
  assumes "after_decision origin_of ri mo body decision g = (st, g1)" "gateway_ok g"
  shows "gateway_ok g1 \<and> gw_gate g1 = gw_gate g \<and> gw_maxRequestBodyBytes g1 = gw_maxRequestBodyBytes g
     \<and> gw_audited g1 = gw_audited g \<and> (case st of
       Inl r \<Rightarrow> (\<exists>response. r = Inr response)
         \<and> map pm_completed (bs_permits (gw_breaker g1)) = map pm_completed (bs_permits (gw_breaker g))
     | Inr phase \<Rightarrow> \<exists>a route. decision = Inr (Allowed a) \<and> al_route a = Some route
         \<and> phase = Forwarding route (length (bs_permits (gw_breaker g))) (proxy_input_of ri route body g)
         \<and> map pm_completed (bs_permits (gw_breaker g1)) = map pm_completed (bs_permits (gw_breaker g)) @ [False])"
proof -
  have *: ?thesis if "only_reports g' g1" "gateway_ok g'" "gw_gate g' = gw_gate g"
    "gw_maxRequestBodyBytes g' = gw_maxRequestBodyBytes g" "gw_audited g' = gw_audited g" "st = Inl (Inr response)"
    "map pm_completed (bs_permits (gw_breaker g')) = map pm_completed (bs_permits (gw_breaker g))" for g' response
    using that only_reports_ok [OF that(1,2)] by (simp add: only_reports_def)
  have fin: ?thesis if "finish (complete ri mo response completion g) = (st, g1)" for response completion
    using that * [of g] complete_reports [of g ri mo response completion] assms(2) by (auto simp: finish_def)
  show ?thesis
  proof (cases "\<exists>a route. decision = Inr (Allowed a) \<and> al_route a = Some route")
    case False
    have "\<exists>response completion. finish (complete ri mo response completion g) = (st, g1)"
    proof (cases decision)
      case (Inr d)
      with assms(1) False show ?thesis
        unfolding after_decision_def by (cases d) (auto split: option.splits)
    qed (use assms(1) in \<open>auto simp: after_decision_def\<close>)
    then show ?thesis using fin by blast
  next
    case True
    then obtain a route where a: "decision = Inr (Allowed a)" "al_route a = Some route" by blast
    obtain q bs where acq: "acquire_permit origin_of (cr_upstream route) (mo_clock mo) (gw_breaker g) = (q, bs)" by force
    note ok = with_breaker_acquired [OF assms(2) acq] and ps = acquire_permits [OF acq]
    show ?thesis
    proof (cases q)
      case (Permit key probe)
      with assms(1) a acq ok ps show ?thesis by (auto simp: after_decision_def)
    next
      case (Rejection n)
      define g2 where "g2 = measure_gateway record_upstream_circuit_rejection (with_breaker bs g)"
      have r: "only_reports (with_breaker bs g) g2" unfolding g2_def
        by (rule measure_reports) (rule same_gauges_reports)
      from assms(1) a acq Rejection obtain response completion where
        "finish (complete ri mo response completion g2) = (st, g1)"
        by (simp add: after_decision_def g2_def)
      then have "only_reports (with_breaker bs g) g1 \<and> (\<exists>response. st = Inl (Inr response))"
        using only_reports_trans [OF r complete_reports] by (auto simp: finish_def)
      with * [of "with_breaker bs g"] ok ps Rejection show ?thesis by auto
    qed
  qed
qed

lemma settle_permit_effect:
  "gw_gate (settle_permit permit action mo g) = gw_gate g"
  "gw_maxRequestBodyBytes (settle_permit permit action mo g) = gw_maxRequestBodyBytes g"
  "gw_audited (settle_permit permit action mo g) = gw_audited g"
  "map pm_completed (bs_permits (gw_breaker (settle_permit permit action mo g)))
     = (map pm_completed (bs_permits (gw_breaker g)))[permit := True]"
proof -
  define ps where "ps = bs_permits (gw_breaker g)"
  show "map pm_completed (bs_permits (gw_breaker (settle_permit permit action mo g)))
      = (map pm_completed (bs_permits (gw_breaker g)))[permit := True]"
  proof (cases "permit < length ps \<and> \<not> pm_completed (ps ! permit)")
    case True
    then show ?thesis by (simp add: settle_permit_def finish_permit_def Let_def map_update ps_def)
  next
    case False
    then have "map pm_completed ps = (map pm_completed ps)[permit := True]"
      using list_update_id [of "map pm_completed ps" permit]
      by (cases "permit < length ps") (auto simp: list_update_beyond)
    moreover have "finish_permit permit action (mo_clock mo) (gw_breaker g) = gw_breaker g"
      unfolding finish_permit_def by (rule if_not_P) (use False in \<open>simp add: ps_def\<close>)
    ultimately show ?thesis by (simp add: settle_permit_def ps_def)
  qed
qed (simp_all add: settle_permit_def)

lemma after_fetch_effect:
  assumes "after_fetch parse_url ri mo route permit px f g = (st, g1)" "gateway_ok g"
  shows "gateway_ok g1 \<and> gw_gate g1 = gw_gate g \<and> gw_maxRequestBodyBytes g1 = gw_maxRequestBodyBytes g
     \<and> gw_audited g1 = gw_audited g
     \<and> (\<exists>r. st = Inl r) \<and> map pm_completed (bs_permits (gw_breaker g1)) = (map pm_completed (bs_permits (gw_breaker g)))[permit := True]"
proof -
  have "\<exists>action. only_reports (settle_permit permit action mo g) g1 \<and> (\<exists>r. st = Inl r)"
  proof -
    from assms(1) show ?thesis unfolding after_fetch_def finish_def
      using complete_reports only_reports_refl by (fastforce split: sum.splits if_splits)
  qed
  then obtain action where a: "only_reports (settle_permit permit action mo g) g1" "\<exists>r. st = Inl r" by blast
  with only_reports_ok [OF a(1) settle_permit_ok [OF assms(2)]] show ?thesis
    by (simp add: only_reports_def settle_permit_effect)
qed

section \<open>Nothing leaks\<close>

text \<open>The invariant of the system: the gateway is in order, and owners and tokens agree.\<close>

definition no_leaks :: "gateway_system \<Rightarrow> bool" where
  "no_leaks s \<longleftrightarrow> gateway_ok (gs_gateway s) \<and> requests_ok (gs_requests s) (gs_gateway s)"

lemma permits_of:
  "requests_ok rqs g \<Longrightarrow> owned (map (held_permit \<circ> rq_phase) rqs) (map pm_completed (bs_permits (gw_breaker g)))"
  by (simp add: requests_ok_def)

lemma no_leaks_put:
  assumes "no_leaks s" "gateway_ok g1" "i < length (gs_requests s)" "in_progress (rq_phase (gs_requests s ! i))"
    and "gw_gate g1 = gw_gate (gs_gateway s)"
    and "owned ((map (held_permit \<circ> rq_phase) (gs_requests s))[i := (case st of Inl r \<Rightarrow> None | Inr phase \<Rightarrow> held_permit phase)])
           (map pm_completed (bs_permits (gw_breaker g1)))"
    and "case st of Inl r \<Rightarrow> True | Inr phase \<Rightarrow> in_progress phase"
  shows "no_leaks (put_request i (conclude (st, g1) (gs_requests s ! i)) (s\<lparr>gs_sent := sent\<rparr>))"
  using assms conclude_ok [OF _ assms(2-7), of "fst (conclude (st, g1) (gs_requests s ! i))" "snd (conclude (st, g1) (gs_requests s ! i))"]
  by (simp add: no_leaks_def put_request_def)

lemma accepted_ticket:
  "try_acquire g = (Accepted t, g') \<Longrightarrow> t = length (ag_released g) \<and> ag_released g' = ag_released g @ [False]"
  by (auto simp: try_acquire_def split: if_splits)

lemma arrive_cases:
  assumes "arrive ri mo g = (out, g')" "gateway_ok g"
  shows "gateway_ok g' \<and> gw_breaker g' = gw_breaker g \<and> gw_maxRequestBodyBytes g' = gw_maxRequestBodyBytes g
     \<and> gw_audited g' = gw_audited g
     \<and> (case out of Inl response \<Rightarrow> gw_gate g' = gw_gate g | Inr t \<Rightarrow> try_acquire (gw_gate g) = (Accepted t, gw_gate g'))"
proof -
  obtain a gate where acq: "try_acquire (gw_gate g) = (a, gate)" by force
  have ok: "gate_ok gate" using acquire_ok [OF _ acq] assms(2) by (simp add: gateway_ok_def)
  have id: "g\<lparr>gw_gate := gw_gate g\<rparr> = g" by simp
  have *: ?thesis if "gate = gw_gate g" "(case complete ri mo response completion (measure_gateway report g) of (response, g') \<Rightarrow> (Inl response, g')) = (out, g')"
      "\<And>m. same_gauges m (report m)" for response completion report
  proof -
    have "only_reports g g'" using only_reports_trans [OF measure_reports [OF that(3)] complete_reports] that(2)
      by (auto split: prod.splits simp: prod_eq_iff)
    with that(2) only_reports_ok assms(2) show ?thesis by (auto simp: only_reports_def split: prod.splits)
  qed
  show ?thesis
  proof (cases a)
    case (Accepted t)
    with acq have gate: "ag_active gate = ag_active (gw_gate g) + 1" "ag_accepting gate = ag_accepting (gw_gate g)"
      by (auto simp: try_acquire_def split: if_splits)
    with assms ok Accepted acq show ?thesis
      by (auto simp: arrive_def gateway_ok_def measure_gateway_def gauges_show_def record_gateway_request_started_def
          split: option.split)
  next
    case Overloaded
    with acq have "gate = gw_gate g" by (auto simp: try_acquire_def split: if_splits)
    note gate = this
    obtain response completion where "(case complete ri mo response completion
        (measure_gateway record_gateway_overload g) of (response, g') \<Rightarrow> (Inl response, g')) = (out, g')"
      using assms(1) acq Overloaded gate by (simp add: arrive_def)
    from * [OF gate this] same_gauges_reports show ?thesis by simp
  next
    case Draining
    with acq have "gate = gw_gate g" by (auto simp: try_acquire_def split: if_splits)
    note gate = this
    obtain response completion where "(case complete ri mo response completion
        (measure_gateway record_gateway_drain_rejection g) of (response, g') \<Rightarrow> (Inl response, g')) = (out, g')"
      using assms(1) acq Draining gate by (simp add: arrive_def)
    from * [OF gate this] same_gauges_reports show ?thesis by simp
  qed
qed

lemma begin_drain_ok: "gateway_ok g \<Longrightarrow> gateway_ok (begin_drain g)"
  using drain_ok [of "gw_gate g" "fst (gate_begin_drain (gw_gate g))" "snd (gate_begin_drain (gw_gate g))"]
  by (auto simp: begin_drain_def gateway_ok_def gate_begin_drain_def measure_gateway_def gauges_show_def
      record_gateway_drain_started_def split: option.split)

lemma wait_for_idle_ok: "gateway_ok g \<Longrightarrow> gateway_ok (wait_for_idle w g)"
  using wait_ok [of "gw_gate g" w]
  by (auto simp: wait_for_idle_def gateway_ok_def gate_wait_def gauges_show_def split: option.split)

lemma drain_keeps [simp]:
  "ag_released (gw_gate (begin_drain g)) = ag_released (gw_gate g)" "gw_breaker (begin_drain g) = gw_breaker g"
  "gw_maxRequestBodyBytes (begin_drain g) = gw_maxRequestBodyBytes g" "gw_audited (begin_drain g) = gw_audited g"
  "ag_released (gw_gate (wait_for_idle w g)) = ag_released (gw_gate g)" "gw_breaker (wait_for_idle w g) = gw_breaker g"
  "gw_maxRequestBodyBytes (wait_for_idle w g) = gw_maxRequestBodyBytes g"
  by (auto simp: begin_drain_def gate_begin_drain_def measure_gateway_def wait_for_idle_def gate_wait_def)

lemma step_no_leaks:
  assumes "gateway_step decides parse_url origin_of s s'" "no_leaks s"
  shows "no_leaks s'"
  using assms(1)
proof (cases rule: gateway_step.cases)
  case (refused ri mo response g)
  with arrive_cases [OF refused(2)] assms(2) show ?thesis
    by (auto simp: no_leaks_def requests_ok_def request_ok_def live_ticket_def owned_idle)
next
  case (admitted ri mo ticket g)
  have t: "ticket = length (ag_released (gw_gate (gs_gateway s)))" "ag_released (gw_gate g) = ag_released (gw_gate (gs_gateway s)) @ [False]"
    "gateway_ok g" "gw_breaker g = gw_breaker (gs_gateway s)"
    using arrive_cases [OF admitted(2)] assms(2) accepted_ticket by (auto simp: no_leaks_def)
  with admitted(1) assms(2) show ?thesis
    by (simp add: no_leaks_def requests_ok_def request_ok_def live_ticket_def owned_idle owned_new)
next
  case (body_read i rq mo)
  obtain st g1 where b: "after_body (rq_info rq) mo (gs_gateway s) = (st, g1)" by force
  note e = after_body_effect [OF b]
  have "no_leaks (put_request i (conclude (st, g1) (gs_requests s ! i)) (s\<lparr>gs_sent := gs_sent s\<rparr>))"
  proof (rule no_leaks_put [OF assms(2) _ body_read(2)])
    have h: "(case st of Inl r \<Rightarrow> None | Inr phase \<Rightarrow> held_permit phase) = None"
      using e by (auto split: sum.splits)
    from permits_of assms(2) have "owned (map (held_permit \<circ> rq_phase) (gs_requests s)) (map pm_completed (bs_permits (gw_breaker g1)))"
      using e by (simp add: no_leaks_def only_reports_def)
    moreover have "(map (held_permit \<circ> rq_phase) (gs_requests s))[i := None] = map (held_permit \<circ> rq_phase) (gs_requests s)"
      using body_read by (simp add: list_update_same_conv)
    ultimately show "owned ((map (held_permit \<circ> rq_phase) (gs_requests s))[i := (case st of Inl r \<Rightarrow> None | Inr phase \<Rightarrow> held_permit phase)])
           (map pm_completed (bs_permits (gw_breaker g1)))" by (simp add: h)
    show "gateway_ok g1" using e only_reports_ok assms(2) by (auto simp: no_leaks_def)
    show "gw_gate g1 = gw_gate (gs_gateway s)" using e by (simp add: only_reports_def)
    show "in_progress (rq_phase (gs_requests s ! i))" using body_read by simp
    show "case st of Inl r \<Rightarrow> True | Inr phase \<Rightarrow> in_progress phase" using e by (auto split: sum.splits)
  qed
  with body_read b show ?thesis by simp
next
  case (decided i rq body pr decision mo st g)
  have ok: "gateway_ok (gs_gateway s)" using assms(2) by (simp add: no_leaks_def)
  note e = after_decision_effect [OF decided(6) ok]
  have own: "owned (map (held_permit \<circ> rq_phase) (gs_requests s)) (map pm_completed (bs_permits (gw_breaker (gs_gateway s))))"
    using permits_of assms(2) by (simp add: no_leaks_def)
  have idle: "(map (held_permit \<circ> rq_phase) (gs_requests s))[i := None] = map (held_permit \<circ> rq_phase) (gs_requests s)"
    using decided by (simp add: list_update_same_conv)
  show ?thesis unfolding decided(1)
  proof (subst decided(3) [symmetric], rule no_leaks_put [OF assms(2) _ decided(2)])
    show "owned ((map (held_permit \<circ> rq_phase) (gs_requests s))[i := (case st of Inl r \<Rightarrow> None | Inr phase \<Rightarrow> held_permit phase)])
           (map pm_completed (bs_permits (gw_breaker g)))"
      using e own idle owned_take [OF own, of i] decided(2-4) by (auto split: sum.splits)
    show "case st of Inl r \<Rightarrow> True | Inr phase \<Rightarrow> in_progress phase" using e by (auto split: sum.splits)
  qed (use e decided in simp_all)
next
  case (fetched i rq route permit px mo f)
  have ok: "gateway_ok (gs_gateway s)" using assms(2) by (simp add: no_leaks_def)
  obtain st g1 where b: "after_fetch parse_url (rq_info rq) mo route permit px f (gs_gateway s) = (st, g1)" by force
  note e = after_fetch_effect [OF b ok]
  have own: "owned (map (held_permit \<circ> rq_phase) (gs_requests s)) (map pm_completed (bs_permits (gw_breaker (gs_gateway s))))"
    using permits_of assms(2) by (simp add: no_leaks_def)
  have "no_leaks (put_request i (conclude (st, g1) (gs_requests s ! i)) (s\<lparr>gs_sent := gs_sent s\<rparr>))"
    by (rule no_leaks_put [OF assms(2) _ fetched(2)])
      (use e owned_give [OF own, of i permit] fetched in \<open>auto split: sum.splits\<close>)
  with fetched b show ?thesis by simp
next
  case (consumed i rq response)
  obtain rq' g' where r: "release_and_settle (Inr response) (gs_requests s ! i) (gs_gateway s) = (rq', g')" by force
  have "(map (held_permit \<circ> rq_phase) (gs_requests s))[i := None] = map (held_permit \<circ> rq_phase) (gs_requests s)"
    using consumed by (simp add: list_update_same_conv)
  with settle_ok [OF _ _ consumed(2) _ refl _ r] assms(2) consumed r permits_of show ?thesis
    by (auto simp: no_leaks_def put_request_def)
next
  case draining
  with assms(2) begin_drain_ok show ?thesis by (simp add: no_leaks_def requests_ok_def)
next
  case (waiting w)
  with assms(2) wait_for_idle_ok show ?thesis by (simp add: no_leaks_def requests_ok_def)
qed

lemma reachable_no_leaks:
  assumes "gateway_reachable decides parse_url origin_of g s" "gateway_ok g" "requests_ok [] g"
  shows "no_leaks s"
  using assms(1)
proof (induction rule: gateway_reachable.induct)
  case start
  with assms(2,3) show ?case by (simp add: no_leaks_def)
next
  case (step s s')
  then show ?case using step_no_leaks by blast
qed

text \<open>The settings of a gateway never change.\<close>

definition limits :: "gateway \<Rightarrow> int \<times> int \<times> bool" where
  "limits g = (gw_maxRequestBodyBytes g, ag_maximum (gw_gate g), gw_audited g)"

lemma conclude_limits: "conclude (st, g1) rq = (rq', g') \<Longrightarrow> limits g' = limits g1"
  by (auto simp: conclude_def release_and_settle_def release_when_consumed_def release_request_def
      measure_gateway_def limits_def split: sum.splits if_splits option.splits)

lemma conclude_limits' [simp]: "limits (snd (conclude (st, g1) rq)) = limits g1"
  using conclude_limits by (metis surjective_pairing)

lemma step_limits:
  assumes "gateway_step decides parse_url origin_of s s'" "no_leaks s"
  shows "limits (gs_gateway s') = limits (gs_gateway s)"
proof -
  have ok: "gateway_ok (gs_gateway s)" using assms(2) by (simp add: no_leaks_def)
  have acq: "try_acquire g = (a, g') \<Longrightarrow> ag_maximum g' = ag_maximum g" for g a g'
    by (auto simp: try_acquire_def split: if_splits)
  from assms(1) show ?thesis
  proof (cases rule: gateway_step.cases)
    case (refused ri mo response g)
    with arrive_cases [OF refused(2) ok] show ?thesis by (simp add: limits_def)
  next
    case (admitted ri mo ticket g)
    with arrive_cases [OF admitted(2) ok] acq show ?thesis by (simp add: limits_def)
  next
    case (body_read i rq mo)
    obtain st g1 where b: "after_body (rq_info rq) mo (gs_gateway s) = (st, g1)" by (rule prod.exhaust)
    with body_read after_body_effect [OF b] show ?thesis by (simp add: put_request_def only_reports_def) (simp add: limits_def)
  next
    case (decided i rq body pr decision mo st g)
    with after_decision_effect [OF decided(6) ok] show ?thesis by (simp add: put_request_def) (simp add: limits_def)
  next
    case (fetched i rq route permit px mo f)
    obtain st g1 where b: "after_fetch parse_url (rq_info rq) mo route permit px f (gs_gateway s) = (st, g1)" by (rule prod.exhaust)
    with fetched after_fetch_effect [OF b ok] show ?thesis by (simp add: put_request_def) (simp add: limits_def)
  next
    case (consumed i rq response)
    then show ?thesis
      by (auto simp: put_request_def release_and_settle_def release_request_def measure_gateway_def limits_def split: option.splits)
  qed (auto simp: limits_def begin_drain_def gate_begin_drain_def measure_gateway_def wait_for_idle_def gate_wait_def)
qed

lemma reachable_limits:
  assumes "gateway_reachable decides parse_url origin_of g s" "gateway_ok g" "requests_ok [] g"
  shows "limits (gs_gateway s) = limits g"
  using assms(1)
proof (induction rule: gateway_reachable.induct)
  case (step s s')
  then show ?case using step_limits reachable_no_leaks [OF _ assms(2,3)] by metis
qed simp

lemma new_gateway_ok:
  assumes "new_gateway options = Inr g" "rel_option same_gauges (Some (new_metrics now)) (go_metrics options) \<or> go_metrics options = None"
  shows "gateway_ok g \<and> requests_ok [] g"
proof -
  from assms(1) obtain gate breaker where
    gate: "new_admission_gate (or_default (go_maxInFlightRequests options) default_max_in_flight_requests) = Inr gate"
    and breaker: "new_circuit_breaker (go_circuitFailureThreshold options) (go_circuitOpenDurationMs options)
          (go_circuitMaximumUpstreams options) = Inr breaker"
    and g: "gw_gate g = gate" "gw_breaker g = \<lparr>bs_breaker = breaker, bs_permits = []\<rparr>" "gw_metrics g = go_metrics options"
    by (auto simp: new_gateway_def Let_def bind_result_Inr split: if_splits)
  have fresh: "ag_active gate = 0 \<and> ag_accepting gate \<and> ag_released gate = []"
    using gate by (auto simp: new_admission_gate_def split: if_splits)
  have b: "breaker_ok breaker" "cb_circuits breaker = []" "cb_transitions breaker = []"
    using new_breaker_ok [OF breaker] by simp_all
  then have sys: "system_ok (gw_breaker g)" "unavailable_count breaker = 0"
    by (simp_all add: system_ok_def unavailable_count_def g)
  have "case gw_metrics g of None \<Rightarrow> True | Some m \<Rightarrow> gauges_show g m"
    using assms(2) fresh sys by (auto simp: g gauges_show_def same_gauges_def new_metrics_def split: option.splits)
  with new_gate_ok [OF gate] fresh sys show ?thesis
    by (simp add: gateway_ok_def requests_ok_def g owned_Nil)
qed

text \<open>C3: Nothing leaks. However arrivals, bodies, decisions, fetches, aborts, consumed responses and
  draining interleave, the active count of the gateway is the number of requests in progress and
  never exceeds the configured maximum; the gauges of active requests, of acceptance and of
  unavailable circuits show the state exactly; every permit of the breaker not completed is held by
  exactly one request being forwarded. So when no request is in progress nobody waits for the
  gateway to be idle and no circuit is left half open.\<close>

theorem gateway_no_leak:
  assumes "new_gateway options = Inr g" "gateway_reachable decides parse_url origin_of g s"
    and "go_metrics options = None \<or> go_metrics options = Some (new_metrics now)"
  defines "gate \<equiv> gw_gate (gs_gateway s)" and "breaker \<equiv> gw_breaker (gs_gateway s)"
    and "progress \<equiv> length (filter (\<lambda>rq. in_progress (rq_phase rq)) (gs_requests s))"
  shows "ag_active gate = int progress \<and> int progress \<le> ag_maximum (gw_gate g)
     \<and> (\<forall>m. gw_metrics (gs_gateway s) = Some m \<longrightarrow> gauges_show (gs_gateway s) m)
     \<and> (\<forall>p < length (bs_permits breaker). \<not> pm_completed (bs_permits breaker ! p) \<longrightarrow>
          (\<exists>!i. i < length (gs_requests s) \<and> held_permit (rq_phase (gs_requests s ! i)) = Some p))
     \<and> (progress = 0 \<longrightarrow> ag_idleWaiters gate = []
          \<and> (\<forall>k c. map_of (cb_circuits (bs_breaker breaker)) k = Some c \<longrightarrow> ci_state c \<noteq> HalfOpen))"
proof -
  have new: "gateway_ok g" "requests_ok [] g"
    using new_gateway_ok [OF assms(1), of now] assms(3) by (auto simp: same_gauges_def)
  have inv: "gateway_ok (gs_gateway s)" "requests_ok (gs_requests s) (gs_gateway s)"
    using reachable_no_leaks [OF assms(2) new] by (simp_all add: no_leaks_def)
  then have ok: "gate_ok gate" "system_ok breaker" by (simp_all add: gateway_ok_def gate_def breaker_def)
  have active: "ag_active gate = int progress"
    using ok(1) progress_count [OF inv(2)] by (simp add: gate_ok_def gate_def progress_def)
  have max: "ag_maximum gate = ag_maximum (gw_gate g)"
    using reachable_limits [OF assms(2) new] by (simp add: limits_def gate_def)
  note own = permits_of [OF inv(2), folded breaker_def]
  have held: "\<exists>!i. i < length (gs_requests s) \<and> held_permit (rq_phase (gs_requests s ! i)) = Some p"
    if "p < length (bs_permits breaker)" "\<not> pm_completed (bs_permits breaker ! p)" for p
    using owned_ex [OF own, of p] owned_apart [OF own, of _ _ p] that by auto
  have "ci_state c \<noteq> HalfOpen" if "progress = 0" "map_of (cb_circuits (bs_breaker breaker)) k = Some c" for k c
  proof
    assume "ci_state c = HalfOpen"
    with ok(2) that(2) obtain p where "p < length (bs_permits breaker)" "\<not> pm_completed (bs_permits breaker ! p)"
      by (auto simp: system_ok_def has_live_probe_def)
    from held [OF this] obtain i where i: "i < length (gs_requests s)" "held_permit (rq_phase (gs_requests s ! i)) = Some p" by blast
    then have "in_progress (rq_phase (gs_requests s ! i))" by (cases "rq_phase (gs_requests s ! i)") simp_all
    with i(1) that(1) show False by (auto simp: progress_def filter_empty_conv)
  qed
  with active max held ok(1) inv(1) show ?thesis
    by (auto simp: gate_ok_def gateway_ok_def split: option.splits)
qed

section \<open>What reaches an upstream\<close>

text \<open>
  What is sent was decided upon: the evaluator allowed the request on that route, the request goes
  to the route's upstream, and method, headers and body are those the evaluator was shown.
\<close>

definition sent_as ::
  "(policy_request \<Rightarrow> 'j policy_decision result \<Rightarrow> bool) \<Rightarrow> url_parser \<Rightarrow> int \<Rightarrow> policy_request \<Rightarrow> compiled_route \<Rightarrow> upstream_request \<Rightarrow> bool" where
  "sent_as decides parse_url limit pr route up \<longleftrightarrow>
     (\<exists>a. decides pr (Inr (Allowed a)) \<and> al_route a = Some route)
     \<and> build_upstream_url parse_url (cr_upstream route) (pr_url pr) = Inr (up_url up)
     \<and> up_method up = pr_method pr
     \<and> (\<exists>i. up_headers up = create_upstream_headers (pr_headers pr) (pr_url pr) (pr_clientIp pr) (Some i))
     \<and> map_option text_decode (up_body up) = pr_body pr
     \<and> (case up_body up of None \<Rightarrow> True | Some bs \<Rightarrow> int (length bs) \<le> limit)"

fun evaluates :: "int \<Rightarrow> request_info \<Rightarrow> request_phase \<Rightarrow> bool" where
  "evaluates limit ri (Evaluating body pr) \<longleftrightarrow>
     read_request_body (ri_request ri) limit = Inr body \<and> pr = policy_request_of ri body"
| "evaluates limit ri phase \<longleftrightarrow> True"

definition sent_ok :: "(policy_request \<Rightarrow> 'j policy_decision result \<Rightarrow> bool) \<Rightarrow> url_parser \<Rightarrow> gateway_system \<Rightarrow> bool" where
  "sent_ok decides parse_url s \<longleftrightarrow>
     (\<forall>rq \<in> set (gs_requests s). evaluates (gw_maxRequestBodyBytes (gs_gateway s)) (rq_info rq) (rq_phase rq))
     \<and> (\<forall>(pr, route, up) \<in> set (gs_sent s). sent_as decides parse_url (gw_maxRequestBodyBytes (gs_gateway s)) pr route up)"

lemma buffered_ok:
  assumes "read_request_body request limit = Inr body" "0 \<le> limit"
  shows "bb_text body = map_option text_decode (bb_bytes body)"
    and "req_method request = js ''GET'' \<or> req_method request = js ''HEAD'' \<Longrightarrow> bb_bytes body = None"
    and "case bb_bytes body of None \<Rightarrow> True | Some bs \<Rightarrow> int (length bs) \<le> limit"
proof -
  have u: "to_upper (js ''GET'') = js ''GET''" "to_upper (js ''HEAD'') = js ''HEAD''" by code_simp+
  from assms show "bb_text body = map_option text_decode (bb_bytes body)"
    by (auto simp: read_request_body_def bind_result_Inr split: if_splits option.splits)
  from assms show "case bb_bytes body of None \<Rightarrow> True | Some bs \<Rightarrow> int (length bs) \<le> limit"
    by (auto simp: read_request_body_def bind_result_Inr read_chunks_Inr split: if_splits option.splits)
  show "bb_bytes body = None" if "req_method request = js ''GET'' \<or> req_method request = js ''HEAD''"
    using that assms u by (auto simp: read_request_body_def)
qed

lemma dispatched_Some:
  "dispatched parse_url i = Some up \<Longrightarrow>
     \<exists>target. build_upstream_url parse_url (cr_upstream (px_route i)) (req_url (px_request i)) = Inr target
       \<and> up = upstream_request_for i target"
  by (auto simp: dispatched_def proxy_to_upstream_def Let_def split: sum.splits if_splits)

lemma dispatched_sent_as:
  assumes "dispatched parse_url (proxy_input_of ri route body g) = Some up"
    and "read_request_body (ri_request ri) (gw_maxRequestBodyBytes g) = Inr body" "0 \<le> gw_maxRequestBodyBytes g"
    and "decides (policy_request_of ri body) (Inr (Allowed a))" "al_route a = Some route"
  shows "sent_as decides parse_url (gw_maxRequestBodyBytes g) (policy_request_of ri body) route up"
proof -
  from dispatched_Some [OF assms(1)] obtain target where
    target: "build_upstream_url parse_url (cr_upstream route) (req_url (ri_request ri)) = Inr target"
    and up: "up = upstream_request_for (proxy_input_of ri route body g) target"
    by (auto simp: proxy_input_of_def)
  have b: "up_body up = bb_bytes body"
    using buffered_ok(2) [OF assms(2,3)] by (auto simp: up upstream_request_for_def proxy_input_of_def)
  have "map_option text_decode (up_body up) = pr_body (policy_request_of ri body)"
    by (simp add: b policy_request_of_def buffered_ok(1) [OF assms(2,3)])
  moreover have "case up_body up of None \<Rightarrow> True | Some bs \<Rightarrow> int (length bs) \<le> gw_maxRequestBodyBytes g"
    using buffered_ok(3) [OF assms(2,3)] by (simp add: b)
  moreover have "up_url up = target" "up_method up = pr_method (policy_request_of ri body)"
    "up_headers up = create_upstream_headers (pr_headers (policy_request_of ri body))
       (pr_url (policy_request_of ri body)) (pr_clientIp (policy_request_of ri body)) (Some (ri_requestId ri))"
    by (simp_all add: up upstream_request_for_def proxy_input_of_def policy_request_of_def)
  ultimately show ?thesis using target assms(4,5) unfolding sent_as_def
    by (auto simp: policy_request_of_def)
qed

lemma conclude_phase:
  "conclude (st, g1) rq = (rq', g') \<Longrightarrow> rq_info rq' = rq_info rq
     \<and> (case st of Inr phase \<Rightarrow> rq_phase rq' = phase | Inl r \<Rightarrow> (\<forall>limit ri. evaluates limit ri (rq_phase rq')))"
  by (auto simp: conclude_def release_and_settle_def release_when_consumed_def release_request_def
      split: sum.splits if_splits option.splits)

lemma sent_ok_put:
  assumes "sent_ok decides parse_url s" "i < length (gs_requests s)"
    and "gw_maxRequestBodyBytes (snd (conclude (st, g1) (gs_requests s ! i))) = gw_maxRequestBodyBytes (gs_gateway s)"
    and "case st of Inr phase \<Rightarrow> evaluates (gw_maxRequestBodyBytes (gs_gateway s)) (rq_info (gs_requests s ! i)) phase | Inl r \<Rightarrow> True"
    and "\<forall>(pr, route, up) \<in> set sent. sent_as decides parse_url (gw_maxRequestBodyBytes (gs_gateway s)) pr route up"
  shows "sent_ok decides parse_url (put_request i (conclude (st, g1) (gs_requests s ! i)) (s\<lparr>gs_sent := gs_sent s @ sent\<rparr>))"
proof -
  obtain rq' g' where c: "conclude (st, g1) (gs_requests s ! i) = (rq', g')" by (rule prod.exhaust)
  have "evaluates (gw_maxRequestBodyBytes (gs_gateway s)) (rq_info rq') (rq_phase rq')"
    using conclude_phase [OF c] assms(4) by (auto split: sum.splits)
  with assms c show ?thesis
    unfolding sent_ok_def put_request_def by (auto dest: subsetD [OF set_update_subset_insert])
qed

lemma step_sent_ok:
  assumes "gateway_step decides parse_url origin_of s s'" "no_leaks s" "sent_ok decides parse_url s"
    and "0 \<le> gw_maxRequestBodyBytes (gs_gateway s)"
  shows "sent_ok decides parse_url s'"
proof -
  have ok: "gateway_ok (gs_gateway s)" using assms(2) by (simp add: no_leaks_def)
  have lim: "gw_maxRequestBodyBytes (gs_gateway s') = gw_maxRequestBodyBytes (gs_gateway s)"
    using step_limits [OF assms(1,2)] by (simp add: limits_def)
  from assms(1) show ?thesis
  proof (cases rule: gateway_step.cases)
    case (body_read i rq mo)
    obtain st g1 where b: "after_body (rq_info rq) mo (gs_gateway s) = (st, g1)" by (rule prod.exhaust)
    have "sent_ok decides parse_url (put_request i (conclude (st, g1) (gs_requests s ! i)) (s\<lparr>gs_sent := gs_sent s @ []\<rparr>))"
      by (rule sent_ok_put [OF assms(3) body_read(2)])
        (use lim body_read b after_body_effect [OF b] in \<open>auto simp: put_request_def split: sum.splits\<close>)
    with body_read b show ?thesis by simp
  next
    case (decided i rq body pr decision mo st g)
    note e = after_decision_effect [OF decided(6) ok]
    have "evaluates (gw_maxRequestBodyBytes (gs_gateway s)) (rq_info rq) (rq_phase rq)"
      using assms(3) decided(2,3) by (auto simp: sent_ok_def)
    then have body: "read_request_body (ri_request (rq_info rq)) (gw_maxRequestBodyBytes (gs_gateway s)) = Inr body"
      and pr: "pr = policy_request_of (rq_info rq) body" using decided(4) by simp_all
    define sent where "sent = (case st of
                Inr (Forwarding route permit px) \<Rightarrow>
                  (case dispatched parse_url px of None \<Rightarrow> [] | Some up \<Rightarrow> [(pr, route, up)])
              | _ \<Rightarrow> [])"
    have sent: "\<forall>(pr, route, up) \<in> set sent. sent_as decides parse_url (gw_maxRequestBodyBytes (gs_gateway s)) pr route up"
    proof (cases st)
      case (Inr phase)
      with e obtain a route where a: "decision = Inr (Allowed a)" "al_route a = Some route"
        "phase = Forwarding route (length (bs_permits (gw_breaker (gs_gateway s)))) (proxy_input_of (rq_info rq) route body (gs_gateway s))"
        by auto
      with dispatched_sent_as [OF _ body assms(4), of parse_url route _ decides a] decided(5) pr Inr
      show ?thesis by (auto simp: sent_def split: option.splits)
    qed (simp add: sent_def)
    have "sent_ok decides parse_url (put_request i (conclude (st, g) (gs_requests s ! i)) (s\<lparr>gs_sent := gs_sent s @ sent\<rparr>))"
      by (rule sent_ok_put [OF assms(3) decided(2) _ _ sent])
        (use lim decided e in \<open>auto simp: put_request_def split: sum.splits\<close>)
    with decided show ?thesis by (simp add: sent_def)
  next
    case (fetched i rq route permit px mo f)
    obtain st g1 where b: "after_fetch parse_url (rq_info rq) mo route permit px f (gs_gateway s) = (st, g1)" by (rule prod.exhaust)
    have "sent_ok decides parse_url (put_request i (conclude (st, g1) (gs_requests s ! i)) (s\<lparr>gs_sent := gs_sent s @ []\<rparr>))"
      by (rule sent_ok_put [OF assms(3) fetched(2)])
        (use lim fetched b after_fetch_effect [OF b ok] in \<open>auto simp: put_request_def split: sum.splits\<close>)
    with fetched b show ?thesis by simp
  next
    case (consumed i rq response)
    have "conclude (Inl (Inl e), gs_gateway s) rq = release_and_settle (Inl e) rq (gs_gateway s)" for e
      by (simp add: conclude_def)
    have "evaluates l ri (rq_phase (fst (release_and_settle r rq (gs_gateway s))))" for r l ri
      by (simp add: release_and_settle_def release_request_def split: option.split)
    with consumed assms(3) lim show ?thesis
      unfolding sent_ok_def put_request_def by (auto dest: subsetD [OF set_update_subset_insert])
  qed (use assms(3) lim in \<open>auto simp: sent_ok_def\<close>)
qed

lemma reachable_sent_ok:
  assumes "gateway_reachable decides parse_url origin_of g s" "gateway_ok g" "requests_ok [] g" "0 \<le> gw_maxRequestBodyBytes g"
  shows "sent_ok decides parse_url s"
  using assms(1)
proof (induction rule: gateway_reachable.induct)
  case start
  then show ?case by (simp add: sent_ok_def)
next
  case (step s s')
  have "0 \<le> gw_maxRequestBodyBytes (gs_gateway s)"
    using reachable_limits [OF step.hyps(1) assms(2,3)] assms(4) by (simp add: limits_def)
  with step reachable_no_leaks [OF step.hyps(1) assms(2,3)] show ?case using step_sent_ok by blast
qed

section \<open>What is audited\<close>

text \<open>What an audit record says of an answered request: its id, method, path and status.\<close>

definition answer_key :: "request_info \<Rightarrow> http_response \<Rightarrow> ustr \<times> ustr \<times> ustr \<times> jsnum" where
  "answer_key ri response =
     (ri_requestId ri, to_upper (req_method (ri_request ri)), u_pathname (req_url (ri_request ri)), num (res_status response))"

definition audit_key :: "security_audit_record \<Rightarrow> ustr \<times> ustr \<times> ustr \<times> jsnum" where
  "audit_key a = (sa_requestId a, sa_method a, sa_path a, sa_status a)"

fun answer :: "request_phase \<Rightarrow> http_response option" where
  "answer (Responding response) = Some response"
| "answer (Settled (Inr response)) = Some response"
| "answer phase = None"

definition answered :: "request_state \<Rightarrow> (ustr \<times> ustr \<times> ustr \<times> jsnum) option" where
  "answered rq = map_option (answer_key (rq_info rq)) (answer (rq_phase rq))"

definition audited_ok :: "gateway_system \<Rightarrow> bool" where
  "audited_ok s \<longleftrightarrow> gw_audited (gs_gateway s) \<longrightarrow>
     filter_mset (\<lambda>k. k \<noteq> None) (mset (map answered (gs_requests s)))
       = image_mset Some (mset (map audit_key (gw_audit (gs_gateway s))))"

text \<open>A response that can be wrapped by a new one with its body and status.\<close>

definition wrappable :: "http_response \<Rightarrow> bool" where
  "wrappable r \<longleftrightarrow> res_body r = None \<or> 200 \<le> res_status r \<and> res_status r \<le> 599 \<and> \<not> null_body_status (res_status r)"

definition answers :: "request_info \<Rightarrow> gateway \<Rightarrow> stretch \<times> gateway \<Rightarrow> bool" where
  "answers ri g stg \<longleftrightarrow> gw_audited (snd stg) = gw_audited g
     \<and> (case fst stg of
          Inl (Inr response) \<Rightarrow> wrappable response
            \<and> (gw_audited g \<longrightarrow> map audit_key (gw_audit (snd stg)) = map audit_key (gw_audit g) @ [answer_key ri response])
        | _ \<Rightarrow> gw_audit (snd stg) = gw_audit g)"

lemma reports_not_audited [simp]:
  "gw_audit (measure_gateway report g) = gw_audit g" "gw_audited (measure_gateway report g) = gw_audited g"
  "gw_audit (with_breaker bs g) = gw_audit g" "gw_audited (with_breaker bs g) = gw_audited g"
  "gw_audit (settle_permit permit action mo g) = gw_audit g" "gw_audited (settle_permit permit action mo g) = gw_audited g"
  by (simp_all add: measure_gateway_def with_breaker_def settle_permit_def)

lemma complete_audited:
  assumes "complete ri mo response completion g = (r, g')"
  shows "res_status r = res_status response \<and> res_body r = res_body response \<and> gw_audited g' = gw_audited g
     \<and> (gw_audited g \<longrightarrow> map audit_key (gw_audit g') = map audit_key (gw_audit g) @ [answer_key ri r])
     \<and> (\<not> gw_audited g \<longrightarrow> gw_audit g' = gw_audit g)"
  using assms by (cases "gw_audited g") (auto simp: complete_def Let_def audit_record_of_def answer_key_def audit_key_def)

lemma finish_answers:
  assumes "wrappable response" "gw_audited g0 = gw_audited g" "gw_audit g0 = gw_audit g"
  shows "answers ri g (finish (complete ri mo response completion g0))"
proof -
  obtain r g' where c: "complete ri mo response completion g0 = (r, g')" by (rule prod.exhaust)
  from complete_audited [OF c] assms show ?thesis by (simp add: finish_def c answers_def wrappable_def)
qed

lemma error_wrappable: "200 \<le> status \<Longrightarrow> status \<le> 599 \<Longrightarrow> \<not> null_body_status status \<Longrightarrow> wrappable (error_response status code h)"
  by (simp add: wrappable_def error_response_def Let_def)

lemmas error_codes_wrappable = error_wrappable [of 400] error_wrappable [of 404] error_wrappable [of 413]
  error_wrappable [of 502] error_wrappable [of 503] error_wrappable [of 504]

lemma denied_wrappable: "denial_ok d \<Longrightarrow> wrappable (denied_response d)"
  unfolding denied_response_def Let_def denial_ok_def
  by (cases "dn_code d"; intro error_wrappable) (simp_all add: null_body_status_def)

lemma proxied_wrappable: "proxied parse_url i f = Inr response \<Longrightarrow> wrappable response"
  by (auto simp: proxied_def proxy_to_upstream_def Let_def create_client_response_def new_response_def wrappable_def
      split: sum.splits if_splits prod.splits)

lemma after_body_answers:
  assumes "own_failure_only ri" "0 < gw_maxRequestBodyBytes g"
  shows "answers ri g (after_body ri mo g)"
proof (cases "read_request_body (ri_request ri) (gw_maxRequestBodyBytes g)")
  case (Inr body)
  then show ?thesis by (simp add: after_body_def answers_def)
next
  case (Inl e)
  show ?thesis
  proof (cases "\<exists>status code. e = GatewayRequestError status code")
    case True
    then obtain status code where e: "e = GatewayRequestError status code" by blast
    from body_errors [OF assms(2) Inl] assms(1) e
    have "status \<in> {400, 413}"
      by (auto simp: own_failure_only_def invalid_content_length_def request_body_too_large_def)
    with e Inl error_codes_wrappable show ?thesis
      by (auto simp: after_body_def null_body_status_def intro!: finish_answers)
  next
    case False
    have "wrappable (error_response 400 (js ''request_body_unreadable'') [])"
      by (rule error_codes_wrappable) (simp_all add: null_body_status_def)
    with False Inl show ?thesis unfolding after_body_def
      by (cases e) (auto intro!: finish_answers)
  qed
qed

lemma after_decision_answers:
  assumes "\<And>d. decision = Inr (Denied d) \<Longrightarrow> denial_ok d"
  shows "answers ri g (after_decision origin_of ri mo body decision g)"
proof -
  have w: "wrappable (error_response 503 code h)" "wrappable (error_response 404 code h)" for code h
    by (rule error_codes_wrappable; simp add: null_body_status_def)+
  have forwarded: "answers ri g (Inr (Forwarding route p px), with_breaker bs g)" for route p px bs
    by (simp add: answers_def)
  show ?thesis
  proof (cases decision)
    case (Inl e)
    with w show ?thesis by (auto simp: after_decision_def intro!: finish_answers)
  next
    case (Inr d)
    with assms w forwarded denied_wrappable show ?thesis unfolding after_decision_def
      by (cases d) (auto split: option.split prod.split acquisition.split intro!: finish_answers)
  qed
qed

lemma after_fetch_answers: "answers ri g (after_fetch parse_url ri mo route permit px f g)"
proof -
  have w: "wrappable (error_response 502 code h)" "wrappable (error_response 504 code h)" for code h
    by (rule error_codes_wrappable; simp add: null_body_status_def)+
  have aborted: "answers ri g (Inl (Inl e), settle_permit permit Abandon mo g)" for e by (simp add: answers_def)
  show ?thesis unfolding after_fetch_def
    using w aborted proxied_wrappable by (auto split: sum.split intro!: finish_answers)
qed

text \<open>The end of a stretch answers the request whose completion was audited.\<close>

lemma conclude_audited:
  assumes "answers (rq_info rq) g stg" "answer (rq_phase rq) = None" "case fst stg of Inr phase \<Rightarrow> answer phase = None | Inl r \<Rightarrow> True"
    and "conclude stg rq = (rq', g')"
  shows "gw_audited g' = gw_audited g \<and> (gw_audited g \<longrightarrow>
     map audit_key (gw_audit g') = map audit_key (gw_audit g) @ (case answered rq' of None \<Rightarrow> [] | Some k \<Rightarrow> [k]))"
proof -
  obtain st g1 where stg: "stg = (st, g1)" by (rule prod.exhaust)
  have rel: "gw_audited (snd (release_request rq g1)) = gw_audited g1" "gw_audit (snd (release_request rq g1)) = gw_audit g1"
    "rq_info (fst (release_request rq g1)) = rq_info rq"
    by (auto simp: release_request_def measure_gateway_def split: option.split)
  show ?thesis
  proof (cases st)
    case (Inr phase)
    with assms stg show ?thesis by (auto simp: conclude_def answers_def answered_def)
  next
    case (Inl r)
    show ?thesis
    proof (cases r)
      case e: (Inl e)
      with assms(1,4) Inl stg rel show ?thesis
        by (auto simp: conclude_def answers_def answered_def release_and_settle_def split: prod.splits)
    next
      case resp: (Inr response)
      with assms(1) Inl stg have w: "wrappable response" by (simp add: answers_def)
      have k: "answer_key ri \<lparr>res_status = res_status response, res_statusText = t, res_headers = h, res_body = b\<rparr>
          = answer_key ri response" for ri t h b by (simp add: answer_key_def)
      show ?thesis
      proof (cases "res_body response = None")
        case True
        with assms(1,4) Inl resp stg rel show ?thesis
          by (auto simp: conclude_def answers_def answered_def release_and_settle_def release_when_consumed_def split: prod.splits)
      next
        case False
        with w have "new_response (res_body response) (res_status response) (res_statusText response) (res_headers response)
            = Inr \<lparr>res_status = res_status response, res_statusText = res_statusText response,
                res_headers = res_headers response, res_body = res_body response\<rparr>"
          by (simp add: new_response_def wrappable_def)
        with False assms(1,4) Inl resp stg show ?thesis
          by (auto simp: conclude_def answers_def answered_def release_when_consumed_def k)
      qed
    qed
  qed
qed

text \<open>The invariant: what has been answered has been audited, once.\<close>

definition origins_ok :: "gateway_system \<Rightarrow> bool" where
  "origins_ok s \<longleftrightarrow> (\<forall>rq \<in> set (gs_requests s). rq_phase rq = ReadingBody \<longrightarrow> own_failure_only (rq_info rq))"

lemma conclude_reading:
  "conclude (st, g1) rq = (rq', g') \<Longrightarrow> rq_phase rq' = ReadingBody \<Longrightarrow> st = Inr ReadingBody"
  by (auto simp: conclude_def release_and_settle_def release_when_consumed_def release_request_def
      split: sum.splits if_splits option.splits)

lemma audited_put:
  assumes "audited_ok s" "i < length (gs_requests s)" "answer (rq_phase (gs_requests s ! i)) = None"
    and "answers (rq_info (gs_requests s ! i)) (gs_gateway s) (st, g1)"
    and "case st of Inr phase \<Rightarrow> answer phase = None | Inl r \<Rightarrow> True"
  shows "audited_ok (put_request i (conclude (st, g1) (gs_requests s ! i)) (s\<lparr>gs_sent := sent\<rparr>))"
proof -
  obtain rq' g' where c: "conclude (st, g1) (gs_requests s ! i) = (rq', g')" by (rule prod.exhaust)
  from conclude_audited [OF assms(4,3) _ c] assms(5)
  have a: "gw_audited g' = gw_audited (gs_gateway s)" "gw_audited (gs_gateway s) \<Longrightarrow>
     map audit_key (gw_audit g') = map audit_key (gw_audit (gs_gateway s)) @ (case answered rq' of None \<Rightarrow> [] | Some k \<Rightarrow> [k])"
    by simp_all
  have n: "answered (gs_requests s ! i) = None" using assms(3) by (simp add: answered_def)
  have m: "mset (map answered ((gs_requests s)[i := rq'])) = add_mset (answered rq') (mset (map answered (gs_requests s)) - {#None#})"
    using assms(2) n by (simp add: map_update mset_update)
  show ?thesis
  proof (cases "gw_audited (gs_gateway s)")
    case True
    from a(2) [OF True] have "image_mset Some (mset (map audit_key (gw_audit g')))
        = image_mset Some (mset (map audit_key (gw_audit (gs_gateway s)))) + (case answered rq' of None \<Rightarrow> {#} | Some k \<Rightarrow> {#Some k#})"
      by (simp only: mset_append image_mset_union) (simp split: option.split)
    with True assms(1) m show ?thesis
      by (simp add: audited_ok_def put_request_def c split: option.splits)
  qed (simp add: audited_ok_def put_request_def c a(1))
qed

lemma arrive_refused:
  assumes "arrive ri mo g = (Inl response, g')"
  shows "\<exists>r completion report gate.
     complete ri mo r completion (measure_gateway report (g\<lparr>gw_gate := gate\<rparr>)) = (response, g')"
proof -
  obtain a gate where "try_acquire (gw_gate g) = (a, gate)" by (rule prod.exhaust)
  note acq = this
  have "\<exists>r completion report. (case complete ri mo r completion (measure_gateway report (g\<lparr>gw_gate := gate\<rparr>)) of
      (response, g') \<Rightarrow> (Inl response :: http_response + nat, g')) = (Inl response, g')"
  proof (cases a)
    case Overloaded
    with assms acq show ?thesis unfolding arrive_def by (simp only: prod.case admission.case) (intro exI, assumption)
  next
    case Draining
    with assms acq show ?thesis unfolding arrive_def by (simp only: prod.case admission.case) (intro exI, assumption)
  qed (use assms acq in \<open>simp add: arrive_def\<close>)
  then obtain r completion report where e: "(case complete ri mo r completion (measure_gateway report (g\<lparr>gw_gate := gate\<rparr>)) of
      (response, g') \<Rightarrow> (Inl response :: http_response + nat, g')) = (Inl response, g')" by blast
  obtain r' g'' where c: "complete ri mo r completion (measure_gateway report (g\<lparr>gw_gate := gate\<rparr>)) = (r', g'')"
    by (rule prod.exhaust)
  with e have "r' = response" "g'' = g'" by simp_all
  with c show ?thesis by blast
qed

lemma audited_append:
  assumes "audited_ok s" "gw_audited g = gw_audited (gs_gateway s)"
    and "gw_audited (gs_gateway s) \<Longrightarrow>
     map audit_key (gw_audit g) = map audit_key (gw_audit (gs_gateway s)) @ (case answered rq of None \<Rightarrow> [] | Some k \<Rightarrow> [k])"
  shows "audited_ok (s\<lparr>gs_gateway := g, gs_requests := gs_requests s @ [rq]\<rparr>)"
proof (cases "gw_audited (gs_gateway s)")
  case True
  from assms(3) [OF True] have "image_mset Some (mset (map audit_key (gw_audit g)))
      = image_mset Some (mset (map audit_key (gw_audit (gs_gateway s)))) + (case answered rq of None \<Rightarrow> {#} | Some k \<Rightarrow> {#Some k#})"
    by (simp only: mset_append image_mset_union) (simp split: option.split)
  with True assms(1) show ?thesis by (simp add: audited_ok_def split: option.splits)
qed (simp add: audited_ok_def assms(2))

lemma step_audited:
  assumes "gateway_step decides parse_url origin_of s s'" "no_leaks s" "0 < gw_maxRequestBodyBytes (gs_gateway s)"
    and "\<And>pr d. decides pr (Inr (Denied d)) \<Longrightarrow> denial_ok d"
    and "audited_ok s" "origins_ok s"
  shows "audited_ok s' \<and> origins_ok s'"
proof -
  have ok: "gateway_ok (gs_gateway s)" using assms(2) by (simp add: no_leaks_def)
  have origins: "origins_ok (put_request i (conclude (st, g1) rq) (s\<lparr>gs_sent := sent\<rparr>))"
    if "case st of Inr phase \<Rightarrow> phase \<noteq> ReadingBody | Inl r \<Rightarrow> True" for i st g1 rq sent
  proof -
    obtain rq' g' where c: "conclude (st, g1) rq = (rq', g')" by (rule prod.exhaust)
    with conclude_reading [OF c] that assms(6) show ?thesis
      by (auto simp: origins_ok_def put_request_def dest!: subsetD [OF set_update_subset_insert])
  qed
  from assms(1) show ?thesis
  proof (cases rule: gateway_step.cases)
    case (refused ri mo response g)
    from arrive_refused [OF refused(2)] obtain r completion report gate where
      c: "complete ri mo r completion (measure_gateway report ((gs_gateway s)\<lparr>gw_gate := gate\<rparr>)) = (response, g)" by blast
    define rq where "rq = \<lparr>rq_info = ri, rq_ticket = None, rq_released = True, rq_phase = Settled (Inr response)\<rparr>"
    have "answered rq = Some (answer_key ri response)" by (simp add: answered_def rq_def)
    with audited_append [OF assms(5), of g rq] complete_audited [OF c] refused(1) assms(6) show ?thesis
      by (auto simp: origins_ok_def rq_def)
  next
    case (admitted ri mo ticket g)
    then have "gw_audit g = gw_audit (gs_gateway s)" "gw_audited g = gw_audited (gs_gateway s)"
      by (auto simp: arrive_def split: admission.splits prod.splits)
    with audited_append [OF assms(5), of g] admitted assms(6) show ?thesis
      by (auto simp: origins_ok_def answered_def)
  next
  case (body_read i rq mo)
    obtain st g1 where b: "after_body (rq_info rq) mo (gs_gateway s) = (st, g1)" by (rule prod.exhaust)
    have "own_failure_only (rq_info rq)" using assms(6) body_read(2-4) by (auto simp: origins_ok_def)
    from after_body_answers [OF this assms(3), of mo] b body_read have a: "answers (rq_info (gs_requests s ! i)) (gs_gateway s) (st, g1)"
      by simp
    have "case st of Inr phase \<Rightarrow> answer phase = None \<and> phase \<noteq> ReadingBody | Inl r \<Rightarrow> True"
      using after_body_effect [OF b] by (auto split: sum.splits)
    with audited_put [OF assms(5) body_read(2) _ a, of "gs_sent s"] origins [of st i g1 rq "gs_sent s"] body_read b
    show ?thesis by (auto split: sum.splits)
  next
    case (decided i rq body pr decision mo st g)
    have a: "answers (rq_info (gs_requests s ! i)) (gs_gateway s) (st, g)"
    proof -
      have "decision = Inr (Denied d) \<Longrightarrow> denial_ok d" for d using assms(4) decided(5) by simp
      from after_decision_answers [OF this] decided(3,6) show ?thesis by metis
    qed
    have "case st of Inr phase \<Rightarrow> answer phase = None \<and> phase \<noteq> ReadingBody | Inl r \<Rightarrow> True"
      using after_decision_effect [OF decided(6) ok] by (auto split: sum.splits)
    then have "case st of Inr phase \<Rightarrow> answer phase = None | Inl r \<Rightarrow> True" "case st of Inr phase \<Rightarrow> phase \<noteq> ReadingBody | Inl r \<Rightarrow> True"
      by (auto split: sum.splits)
    with audited_put [OF assms(5) decided(2) _ a] origins decided show ?thesis by simp
  next
    case (fetched i rq route permit px mo f)
    obtain st g1 where b: "after_fetch parse_url (rq_info rq) mo route permit px f (gs_gateway s) = (st, g1)" by (rule prod.exhaust)
    have a: "answers (rq_info (gs_requests s ! i)) (gs_gateway s) (st, g1)"
      using after_fetch_answers [of "rq_info rq" "gs_gateway s" parse_url mo route permit px f] b fetched by simp
    have "\<exists>r. st = Inl r" using after_fetch_effect [OF b ok] by simp
    with audited_put [OF assms(5) fetched(2) _ a, of "gs_sent s"] origins [of st i g1 rq "gs_sent s"] fetched b
    show ?thesis by auto
  next
    case (consumed i rq response)
    obtain rq' g' where r: "release_and_settle (Inr response) rq (gs_gateway s) = (rq', g')" by (rule prod.exhaust)
    then have e: "rq_info rq' = rq_info rq" "rq_phase rq' = Settled (Inr response)"
      "gw_audit g' = gw_audit (gs_gateway s)" "gw_audited g' = gw_audited (gs_gateway s)"
      by (auto simp: release_and_settle_def release_request_def split: option.splits if_splits)
    have "answered rq' = answered (gs_requests s ! i)" using consumed e by (simp add: answered_def)
    then have "map answered ((gs_requests s)[i := rq']) = map answered (gs_requests s)"
      using consumed(2) by (simp add: map_update list_update_same_conv)
    with consumed r e assms(5,6) show ?thesis
      by (auto simp: audited_ok_def origins_ok_def put_request_def simp del: map_update
          dest!: subsetD [OF set_update_subset_insert])
  next
    case draining
    with assms(5,6) show ?thesis
      by (auto simp: audited_ok_def origins_ok_def begin_drain_def gate_begin_drain_def)
  next
    case (waiting w)
    with assms(5,6) show ?thesis by (simp add: audited_ok_def origins_ok_def wait_for_idle_def)
  qed
qed

lemma reachable_audited:
  assumes "gateway_reachable decides parse_url origin_of g s" "gateway_ok g" "requests_ok [] g" "0 < gw_maxRequestBodyBytes g"
    and "\<And>pr d. decides pr (Inr (Denied d)) \<Longrightarrow> denial_ok d" "gw_audit g = []"
  shows "audited_ok s"
proof -
  from assms(1) have "audited_ok s \<and> origins_ok s"
  proof (induction rule: gateway_reachable.induct)
    case start
    with assms(6) show ?case by (simp add: audited_ok_def origins_ok_def)
  next
    case (step s s')
    have "0 < gw_maxRequestBodyBytes (gs_gateway s)"
      using reachable_limits [OF step.hyps(1) assms(2,3)] assms(4) by (simp add: limits_def)
    with step reachable_no_leaks [OF step.hyps(1) assms(2,3)] assms(5) show ?case
      using step_audited [OF step.hyps(2)] by blast
  qed
  then show ?thesis by simp
qed

lemma new_gateway_settings:
  "new_gateway options = Inr g \<Longrightarrow> 0 < gw_maxRequestBodyBytes g \<and> gw_audit g = [] \<and> gw_audited g = go_audited options"
  by (auto simp: new_gateway_def Let_def bind_result_Inr is_safe_integer_iff num_def split: if_splits)

lemma sent_in_reachable:
  assumes "new_gateway options = Inr g" "gateway_reachable decides parse_url origin_of g s"
    and "go_metrics options = None \<or> go_metrics options = Some (new_metrics now)"
    and "(pr, route, up) \<in> set (gs_sent s)"
  shows "sent_as decides parse_url (gw_maxRequestBodyBytes g) pr route up"
proof -
  have new: "gateway_ok g" "requests_ok [] g"
    using new_gateway_ok [OF assms(1), of now] assms(3) by (auto simp: same_gauges_def)
  have "sent_ok decides parse_url s"
    using reachable_sent_ok [OF assms(2) new] new_gateway_settings [OF assms(1)] by simp
  then show ?thesis using assms(4) reachable_limits [OF assms(2) new] by (auto simp: sent_ok_def limits_def)
qed

lemma map_filter_mset:
  "filter_mset (\<lambda>k. k \<noteq> None) (mset (map f xs)) = image_mset Some (mset (List.map_filter f xs))"
  by (induction xs) (auto simp: List.map_filter_def)

text \<open>C2: Forwarding needs a decision. Every request that reaches an upstream was allowed by the
  evaluator, on the route it is sent on, exactly as it is sent: to that route's upstream, with the
  method, path and query, headers and client the evaluator was shown, and with a body within the
  limit whose decoding is the text it inspected. Denied requests and failed evaluations reach no
  upstream, however requests interleave.\<close>

theorem forwarded_was_allowed:
  assumes "new_gateway options = Inr g" "gateway_reachable decides parse_url origin_of g s"
    and "go_metrics options = None \<or> go_metrics options = Some (new_metrics now)"
    and "(pr, route, up) \<in> set (gs_sent s)"
  shows "(\<exists>a. decides pr (Inr (Allowed a)) \<and> al_route a = Some route)
     \<and> build_upstream_url parse_url (cr_upstream route) (pr_url pr) = Inr (up_url up)
     \<and> up_method up = pr_method pr
     \<and> (\<exists>i. up_headers up = create_upstream_headers (pr_headers pr) (pr_url pr) (pr_clientIp pr) (Some i))
     \<and> map_option text_decode (up_body up) = pr_body pr
     \<and> (case up_body up of None \<Rightarrow> True | Some bs \<Rightarrow> int (length bs) \<le> gw_maxRequestBodyBytes g)"
  using sent_in_reachable [OF assms] by (simp add: sent_as_def)

text \<open>C14: Every answer is audited, once. With an audit log, the records are, up to order, exactly the
  requests that have been answered, each with its id, method, path and the status answered; only a
  request its client aborted, which is answered with nothing, leaves no record.\<close>

theorem answers_audited:
  assumes "new_gateway options = Inr g" "gateway_reachable decides parse_url origin_of g s"
    and "go_metrics options = None \<or> go_metrics options = Some (new_metrics now)" "go_audited options"
    and "\<And>pr d. decides pr (Inr (Denied d)) \<Longrightarrow> denial_ok d"
  shows "mset (map audit_key (gw_audit (gs_gateway s)))
     = mset (List.map_filter answered (gs_requests s))"
proof -
  have new: "gateway_ok g" "requests_ok [] g"
    using new_gateway_ok [OF assms(1), of now] assms(3) by (auto simp: same_gauges_def)
  note set = new_gateway_settings [OF assms(1)]
  have "audited_ok s" using reachable_audited [OF assms(2) new] assms(5) set by blast
  moreover have "gw_audited (gs_gateway s)"
    using reachable_limits [OF assms(2) new] set assms(4) by (simp add: limits_def)
  ultimately have "image_mset Some (mset (map audit_key (gw_audit (gs_gateway s))))
      = filter_mset (\<lambda>k. k \<noteq> None) (mset (map answered (gs_requests s)))"
    by (simp add: audited_ok_def del: mset_map)
  also have "\<dots> = image_mset Some (mset (List.map_filter answered (gs_requests s)))"
    by (rule map_filter_mset)
  finally have "image_mset the (image_mset Some (mset (map audit_key (gw_audit (gs_gateway s)))))
      = image_mset the (image_mset Some (mset (List.map_filter answered (gs_requests s))))" by (rule arg_cong)
  then show ?thesis by (simp add: image_mset.compositionality comp_def)
qed

section \<open>Witnesses\<close>

text \<open>A gateway with every default, an audit log and metrics; one request is evaluated and forwarded.\<close>

definition demo_options :: gateway_options where
  "demo_options = \<lparr>go_maxRequestBodyBytes = None, go_upstreamTimeoutMs = None, go_maxInFlightRequests = None,
     go_circuitFailureThreshold = None, go_circuitOpenDurationMs = None, go_circuitMaximumUpstreams = None,
     go_audited = True, go_metrics = Some (new_metrics (num 0))\<rparr>"

definition demo_gateway :: gateway where
  "demo_gateway = \<lparr>gw_maxRequestBodyBytes = 1048576, gw_upstreamTimeoutMs = 10000, gw_audited = True,
     gw_gate = \<lparr>ag_maximum = 1024, ag_active = 0, ag_accepting = True, ag_idleWaiters = [], ag_resolved = [], ag_released = []\<rparr>,
     gw_breaker = \<lparr>bs_breaker = \<lparr>cb_failureThreshold = 5, cb_openDurationMs = 30000, cb_maximumUpstreams = 1024,
        cb_circuits = [], cb_transitions = []\<rparr>, bs_permits = []\<rparr>,
     gw_metrics = Some (new_metrics (num 0)), gw_audit = []\<rparr>"

lemma safe_num: "is_safe_integer (num n) \<longleftrightarrow> \<bar>n\<bar> \<le> max_safe"
  by (auto simp: is_safe_integer_iff num_def)

lemma demo_gateway_new: "new_gateway demo_options = Inr demo_gateway"
  by (simp add: new_gateway_def demo_options_def demo_gateway_def or_default_def Let_def new_admission_gate_def
      new_circuit_breaker_def validate_positive_integer_def safe_num max_safe_def
      default_max_request_body_bytes_def default_upstream_timeout_ms_def default_max_in_flight_requests_def
      default_failure_threshold_def default_open_duration_ms_def default_maximum_upstreams_def)

definition demo_info :: request_info where
  "demo_info = \<lparr>ri_request = \<lparr>req_method = js ''GET'', req_url = demo_incoming_url, req_headers = [], req_body = None\<rparr>,
     ri_clientIp = None, ri_requestId = js ''id'', ri_startedAt = num 0\<rparr>"

definition demo_moment :: moment where "demo_moment = \<lparr>mo_now = num 1, mo_version = None, mo_clock = 0\<rparr>"

definition demo_decides :: "policy_request \<Rightarrow> unit policy_decision result \<Rightarrow> bool" where
  "demo_decides pr r \<longleftrightarrow> r = Inr (Allowed \<lparr>al_route = Some demo_route, al_jwt = None, al_rateLimit = None, al_wafMatches = []\<rparr>)"

text \<open>A GET that the evaluator allows reaches the upstream of its route.\<close>

lemma demo_forwards:
  assumes "req_method (ri_request ri) = js ''GET''" "req_body (ri_request ri) = None"
    and "decides (policy_request_of ri \<lparr>bb_bytes = None, bb_text = None\<rparr>) (Inr (Allowed a))" "al_route a = Some route"
    and "build_upstream_url parse_url (cr_upstream route) (req_url (ri_request ri)) = Inr target"
  shows "\<exists>s up. gateway_reachable decides parse_url origin_of demo_gateway s
     \<and> (policy_request_of ri \<lparr>bb_bytes = None, bb_text = None\<rparr>, route, up) \<in> set (gs_sent s)
     \<and> length (filter (\<lambda>rq. in_progress (rq_phase rq)) (gs_requests s)) = 1"
proof -
  let ?body = "\<lparr>bb_bytes = None, bb_text = None\<rparr>" and ?s0 = "\<lparr>gs_gateway = demo_gateway, gs_requests = [], gs_sent = []\<rparr>"
  let ?pr = "policy_request_of ri ?body"
  obtain g1 where g1: "arrive ri demo_moment demo_gateway = (Inr 0, g1)" "gw_maxRequestBodyBytes g1 = 1048576"
    "gw_breaker g1 = gw_breaker demo_gateway" "gw_upstreamTimeoutMs g1 = 10000"
    by (simp add: arrive_def try_acquire_def demo_gateway_def measure_gateway_def)
  define rq where "rq = \<lparr>rq_info = ri, rq_ticket = Some 0, rq_released = False, rq_phase = ReadingBody\<rparr>"
  define s1 where "s1 = \<lparr>gs_gateway = g1, gs_requests = [rq], gs_sent = []\<rparr>"
  have "gateway_step decides parse_url origin_of ?s0 (?s0\<lparr>gs_gateway := g1, gs_requests := gs_requests ?s0 @
          [\<lparr>rq_info = ri, rq_ticket = Some 0, rq_released = False, rq_phase = ReadingBody\<rparr>]\<rparr>)"
    by (rule gateway_step.admitted) (use g1 assms(2) in \<open>simp_all add: own_failure_only_def\<close>)
  then have r1: "gateway_reachable decides parse_url origin_of demo_gateway s1"
    using gateway_reachable.step [OF gateway_reachable.start] by (simp add: s1_def rq_def)
  have u: "to_upper (js ''GET'') = js ''GET''" by code_simp
  have b: "after_body ri demo_moment g1 = (Inr (Evaluating ?body ?pr), g1)"
    by (simp add: after_body_def read_request_body_def assms(1) u)
  define s2 where "s2 = \<lparr>gs_gateway = g1, gs_requests = [rq\<lparr>rq_phase := Evaluating ?body ?pr\<rparr>], gs_sent = []\<rparr>"
  have "gateway_step decides parse_url origin_of s1 (put_request 0 (conclude (after_body (rq_info rq) demo_moment (gs_gateway s1)) rq) s1)"
    by (rule gateway_step.body_read) (simp_all add: s1_def rq_def)
  then have r2: "gateway_reachable decides parse_url origin_of demo_gateway s2"
    using gateway_reachable.step [OF r1] b by (simp add: s1_def s2_def rq_def put_request_def conclude_def)
  obtain key bs where q: "acquire_permit origin_of (cr_upstream route) 0 (gw_breaker g1) = (Permit key False, bs)"
    by (simp add: g1 demo_gateway_def breaker_run_defs Let_def upstream_origin_def fresh_circuit_def insert_circuit_def)
  define px where "px = proxy_input_of ri route ?body g1"
  define st where "st = (Inr (Forwarding route 0 px) :: stretch)"
  have d: "after_decision origin_of ri demo_moment ?body (Inr (Allowed a)) g1 = (st, with_breaker bs g1)"
    using assms(4) q by (simp add: after_decision_def demo_moment_def st_def px_def g1(3)) (simp add: demo_gateway_def)
  obtain up where up: "dispatched parse_url px = Some up"
    using assms(5) by (simp add: dispatched_def proxy_to_upstream_def px_def proxy_input_of_def Let_def g1 safe_num max_safe_def)
  define s3 where "s3 = \<lparr>gs_gateway = with_breaker bs g1, gs_requests = [rq\<lparr>rq_phase := Forwarding route 0 px\<rparr>],
      gs_sent = [(?pr, route, up)]\<rparr>"
  have "gateway_step decides parse_url origin_of s2 (put_request 0 (conclude (st, with_breaker bs g1) (gs_requests s2 ! 0))
          (s2\<lparr>gs_sent := gs_sent s2 @
             (case st of
                Inr (Forwarding route permit px) \<Rightarrow>
                  (case dispatched parse_url px of None \<Rightarrow> [] | Some up \<Rightarrow> [(?pr, route, up)])
              | _ \<Rightarrow> [])\<rparr>))"
    by (rule gateway_step.decided [where body = ?body and decision = "Inr (Allowed a)" and mo = demo_moment])
      (use assms(3) d in \<open>simp_all add: s2_def rq_def\<close>)
  then have "gateway_reachable decides parse_url origin_of demo_gateway s3"
    using gateway_reachable.step [OF r2] up by (simp add: s2_def s3_def st_def rq_def put_request_def conclude_def)
  then show ?thesis by (intro exI [of _ s3] exI [of _ up]) (simp add: s3_def rq_def)
qed

lemma demo_gateway_run:
  "\<exists>s pr route up. gateway_reachable demo_decides (\<lambda>s. Some demo_base_url) (\<lambda>u. None) demo_gateway s
     \<and> (pr, route, up) \<in> set (gs_sent s) \<and> length (filter (\<lambda>rq. in_progress (rq_phase rq)) (gs_requests s)) = 1"
proof -
  have "build_upstream_url (\<lambda>s. Some demo_base_url) (cr_upstream demo_route) demo_incoming_url = Inr demo_target_url"
    using demo_build by (simp add: build_upstream_url_def)
  then show ?thesis using demo_forwards [of demo_info demo_decides] by (fastforce simp: demo_info_def demo_decides_def)
qed

theorem gateway_no_leak_witness:
  "\<exists>s. gateway_reachable demo_decides (\<lambda>s. Some demo_base_url) (\<lambda>u. None) demo_gateway s
     \<and> ag_active (gw_gate (gs_gateway s)) = 1"
proof -
  obtain s where s: "gateway_reachable demo_decides (\<lambda>s. Some demo_base_url) (\<lambda>u. None) demo_gateway s"
    "length (filter (\<lambda>rq. in_progress (rq_phase rq)) (gs_requests s)) = 1"
    using demo_gateway_run by blast
  with gateway_no_leak [OF demo_gateway_new s(1), of "num 0"] show ?thesis by (auto simp: demo_options_def)
qed

theorem forwarded_was_allowed_witness:
  "\<exists>s pr route up. gateway_reachable demo_decides (\<lambda>s. Some demo_base_url) (\<lambda>u. None) demo_gateway s
     \<and> (pr, route, up) \<in> set (gs_sent s) \<and> (\<exists>a. demo_decides pr (Inr (Allowed a)) \<and> al_route a = Some route)"
proof -
  obtain s pr route up where s: "gateway_reachable demo_decides (\<lambda>s. Some demo_base_url) (\<lambda>u. None) demo_gateway s"
    "(pr, route, up) \<in> set (gs_sent s)"
    using demo_gateway_run by blast
  with forwarded_was_allowed [OF demo_gateway_new s(1) _ s(2), of "num 0"] show ?thesis
    by (force simp: demo_options_def)
qed

theorem answers_audited_witness:
  "\<exists>s. gateway_reachable demo_decides (\<lambda>s. Some demo_base_url) (\<lambda>u. None) demo_gateway s
     \<and> gw_audit (gs_gateway s) \<noteq> []
     \<and> mset (map audit_key (gw_audit (gs_gateway s))) = mset (List.map_filter answered (gs_requests s))"
proof -
  let ?s0 = "\<lparr>gs_gateway = demo_gateway, gs_requests = [], gs_sent = []\<rparr>"
  let ?s1 = "?s0\<lparr>gs_gateway := begin_drain (gs_gateway ?s0)\<rparr>"
  have r1: "gateway_reachable demo_decides (\<lambda>s. Some demo_base_url) (\<lambda>u. None) demo_gateway ?s1"
    by (rule gateway_reachable.step [OF gateway_reachable.start gateway_step.draining])
  have "\<not> ag_accepting (gw_gate (begin_drain demo_gateway))" "gw_audited (begin_drain demo_gateway)"
    by (simp_all add: begin_drain_def gate_begin_drain_def demo_gateway_def measure_gateway_def)
  then obtain response g where a: "arrive demo_info demo_moment (gs_gateway ?s1) = (Inl response, g)" "gw_audit g \<noteq> []"
    by (simp add: arrive_def try_acquire_def complete_def Let_def)
  define s2 where "s2 = ?s1\<lparr>gs_gateway := g, gs_requests := gs_requests ?s1 @
      [\<lparr>rq_info = demo_info, rq_ticket = None, rq_released = True, rq_phase = Settled (Inr response)\<rparr>]\<rparr>"
  have r2: "gateway_reachable demo_decides (\<lambda>s. Some demo_base_url) (\<lambda>u. None) demo_gateway s2"
    unfolding s2_def by (rule gateway_reachable.step [OF r1 gateway_step.refused [OF a(1)]])
  have "gw_audit (gs_gateway s2) \<noteq> []" using a(2) by (simp add: s2_def)
  with r2 answers_audited [OF demo_gateway_new r2, of "num 0"] show ?thesis
    by (auto simp: demo_options_def demo_decides_def)
qed

end
