(* ===== verification/Sse.thy ===== *)
theory Sse imports JsString Utf8 begin

text \<open>
  The decoder of server-sent events (\<open>edge/src/sse.ts\<close>): a buffer that is cut into lines at LF, CR
  LF or CR, and the event that the lines are building.
\<close>

section \<open>Operations\<close>

record sse_event =
  ev_event :: ustr
  ev_data :: ustr

record sse_decoder =
  sd_buffer :: ustr
  sd_eventType :: ustr
  sd_dataLines :: "ustr list"

definition new_sse_decoder :: sse_decoder where
  "new_sse_decoder = \<lparr>sd_buffer = [], sd_eventType = [], sd_dataLines = []\<rparr>"

text \<open>\<open>findLineEnding\<close>: index and length. A CR at the end of the buffer may be half of CR LF, and waits.\<close>

fun find_line_ending :: "ustr \<Rightarrow> (nat \<times> nat) option" where
  "find_line_ending [] = None"
| "find_line_ending (character # rest) =
     (if character = 10 then Some (0, 1)
      else if character = 13 then
        (case rest of [] \<Rightarrow> None | next_character # _ \<Rightarrow> Some (0, if next_character = 10 then 2 else 1))
      else map_option (\<lambda>(index, len). (Suc index, len)) (find_line_ending rest))"

definition dispatch :: "sse_decoder \<Rightarrow> sse_event list \<times> sse_decoder" where
  "dispatch d =
     (if sd_dataLines d = [] then ([], d\<lparr>sd_eventType := []\<rparr>)
      else ([\<lparr>ev_event = (if sd_eventType d = [] then js ''message'' else sd_eventType d),
              ev_data = join_with [10] (sd_dataLines d)\<rparr>],
            d\<lparr>sd_eventType := [], sd_dataLines := []\<rparr>))"

definition process_line :: "ustr \<Rightarrow> sse_decoder \<Rightarrow> sse_event list \<times> sse_decoder" where
  "process_line line d =
     (if line = [] then dispatch d
      else if starts_with (js '':'') line then ([], d)
      else
        (let colon = takeWhile (\<lambda>c. c \<noteq> 58) line;
             field = colon;
             v = (if colon = line then [] else drop (Suc (length colon)) line);
             v = (if starts_with (js '' '') v then drop 1 v else v) in
         if field = js ''event'' then ([], d\<lparr>sd_eventType := v\<rparr>)
         else if field = js ''data'' then ([], d\<lparr>sd_dataLines := sd_dataLines d @ [v]\<rparr>)
         else ([], d)))"

lemma line_ending_bound: "find_line_ending s = Some (i, n) \<Longrightarrow> i + n \<le> length s \<and> 0 < n"
  by (induction s arbitrary: i rule: find_line_ending.induct) (auto split: if_splits list.splits)

lemma line_ending_in: "find_line_ending s = Some (i, n) \<Longrightarrow> i < length s"
  using line_ending_bound by fastforce

lemma process_line_buffer [simp]: "sd_buffer (snd (process_line line d)) = sd_buffer d"
  by (simp add: process_line_def dispatch_def Let_def)

text \<open>The loop of \<open>push\<close> over the lines of the buffer; it ends since every line takes some of it.\<close>

function take_lines :: "sse_decoder \<Rightarrow> sse_event list \<times> sse_decoder" where
  "take_lines d =
     (case find_line_ending (sd_buffer d) of
        None \<Rightarrow> ([], d)
      | Some (index, len) \<Rightarrow>
          (let processed = process_line (take index (sd_buffer d)) (d\<lparr>sd_buffer := drop (index + len) (sd_buffer d)\<rparr>);
               more = take_lines (snd processed) in
           (fst processed @ fst more, snd more)))"
  by pat_completeness auto

termination
proof (relation "measure (length \<circ> sd_buffer)")
  fix d a index len processed
  assume "find_line_ending (sd_buffer d) = Some a" "(index, len) = a"
    and "processed = process_line (take index (sd_buffer d)) (d\<lparr>sd_buffer := drop (index + len) (sd_buffer d)\<rparr>)"
  then show "(snd processed, d) \<in> measure (length \<circ> sd_buffer)"
    using line_ending_bound [of "sd_buffer d" index len] by auto
qed simp

declare take_lines.simps [simp del]

definition sse_push :: "sse_decoder \<Rightarrow> ustr \<Rightarrow> sse_event list \<times> sse_decoder" where
  "sse_push d chunk = take_lines (d\<lparr>sd_buffer := sd_buffer d @ chunk\<rparr>)"

definition sse_finish :: "sse_decoder \<Rightarrow> sse_decoder" where
  "sse_finish d = d\<lparr>sd_buffer := [], sd_eventType := [], sd_dataLines := []\<rparr>"

section \<open>Chunks do not show\<close>

lemma line_ending_append: "find_line_ending a = Some (i, n) \<Longrightarrow> find_line_ending (a @ b) = Some (i, n)"
  by (induction a arbitrary: i rule: find_line_ending.induct) (auto split: if_splits list.splits)

lemma process_line_with_buffer:
  "process_line line (d\<lparr>sd_buffer := x\<rparr>) = (fst (process_line line d), (snd (process_line line d))\<lparr>sd_buffer := x\<rparr>)"
  by (simp add: process_line_def dispatch_def Let_def)

text \<open>No line is left in the buffer between two calls.\<close>

definition sse_ready :: "sse_decoder \<Rightarrow> bool" where
  "sse_ready d \<longleftrightarrow> find_line_ending (sd_buffer d) = None"

lemma take_lines_idle: "sse_ready d \<Longrightarrow> take_lines d = ([], d)"
  by (simp add: sse_ready_def take_lines.simps)

lemma take_lines_line:
  assumes "find_line_ending (sd_buffer d) = Some (i, n)"
  shows "take_lines d =
     (fst (process_line (take i (sd_buffer d)) d)
        @ fst (take_lines ((snd (process_line (take i (sd_buffer d)) d))\<lparr>sd_buffer := drop (i + n) (sd_buffer d)\<rparr>)),
      snd (take_lines ((snd (process_line (take i (sd_buffer d)) d))\<lparr>sd_buffer := drop (i + n) (sd_buffer d)\<rparr>)))"
  by (subst take_lines.simps) (simp add: assms process_line_with_buffer Let_def)

lemma take_lines_ready: "sse_ready (snd (take_lines d))"
proof (induction d rule: take_lines.induct)
  case (1 d)
  show ?case
  proof (cases "find_line_ending (sd_buffer d)")
    case None
    then show ?thesis by (simp add: take_lines_idle sse_ready_def)
  next
    case (Some a)
    obtain i n where a: "a = (i, n)" by (rule prod.exhaust)
    from "1.IH" [OF Some a [symmetric] refl] show ?thesis
      by (simp add: take_lines_line [OF Some [unfolded a]] process_line_with_buffer)
  qed
qed

lemma take_lines_append:
  "take_lines (d\<lparr>sd_buffer := sd_buffer d @ b\<rparr>) =
     (let r = take_lines d; more = take_lines ((snd r)\<lparr>sd_buffer := sd_buffer (snd r) @ b\<rparr>) in
      (fst r @ fst more, snd more))"
proof (induction d rule: take_lines.induct)
  case (1 d)
  show ?case
  proof (cases "find_line_ending (sd_buffer d)")
    case None
    then show ?thesis by (simp add: take_lines_idle sse_ready_def)
  next
    case (Some a)
    obtain i n where a: "a = (i, n)" by (rule prod.exhaust)
    note line = Some [unfolded a]
    have bound: "i + n \<le> length (sd_buffer d)" using line_ending_bound [OF line] by simp
    define d1 where "d1 = (snd (process_line (take i (sd_buffer d)) d))\<lparr>sd_buffer := drop (i + n) (sd_buffer d)\<rparr>"
    have IH: "take_lines (d1\<lparr>sd_buffer := sd_buffer d1 @ b\<rparr>) =
       (let r = take_lines d1; more = take_lines ((snd r)\<lparr>sd_buffer := sd_buffer (snd r) @ b\<rparr>) in
        (fst r @ fst more, snd more))"
      using "1.IH" [OF Some a [symmetric] refl] by (simp add: process_line_with_buffer d1_def)
    have line': "find_line_ending (sd_buffer (d\<lparr>sd_buffer := sd_buffer d @ b\<rparr>)) = Some (i, n)"
      using line_ending_append [OF line] by simp
    have "take_lines (d\<lparr>sd_buffer := sd_buffer d @ b\<rparr>) =
        (fst (process_line (take i (sd_buffer d)) d) @ fst (take_lines (d1\<lparr>sd_buffer := sd_buffer d1 @ b\<rparr>)),
         snd (take_lines (d1\<lparr>sd_buffer := sd_buffer d1 @ b\<rparr>)))"
      unfolding take_lines_line [OF line'] using bound by (simp add: process_line_with_buffer d1_def)
    then show ?thesis using take_lines_line [OF line] by (simp add: IH Let_def flip: d1_def)
  qed
qed

interpretation sse: chunk_decoder sse_ready sse_push
proof
  fix d a b
  assume r: "sse_ready d"
  then show "sse_push d [] = ([], d)" by (simp add: sse_push_def take_lines_idle)
  show "sse_ready (snd (sse_push d a))" by (simp add: sse_push_def take_lines_ready)
  show "sse_push d (a @ b) = (fst (sse_push d a) @ fst (sse_push (snd (sse_push d a)) b), snd (sse_push (snd (sse_push d a)) b))"
    using take_lines_append [of "d\<lparr>sd_buffer := sd_buffer d @ a\<rparr>" b] by (simp add: sse_push_def Let_def)
qed

text \<open>The bytes of the network go through the UTF-8 decoder into the event decoder.\<close>

interpretation stream: decoder_chain "\<lambda>_. True" decode_stream sse_ready sse_push ..

section \<open>Reading what was published\<close>

text \<open>The text of an event, and of a comment, as a server writes them.\<close>

datatype stream_item = EventItem sse_event | CommentItem ustr

fun item_text :: "stream_item \<Rightarrow> ustr" where
  "item_text (EventItem e) = js ''event: '' @ ev_event e @ [10]
     @ concat (map (\<lambda>l. js ''data: '' @ l @ [10]) (split_at 10 (ev_data e))) @ [10]"
| "item_text (CommentItem c) = 58 # c @ [10, 10]"

fun item_ok :: "stream_item \<Rightarrow> bool" where
  "item_ok (EventItem e) \<longleftrightarrow> ev_event e \<noteq> [] \<and> 10 \<notin> set (ev_event e) \<and> 13 \<notin> set (ev_event e) \<and> 13 \<notin> set (ev_data e)"
| "item_ok (CommentItem c) \<longleftrightarrow> 10 \<notin> set c \<and> 13 \<notin> set c"

fun item_events :: "stream_item \<Rightarrow> sse_event list" where
  "item_events (EventItem e) = [e]"
| "item_events (CommentItem c) = []"

text \<open>
  The same items as lines, each of which ends in LF, CR or CR LF. A line that ends in CR must not be
  followed by an empty line that ends in LF: the two endings would be one CR LF.
\<close>

datatype line_ending = LF | CR | CRLF

fun ending_text :: "line_ending \<Rightarrow> ustr" where
  "ending_text LF = [10]"
| "ending_text CR = [13]"
| "ending_text CRLF = [13, 10]"

type_synonym ended_line = "ustr \<times> line_ending"

fun item_lines :: "stream_item \<Rightarrow> ustr list" where
  "item_lines (EventItem e) = (js ''event: '' @ ev_event e) # map (\<lambda>l. js ''data: '' @ l) (split_at 10 (ev_data e)) @ [[]]"
| "item_lines (CommentItem c) = [58 # c, []]"

definition lines_text :: "ended_line list \<Rightarrow> ustr" where
  "lines_text ls = concat (map (\<lambda>(line, e). line @ ending_text e) ls)"

fun endings_ok :: "ended_line list \<Rightarrow> bool" where
  "endings_ok ((_, CR) # (line, e) # ls) \<longleftrightarrow> (line \<noteq> [] \<or> e \<noteq> LF) \<and> endings_ok ((line, e) # ls)"
| "endings_ok (_ # ls) = endings_ok ls"
| "endings_ok [] = True"

text \<open>A stream whose last line ends in CR so far: its LF may still come.\<close>

definition pending_cr :: "ended_line list \<Rightarrow> bool" where
  "pending_cr ls \<longleftrightarrow> ls \<noteq> [] \<and> snd (last ls) = CR"

lemma lines_text_simps [simp]:
  "lines_text [] = []" "lines_text (l # ls) = fst l @ ending_text (snd l) @ lines_text ls"
  by (simp_all add: lines_text_def case_prod_beta)

lemma item_text_lines: "item_text i = lines_text (map (\<lambda>l. (l, LF)) (item_lines i))"
  by (cases i) (simp_all add: lines_text_def o_def)

lemma endings_ok_LF: "endings_ok (map (\<lambda>l. (l, LF)) ls)"
  by (induction ls) simp_all

text \<open>What lines do to the decoder, one after the other.\<close>

fun feed_lines :: "ustr list \<Rightarrow> sse_decoder \<Rightarrow> sse_event list \<times> sse_decoder" where
  "feed_lines [] d = ([], d)"
| "feed_lines (line # ls) d =
     (let one = process_line line d; more = feed_lines ls (snd one) in (fst one @ fst more, snd more))"

lemma feed_lines_append:
  "feed_lines (ls @ ms) d = (let one = feed_lines ls d; more = feed_lines ms (snd one) in (fst one @ fst more, snd more))"
  by (induction ls arbitrary: d) (simp_all add: Let_def)

lemma feed_lines_buffer:
  "feed_lines ls (d\<lparr>sd_buffer := x\<rparr>) = (fst (feed_lines ls d), (snd (feed_lines ls d))\<lparr>sd_buffer := x\<rparr>)"
proof (induction ls arbitrary: d)
  case (Cons l ls)
  show ?case using Cons.IH [of "snd (process_line l d)"] process_line_with_buffer [where line = l and d = d and x = x] by (simp add: Let_def)
qed simp

text \<open>Where a line ends, whatever its ending, once the text after a CR has begun.\<close>

definition clean_line :: "ustr \<Rightarrow> bool" where
  "clean_line line \<longleftrightarrow> 10 \<notin> set line \<and> 13 \<notin> set line"

lemma find_line:
  assumes "clean_line line" "e = CR \<Longrightarrow> rest \<noteq> [] \<and> hd rest \<noteq> 10"
  shows "find_line_ending (line @ ending_text e @ rest) = Some (length line, length (ending_text e))"
  using assms
proof (induction line)
  case Nil
  then show ?case by (cases e; cases rest) auto
qed (simp add: clean_line_def)

lemma find_line_pending: "clean_line line \<Longrightarrow> find_line_ending (line @ [13]) = None"
  by (induction line) (auto simp: clean_line_def)

lemma take_line:
  assumes "clean_line line" "e = CR \<Longrightarrow> rest \<noteq> [] \<and> hd rest \<noteq> 10"
  shows "take_lines (d\<lparr>sd_buffer := line @ ending_text e @ rest\<rparr>)
     = (fst (process_line line d) @ fst (take_lines ((snd (process_line line d))\<lparr>sd_buffer := rest\<rparr>)),
        snd (take_lines ((snd (process_line line d))\<lparr>sd_buffer := rest\<rparr>)))"
proof -
  have f: "find_line_ending (sd_buffer (d\<lparr>sd_buffer := line @ ending_text e @ rest\<rparr>)) = Some (length line, length (ending_text e))"
    using find_line [OF assms] by simp
  show ?thesis unfolding take_lines_line [OF f] by (simp add: process_line_with_buffer)
qed

text \<open>Lines are processed in order; the last one waits while its CR may be half of CR LF.\<close>

lemma lines_text_head:
  assumes "ls \<noteq> []" "list_all (\<lambda>l. clean_line (fst l)) ls" "fst (hd ls) \<noteq> [] \<or> snd (hd ls) \<noteq> LF"
  shows "lines_text ls \<noteq> [] \<and> hd (lines_text ls) \<noteq> 10"
proof (cases ls)
  case (Cons l more)
  obtain line e where "l = (line, e)" by (rule prod.exhaust)
  with assms Cons show ?thesis by (cases line; cases e) (auto simp: clean_line_def)
qed (use assms(1) in simp)

lemma take_written:
  assumes "list_all (\<lambda>l. clean_line (fst l)) ls" "endings_ok ls"
  shows "take_lines (d\<lparr>sd_buffer := lines_text ls\<rparr>) =
     (if pending_cr ls
      then (fst (feed_lines (map fst (butlast ls)) d),
            (snd (feed_lines (map fst (butlast ls)) d))\<lparr>sd_buffer := fst (last ls) @ [13]\<rparr>)
      else (fst (feed_lines (map fst ls) d), (snd (feed_lines (map fst ls) d))\<lparr>sd_buffer := []\<rparr>))"
  using assms
proof (induction ls arbitrary: d)
  case Nil
  then show ?case by (simp add: take_lines_idle sse_ready_def pending_cr_def)
next
  case (Cons l ls)
  obtain line e where l: "l = (line, e)" by (rule prod.exhaust)
  show ?case
  proof (cases "ls = [] \<and> e = CR")
    case True
    with Cons.prems(1) l have "sse_ready (d\<lparr>sd_buffer := line @ [13]\<rparr>)" by (simp add: sse_ready_def find_line_pending)
    with True l show ?thesis by (simp add: take_lines_idle pending_cr_def)
  next
    case False
    have ok: "endings_ok ls" using Cons.prems(2) by (cases e; cases ls) (auto simp: l)
    have "lines_text ls \<noteq> [] \<and> hd (lines_text ls) \<noteq> 10" if "e = CR"
      using that False Cons.prems lines_text_head [of ls] by (cases ls) (auto simp: l)
    from take_line [of line e "lines_text ls" d, OF _ this] Cons.prems(1)
    have step: "take_lines (d\<lparr>sd_buffer := lines_text (l # ls)\<rparr>)
       = (fst (process_line line d) @ fst (take_lines ((snd (process_line line d))\<lparr>sd_buffer := lines_text ls\<rparr>)),
          snd (take_lines ((snd (process_line line d))\<lparr>sd_buffer := lines_text ls\<rparr>)))"
      by (simp add: l)
    have "pending_cr (l # ls) = pending_cr ls" using False by (cases ls) (auto simp: pending_cr_def l)
    then show ?thesis using step Cons.IH [OF _ ok, of "snd (process_line line d)"] Cons.prems(1)
      by (auto simp: l Let_def pending_cr_def)
  qed
qed

definition open_event :: "ustr \<Rightarrow> ustr list \<Rightarrow> ustr \<Rightarrow> sse_decoder" where
  "open_event kind ls buffer = \<lparr>sd_buffer = buffer, sd_eventType = kind, sd_dataLines = ls\<rparr>"

lemma open_event_buffer [simp]: "(open_event kind ls b)\<lparr>sd_buffer := b'\<rparr> = open_event kind ls b'"
  by (simp add: open_event_def)

lemma process_event_line: "process_line (js ''event: '' @ name) (open_event kind ls b) = ([], open_event name ls b)"
  by (simp add: process_line_def js_def starts_with_def open_event_def Let_def)

lemma process_data_line: "process_line (js ''data: '' @ l) (open_event kind ls b) = ([], open_event kind (ls @ [l]) b)"
  by (simp add: process_line_def js_def starts_with_def open_event_def Let_def)

lemma feed_data_lines:
  "feed_lines (map (\<lambda>l. js ''data: '' @ l) ds) (open_event kind ls b) = ([], open_event kind (ls @ ds) b)"
  by (induction ds arbitrary: ls) (simp_all add: process_data_line)

lemma feed_item:
  assumes "item_ok i"
  shows "feed_lines (item_lines i) (open_event [] [] b) = (item_events i, open_event [] [] b)"
proof (cases i)
  case (EventItem e)
  have "process_line [] (open_event (ev_event e) (split_at 10 (ev_data e)) b) = ([e], open_event [] [] b)"
    using assms EventItem by (simp add: process_line_def dispatch_def open_event_def join_split)
  then show ?thesis
    by (simp add: EventItem process_event_line feed_lines_append feed_data_lines)
next
  case (CommentItem c)
  then show ?thesis by (simp add: process_line_def dispatch_def open_event_def starts_with_def js_def)
qed

lemma feed_items:
  "list_all item_ok items \<Longrightarrow>
     feed_lines (concat (map item_lines items)) (open_event [] [] b) = (concat (map item_events items), open_event [] [] b)"
  by (induction items) (simp_all add: feed_lines_append feed_item)

text \<open>Without its last line, which is empty, the last item has dispatched nothing.\<close>

lemma item_lines_last [simp]: "item_lines i \<noteq> []" "last (item_lines i) = []"
  by (cases i; simp)+

lemma feed_item_unfinished:
  assumes "item_ok i"
  shows "fst (feed_lines (butlast (item_lines i)) (open_event [] [] b)) = []"
proof (cases i)
  case (EventItem e)
  then have "butlast (item_lines i) = (js ''event: '' @ ev_event e) # map (\<lambda>l. js ''data: '' @ l) (split_at 10 (ev_data e))"
    by (simp add: butlast_append)
  then show ?thesis by (simp add: process_event_line feed_data_lines)
next
  case (CommentItem c)
  then show ?thesis by (simp add: process_line_def starts_with_def js_def)
qed

lemma feed_items_unfinished:
  assumes "list_all item_ok items" "items \<noteq> []"
  shows "fst (feed_lines (butlast (concat (map item_lines items))) (open_event [] [] b)) = concat (map item_events (butlast items))"
proof -
  obtain first final where items: "items = first @ [final]" using assms(2) by (metis append_butlast_last_id)
  then have "butlast (concat (map item_lines items)) = concat (map item_lines first) @ butlast (item_lines final)"
    by (simp add: butlast_append)
  with assms(1) items feed_items [of first b] feed_item_unfinished [of final b] show ?thesis
    by (simp add: feed_lines_append)
qed

lemma item_lines_clean: "item_ok i \<Longrightarrow> list_all clean_line (item_lines i)"
proof (cases i)
  case (EventItem e)
  have sub: "w \<in> set (split_at d s) \<Longrightarrow> set w \<subseteq> set s" for w d s
    by (induction d s arbitrary: w rule: split_at.induct) (fastforce split: if_splits list.splits)+
  assume "item_ok i"
  then have "list_all clean_line (split_at 10 (ev_data e))"
    using EventItem split_at_no_sep sub by (fastforce simp: list_all_iff clean_line_def)
  with \<open>item_ok i\<close> EventItem show ?thesis by (auto simp: list_all_iff clean_line_def js_def)
qed (simp add: clean_line_def)

text \<open>The whole of a stream in one piece.\<close>

lemma push_written:
  assumes "list_all item_ok items" "map fst ls = concat (map item_lines items)" "endings_ok ls"
  shows "fst (sse_push new_sse_decoder (lines_text ls))
       = (if pending_cr ls then concat (map item_events (butlast items)) else concat (map item_events items))"
    and "\<not> pending_cr ls \<Longrightarrow> snd (sse_push new_sse_decoder (lines_text ls)) = new_sse_decoder"
proof -
  have new: "new_sse_decoder = open_event [] [] []" by (simp add: new_sse_decoder_def open_event_def)
  have "list_all clean_line (map fst ls)"
    unfolding assms(2) using assms(1) item_lines_clean by (induction items) (auto simp: list_all_iff)
  then have "list_all (\<lambda>l. clean_line (fst l)) ls" by (simp add: list_all_iff)
  note run = take_written [OF this assms(3), of "open_event [] [] []", unfolded assms(2)]
  have "items \<noteq> []" if "pending_cr ls" using that assms(2) by (auto simp: pending_cr_def)
  with run feed_items [OF assms(1), of "[]"] feed_items_unfinished [OF assms(1), of "[]"] assms(2)
  show "fst (sse_push new_sse_decoder (lines_text ls))
       = (if pending_cr ls then concat (map item_events (butlast items)) else concat (map item_events items))"
    by (auto simp: sse_push_def new map_butlast) (simp_all add: open_event_def)
  from run feed_items [OF assms(1), of "[]"]
  show "\<not> pending_cr ls \<Longrightarrow> snd (sse_push new_sse_decoder (lines_text ls)) = new_sse_decoder"
    by (simp add: sse_push_def new) (simp add: open_event_def)
qed

lemma decode_points:
  assumes "well_formed_text s" "s = [] \<or> hd s \<noteq> 65279"
  shows "fst (decode_stream new_utf8_decoder (utf8_encode s)) = s"
    and "decode_flush (snd (decode_stream new_utf8_decoder (utf8_encode s))) = []"
proof -
  have "code_points s = [] \<or> hd (code_points s) \<noteq> 65279"
    using assms hd_code_points by (cases s) auto
  note run = utf8_run_points [OF code_points_scalar [OF well_formed_units [OF assms(1)]], of False, simplified, OF this]
  from run units_of_points [OF assms(1)] show "fst (decode_stream new_utf8_decoder (utf8_encode s)) = s"
    by (simp add: decode_stream_def utf8_encode_def new_utf8_decoder_def)
  from run show "decode_flush (snd (decode_stream new_utf8_decoder (utf8_encode s))) = []"
    by (simp add: decode_stream_def utf8_encode_def new_utf8_decoder_def decode_flush_def)
qed

lemma items_first:
  assumes "map fst ls = concat (map item_lines items)"
  shows "lines_text ls = [] \<or> hd (lines_text ls) \<noteq> 65279"
proof (cases ls)
  case (Cons l more)
  with assms have "concat (map item_lines items) = fst l # map fst more" "items \<noteq> []" by auto
  then have "hd (item_lines (hd items)) = fst l"
    using item_lines_last(1) [of "hd items"] by (cases items; cases "item_lines (hd items)") auto
  then obtain i where "fst l = hd (item_lines i)" by metis
  then show ?thesis by (cases i) (auto simp: Cons js_def)
qed simp

lemma stream_chunks:
  assumes "map fst ls = concat (map item_lines items)" "well_formed_text (lines_text ls)"
    and "concat chunks = utf8_encode (lines_text ls)"
  shows "\<exists>d. push_chunks (push_through decode_stream sse_push) (new_utf8_decoder, new_sse_decoder) chunks
     = (fst (sse_push new_sse_decoder (lines_text ls)), (d, snd (sse_push new_sse_decoder (lines_text ls)))) \<and> decode_flush d = []"
proof -
  have "sse_ready new_sse_decoder" by (simp add: sse_ready_def new_sse_decoder_def)
  then show ?thesis
    using stream.both.push_chunks_concat [of "(new_utf8_decoder, new_sse_decoder)" chunks]
      decode_points [OF assms(2) items_first [OF assms(1)]]
    by (simp add: assms(3) push_through_def case_prod_beta)
qed

lemma stream_read:
  assumes "list_all item_ok items" "well_formed_text (concat (map item_text items))"
    and "concat chunks = utf8_encode (concat (map item_text items))"
  shows "\<exists>d. push_chunks (push_through decode_stream sse_push) (new_utf8_decoder, new_sse_decoder) chunks
     = (concat (map item_events items), (d, new_sse_decoder)) \<and> decode_flush d = []"
proof -
  define ls where "ls = map (\<lambda>l. (l, LF)) (concat (map item_lines items))"
  have ls: "map fst ls = concat (map item_lines items)" "endings_ok ls" "\<not> pending_cr ls"
    using last_in_set [of ls] by (auto simp: ls_def o_def endings_ok_LF pending_cr_def)
  have "lines_text ls = concat (map item_text items)"
    unfolding ls_def by (induction items) (simp_all add: item_text_lines lines_text_def)
  with stream_chunks [OF ls(1), of chunks] push_written [OF assms(1) ls(1,2)] assms(2,3) ls(3) show ?thesis by auto
qed

text \<open>C31: Published events arrive. A stream of events and comments is written with any mixture of LF, CR
  and CR LF at the ends of its lines. However the network cuts its UTF-8 bytes into chunks, inside a
  character or between the CR and the LF of one ending or anywhere else, the two decoders yield exactly
  the events, in their order, with their names and their data, and are ready for the next one; only when
  the stream so far stops at a CR, whose LF may still come, does the last event wait for the next chunk.\<close>

theorem event_stream_exact:
  assumes "list_all item_ok items" "map fst ls = concat (map item_lines items)" "endings_ok ls"
    and "well_formed_text (lines_text ls)" "concat chunks = utf8_encode (lines_text ls)"
  shows "fst (push_chunks (push_through decode_stream sse_push) (new_utf8_decoder, new_sse_decoder) chunks)
       = (if pending_cr ls then concat (map item_events (butlast items)) else concat (map item_events items))
     \<and> (\<not> pending_cr ls \<longrightarrow>
          snd (snd (push_chunks (push_through decode_stream sse_push) (new_utf8_decoder, new_sse_decoder) chunks)) = new_sse_decoder)"
  using stream_chunks [OF assms(2,4,5)] push_written [OF assms(1,2,3)] by auto

definition demo_item :: stream_item where
  "demo_item = EventItem \<lparr>ev_event = js ''bundle'', ev_data = js ''x''\<rparr>"

text \<open>The event with a CR LF, a CR and a CR LF; the chunks end inside the first and the last of them.\<close>

definition demo_lines :: "ended_line list" where
  "demo_lines = [(js ''event: bundle'', CRLF), (js ''data: x'', CR), ([], CRLF)]"

theorem event_stream_exact_witness:
  "fst (push_chunks (push_through decode_stream sse_push) (new_utf8_decoder, new_sse_decoder)
     [take 14 (utf8_encode (lines_text demo_lines)), drop 14 (butlast (utf8_encode (lines_text demo_lines))),
      [last (utf8_encode (lines_text demo_lines))]])
     = [\<lparr>ev_event = js ''bundle'', ev_data = js ''x''\<rparr>]"
proof -
  have whole: "lines_text demo_lines = js ''event: bundle'' @ [13, 10] @ js ''data: x'' @ [13, 13, 10]"
    by (simp add: demo_lines_def)
  have cut: "concat [take n u, drop n (butlast u), [last u]] = u" if "n < length u" for n and u :: "8 word list"
  proof -
    from that have "u \<noteq> []" "take n u = take n (butlast u)" by (auto simp: take_butlast)
    then show ?thesis by (simp flip: append_assoc)
  qed
  have "ascii_text (lines_text demo_lines)" unfolding whole by (simp add: ascii_text_def js_def)
  then have "14 < length (utf8_encode (lines_text demo_lines))" by (simp add: utf8_ascii whole js_def)
  note cut [OF this]
  moreover have "well_formed_text (lines_text demo_lines)" unfolding whole by (simp add: js_def)
  moreover have "map fst demo_lines = concat (map item_lines [demo_item])" by (simp add: demo_lines_def demo_item_def js_def)
  moreover have "list_all item_ok [demo_item]" "endings_ok demo_lines" "\<not> pending_cr demo_lines"
    by (simp_all add: demo_item_def demo_lines_def pending_cr_def js_def)
  moreover have "concat (map item_events [demo_item]) = [\<lparr>ev_event = js ''bundle'', ev_data = js ''x''\<rparr>]"
    by (simp add: demo_item_def)
  ultimately show ?thesis using event_stream_exact [of "[demo_item]" demo_lines] by metis
qed

end
