(* ===== verification/ConfigSync.thy ===== *)
theory ConfigSync imports ConfigClient Sse begin

text \<open>
  The configuration synchronizer (\<open>edge/src/config-sync.ts\<close>): the settings, the event stream and
  what an announced version does, and the life cycle of the two loops. The client, the abort
  signal and the observers are a world of their own, read and changed through \<open>sync_world\<close>; what
  the rest of the program does while an await lasts is part of it.
\<close>

section \<open>Settings\<close>

definition default_poll_interval_ms :: int where "default_poll_interval_ms = 30000"
definition default_reconnect_delay_ms :: int where "default_reconnect_delay_ms = 2000"

text \<open>The tasks of the two loops are known by the controller they were started under.\<close>

record config_sync =
  cy_eventsUrl :: url
  cy_pollIntervalMs :: int
  cy_reconnectDelayMs :: int
  cy_controller :: "nat option"
  cy_streamTask :: "nat option"
  cy_pollTask :: "nat option"

definition validate_interval :: "jsnum \<Rightarrow> string \<Rightarrow> int result" where
  "validate_interval v name =
     (if \<not> is_safe_integer v \<or> jle v (num 0)
      then Inl (ConfigurationSyncError (js name @ js '' must be a positive integer''))
      else Inr (int_of_num v))"

definition new_config_sync :: "url_parser \<Rightarrow> ustr \<Rightarrow> jsnum option \<Rightarrow> jsnum option \<Rightarrow> config_sync result" where
  "new_config_sync parse_url baseUrl pollIntervalMs reconnectDelayMs =
     (case parse_url baseUrl of
        None \<Rightarrow> Inl (ConfigurationSyncError (js ''control-plane base URL is invalid''))
      | Some u \<Rightarrow>
          if u_protocol u \<noteq> js ''http:'' \<and> u_protocol u \<noteq> js ''https:''
          then Inl (ConfigurationSyncError (js ''control-plane base URL must use HTTP or HTTPS''))
          else
            bind_result (validate_interval
                (case pollIntervalMs of None \<Rightarrow> num default_poll_interval_ms | Some v \<Rightarrow> v) ''poll interval'') (\<lambda>poll.
            bind_result (validate_interval
                (case reconnectDelayMs of None \<Rightarrow> num default_reconnect_delay_ms | Some v \<Rightarrow> v) ''reconnect delay'') (\<lambda>delay.
              Inr \<lparr>cy_eventsUrl = resolve_path ''/v1/events'' u, cy_pollIntervalMs = poll, cy_reconnectDelayMs = delay,
                   cy_controller = None, cy_streamTask = None, cy_pollTask = None\<rparr>)))"

section \<open>Announcements\<close>

definition parse_bundle_event_version :: "ustr \<Rightarrow> ustr result" where
  "parse_bundle_event_version data =
     (case json_parse data of
        None \<Rightarrow> Inl (ConfigurationSyncError (js ''bundle event contains invalid JSON''))
      | Some (JObject members) \<Rightarrow>
          if length members \<noteq> 1 \<or> fst (hd members) \<noteq> js ''version''
          then Inl (ConfigurationSyncError (js ''bundle event payload has unsupported fields''))
          else (case snd (hd members) of
                  JString version \<Rightarrow>
                    if digest_pattern version then Inr version
                    else Inl (ConfigurationSyncError (js ''bundle event version has an invalid format''))
                | _ \<Rightarrow> Inl (ConfigurationSyncError (js ''bundle event version has an invalid format'')))
      | Some v \<Rightarrow> Inl (ConfigurationSyncError (js ''bundle event payload must be an object'')))"

text \<open>
  The world of the synchronizer: whether its signal is aborted, the version of the client's
  snapshot, the client's \<open>refresh\<close> awaited, the two observers (whose exceptions are swallowed), and
  what happens while a read of the stream is awaited.
\<close>

record 'w sync_world =
  sw_aborted :: "'w \<Rightarrow> bool"
  sw_current :: "'w \<Rightarrow> ustr option"
  sw_refresh :: "'w \<Rightarrow> refresh_result result \<times> 'w"
  sw_onRefresh :: "refresh_result \<Rightarrow> 'w \<Rightarrow> 'w"
  sw_onError :: "js_error \<Rightarrow> 'w \<Rightarrow> 'w"
  sw_await :: "'w \<Rightarrow> 'w"

definition sync_refresh :: "'w sync_world \<Rightarrow> 'w \<Rightarrow> refresh_result result \<times> 'w" where
  "sync_refresh W w =
     (case sw_refresh W w of
        (Inl e, w') \<Rightarrow> (Inl e, w')
      | (Inr r, w') \<Rightarrow> (Inr r, sw_onRefresh W r w'))"

definition report_unless_aborted :: "'w sync_world \<Rightarrow> js_error \<Rightarrow> 'w \<Rightarrow> 'w" where
  "report_unless_aborted W e w = (if sw_aborted W w then w else sw_onError W e w)"

definition refresh_reported :: "'w sync_world \<Rightarrow> 'w \<Rightarrow> 'w" where
  "refresh_reported W w =
     (case sync_refresh W w of (Inl e, w') \<Rightarrow> report_unless_aborted W e w' | (Inr r, w') \<Rightarrow> w')"

fun process_events :: "'w sync_world \<Rightarrow> sse_event list \<Rightarrow> 'w \<Rightarrow> 'w" where
  "process_events W [] w = w"
| "process_events W (event # events) w =
     process_events W events
       (if sw_aborted W w \<or> ev_event event \<noteq> js ''bundle'' then w
        else (case parse_bundle_event_version (ev_data event) of
                Inl e \<Rightarrow> report_unless_aborted W e w
              | Inr announcedVersion \<Rightarrow>
                  if Some announcedVersion \<noteq> sw_current W w then refresh_reported W w else w))"

text \<open>What is left in the decoders when the body ends or the signal is aborted.\<close>

definition finish_stream :: "'w sync_world \<Rightarrow> utf8_decoder \<times> sse_decoder \<Rightarrow> 'w \<Rightarrow> unit result \<times> 'w" where
  "finish_stream W decoders w =
     (let trailingText = decode_flush (fst decoders) in
      (Inr (), if trailingText \<noteq> [] then process_events W (fst (sse_push (snd decoders) trailingText)) w else w))"

text \<open>The loop over the chunks of the body.\<close>

fun read_stream :: "'w sync_world \<Rightarrow> bytes list \<Rightarrow> js_error option \<Rightarrow> utf8_decoder \<times> sse_decoder \<Rightarrow> 'w \<Rightarrow> unit result \<times> 'w" where
  "read_stream W [] failure decoders w =
     (if sw_aborted W w then finish_stream W decoders w
      else (case failure of
              Some e \<Rightarrow> (Inl e, sw_await W w)
            | None \<Rightarrow> finish_stream W decoders (sw_await W w)))"
| "read_stream W (chunk # chunks) failure decoders w =
     (if sw_aborted W w then finish_stream W decoders w
      else (case push_through decode_stream sse_push decoders chunk of
              (events, decoders') \<Rightarrow> read_stream W chunks failure decoders' (process_events W events (sw_await W w))))"

definition consume_event_stream :: "'w sync_world \<Rightarrow> http_response result \<Rightarrow> 'w \<Rightarrow> unit result \<times> 'w" where
  "consume_event_stream W fetched w =
     (case fetched of
        Inl e \<Rightarrow> (Inl (ConfigurationSyncError (js ''connect event stream: '' @ error_message e)), w)
      | Inr response \<Rightarrow>
          if \<not> res_ok response
          then (Inl (ConfigurationSyncError (js ''event stream returned HTTP '' @ dec_int (res_status response))), w)
          else if media_type (res_headers response) \<noteq> Some (js ''text/event-stream'')
          then (Inl (ConfigurationSyncError (js ''control plane returned a non-SSE event stream'')), w)
          else (case res_body response of
                  None \<Rightarrow> (Inl (ConfigurationSyncError (js ''control-plane event stream has no body'')), w)
                | Some body \<Rightarrow>
                    read_stream W (st_chunks body) (st_failure body) (new_utf8_decoder, new_sse_decoder) w))"

text \<open>One turn of each loop; its delay is an await like the others.\<close>

definition stream_turn :: "'w sync_world \<Rightarrow> http_response result \<Rightarrow> 'w \<Rightarrow> 'w" where
  "stream_turn W fetched w =
     (case consume_event_stream W fetched w of
        (Inl e, w') \<Rightarrow> report_unless_aborted W e w'
      | (Inr u, w') \<Rightarrow> w')"

definition poll_turn :: "'w sync_world \<Rightarrow> 'w \<Rightarrow> 'w" where
  "poll_turn W w = (let w' = sw_await W w in if sw_aborted W w' then w' else refresh_reported W w')"

section \<open>What an announcement does\<close>

text \<open>The payload of a bundle event, and the items a control plane writes to the stream.\<close>

definition announcement :: "ustr \<Rightarrow> stream_item" where
  "announcement version =
     EventItem \<lparr>ev_event = js ''bundle'', ev_data = json_text (JObject [(js ''version'', JString version)])\<rparr>"

definition keep_alive :: stream_item where "keep_alive = CommentItem (js '' keepalive'')"

lemma digest_chars:
  assumes "digest_pattern v"
  shows "list_all (\<lambda>c. 35 \<le> c \<and> c < 128 \<and> c \<noteq> 92) v"
proof -
  have "v = take 7 v @ drop 7 v" by simp
  moreover have "length (js ''sha256:'') = 7" by (simp add: js_def)
  then have "take 7 v = js ''sha256:''" "list_all is_lower_hex (drop 7 v)"
    using assms unfolding digest_pattern_def starts_with_def by metis+
  then have "list_all (\<lambda>c. 35 \<le> c \<and> c < 128 \<and> c \<noteq> 92) (take 7 v)" "list_all (\<lambda>c. 35 \<le> c \<and> c < 128 \<and> c \<noteq> 92) (drop 7 v)"
    by (simp_all add: js_def list_all_iff is_lower_hex_def is_digit_def) auto
  ultimately show ?thesis by (metis list_all_append)
qed

lemma string_chars_plain: "list_all (\<lambda>c. 35 \<le> c \<and> c < 128 \<and> c \<noteq> 92) s \<Longrightarrow> string_chars s = s"
  by (induction s rule: string_chars.induct) (simp_all add: plain_char_text_def)

lemma version_object:
  "json_ok (JObject [(js ''version'', JString v)]) \<longleftrightarrow> list_all (\<lambda>c. c < 65536) v"
  by (simp add: map_ok_def own_order_def array_index_def)

text \<open>An announcement is read back, and nothing else is: exactly the objects whose one member is a
  version in the format of digests.\<close>

lemma announcement_exact:
  "parse_bundle_event_version data = Inr v \<longleftrightarrow>
     json_parse data = Some (JObject [(js ''version'', JString v)]) \<and> digest_pattern v"
proof (cases "\<exists>ms. json_parse data = Some (JObject ms)")
  case True
  then obtain ms where ms: "json_parse data = Some (JObject ms)" by blast
  show ?thesis
  proof (cases "\<exists>n w. ms = [(n, w)]")
    case True
    then obtain n w where "ms = [(n, w)]" by blast
    with ms show ?thesis by (cases w) (auto simp: parse_bundle_event_version_def)
  next
    case False
    then have "length ms \<noteq> 1" by (cases ms rule: remdups_adj.cases) auto
    with ms show ?thesis by (auto simp: parse_bundle_event_version_def)
  qed
next
  case False
  then show ?thesis by (auto simp: parse_bundle_event_version_def split: option.splits json.splits)
qed

lemma announced_version:
  assumes "digest_pattern v"
  shows "parse_bundle_event_version (json_text (JObject [(js ''version'', JString v)])) = Inr v"
proof -
  have "list_all (\<lambda>c. c < 65536) v" using digest_chars [OF assms] by (auto simp: list_all_iff)
  then have "json_ok (JObject [(js ''version'', JString v)])" by (simp only: version_object)
  from json_round_trip [OF this] assms show ?thesis by (simp only: announcement_exact)
qed

lemma announcement_text:
  assumes "digest_pattern v"
  shows "ascii_text (item_text (announcement v)) \<and> item_ok (announcement v)"
proof -
  note v = digest_chars [OF assms]
  let ?j = "json_text (JObject [(js ''version'', JString v)])"
  have j: "?j = js [CHR 0x7B, CHR 0x22] @ js ''version'' @ js [CHR 0x22, CHR 0x3A, CHR 0x22] @ v @ js [CHR 0x22, CHR 0x7D]"
    using string_chars_plain [OF v] by (simp add: string_text_def js_def plain_char_text_def)
  have "10 \<notin> set ?j \<and> 13 \<notin> set ?j \<and> ascii_text ?j" unfolding j
    using v by (auto simp: js_def list_all_iff ascii_text_def)
  moreover from this have "split_at 10 ?j = [?j]" by (simp add: split_at_id del: json_text.simps)
  ultimately show ?thesis
    unfolding announcement_def by (simp add: ascii_text_def del: json_text.simps) (simp add: js_def)
qed

text \<open>Events are handled one after the other.\<close>

lemma process_append: "process_events W (a @ b) w = process_events W b (process_events W a w)"
  by (induction a arbitrary: w) simp_all

definition follow_announcement :: "'w sync_world \<Rightarrow> ustr \<Rightarrow> 'w \<Rightarrow> 'w" where
  "follow_announcement W v w = (if Some v \<noteq> sw_current W w then refresh_reported W w else w)"

text \<open>A world in which nothing else happens and the signal is not aborted.\<close>

definition quiet :: "'w sync_world \<Rightarrow> bool" where
  "quiet W \<longleftrightarrow> (\<forall>w. \<not> sw_aborted W w \<and> sw_await W w = w)"

lemma read_quiet:
  assumes "quiet W" "push_chunks (push_through decode_stream sse_push) decoders chunks = (events, decoders')"
  shows "read_stream W chunks None decoders w = finish_stream W decoders' (process_events W events w)"
  using assms(2)
proof (induction chunks arbitrary: decoders events w)
  case Nil
  with assms(1) show ?case by (simp add: quiet_def)
next
  case (Cons c cs)
  with assms(1) show ?case by (auto simp: quiet_def process_append split: prod.splits)
qed

fun stream_items :: "ustr option list \<Rightarrow> stream_item list" where
  "stream_items [] = []"
| "stream_items (None # vs) = keep_alive # stream_items vs"
| "stream_items (Some v # vs) = announcement v # stream_items vs"

lemma stream_items_ok:
  assumes "\<And>v. Some v \<in> set vs \<Longrightarrow> digest_pattern v"
  shows "list_all item_ok (stream_items vs) \<and> ascii_text (concat (map item_text (stream_items vs)))"
  using assms
proof (induction vs rule: stream_items.induct)
  case (2 vs)
  then show ?case by (simp add: keep_alive_def ascii_text_def js_def)
next
  case (3 v vs)
  then show ?case using announcement_text [of v] by (simp add: ascii_text_def)
qed (simp add: ascii_text_def)

lemma process_announcements:
  assumes "quiet W" "\<And>v. Some v \<in> set vs \<Longrightarrow> digest_pattern v"
  shows "process_events W (concat (map item_events (stream_items vs))) w
     = fold (follow_announcement W) (List.map_filter id vs) w"
  using assms(2)
proof (induction vs arbitrary: w rule: stream_items.induct)
  case (2 vs)
  then show ?case by (simp add: keep_alive_def List.map_filter_def)
next
  case (3 v vs)
  have "process_events W (item_events (announcement v)) w = follow_announcement W v w" for w
    using assms(1) announced_version [of v] 3(2)
    by (simp add: announcement_def quiet_def follow_announcement_def del: json_text.simps)
  with 3 show ?case by (simp add: process_append List.map_filter_def)
qed (simp add: List.map_filter_def)

text \<open>C28: Announcements are followed. Reading a successful event stream of announcements and keep-alive
  comments, cut into chunks in any way, the synchronizer asks the client to refresh once for every
  announced version that is not the client's at that moment, in the order of the announcements,
  reports the refreshes that fail and goes on with the next.\<close>

theorem announcements_followed:
  assumes "quiet W" "\<And>v. Some v \<in> set vs \<Longrightarrow> digest_pattern v"
    and "res_ok response" "media_type (res_headers response) = Some (js ''text/event-stream'')"
    and "res_body response = Some body" "st_failure body = None"
    and "concat (st_chunks body) = utf8_encode (concat (map item_text (stream_items vs)))"
  shows "consume_event_stream W (Inr response) w = (Inr (), fold (follow_announcement W) (List.map_filter id vs) w)"
proof -
  note items = stream_items_ok [OF assms(2)]
  have "well_formed_text (concat (map item_text (stream_items vs)))"
    using items by (intro well_formed_ascii) simp
  from stream_read [OF _ this assms(7)] items obtain d where
    "push_chunks (push_through decode_stream sse_push) (new_utf8_decoder, new_sse_decoder) (st_chunks body)
       = (concat (map item_events (stream_items vs)), (d, new_sse_decoder))" "decode_flush d = []" by auto
  from read_quiet [OF assms(1) this(1)] this(2) process_announcements [OF assms(1,2)] assms(3-6)
  show ?thesis by (simp add: consume_event_stream_def finish_stream_def)
qed

definition demo_sync_world :: "nat sync_world" where
  "demo_sync_world = \<lparr>sw_aborted = \<lambda>w. False, sw_current = \<lambda>w. None, sw_refresh = \<lambda>w. (Inl (Error []), w + 1),
     sw_onRefresh = \<lambda>r w. w, sw_onError = \<lambda>e w. w + 10, sw_await = \<lambda>w. w\<rparr>"

definition demo_announced :: ustr where "demo_announced = js ''sha256:'' @ replicate 64 97"

definition demo_stream_response :: http_response where
  "demo_stream_response = \<lparr>res_status = 200, res_statusText = [], res_headers = [(js ''content-type'', js ''text/event-stream'')],
     res_body = Some \<lparr>st_chunks = [utf8_encode (concat (map item_text (stream_items [Some demo_announced, None])))],
       st_failure = None\<rparr>\<rparr>"

theorem announcements_followed_witness:
  "consume_event_stream demo_sync_world (Inr demo_stream_response) 0 = (Inr (), 11)"
proof -
  have "digest_pattern demo_announced"
    by (simp add: digest_pattern_def starts_with_def demo_announced_def is_lower_hex_def js_def list_all_iff)
  moreover have "media_type (res_headers demo_stream_response) = Some (js ''text/event-stream'')"
  proof -
    have "split_at 59 (js ''text/event-stream'') = [js ''text/event-stream'']"
      by (rule split_at_id) (simp add: js_def)
    moreover have "trim (js ''text/event-stream'') = js ''text/event-stream''"
      by (rule trim_id) (simp_all add: js_def is_space_def)
    moreover have "to_lower (js ''text/event-stream'') = js ''text/event-stream''" "to_lower (js ''content-type'') = js ''content-type''"
      by code_simp+
    ultimately show ?thesis
      by (simp add: media_type_def demo_stream_response_def header_get_def header_values_def)
  qed
  moreover have "quiet demo_sync_world" by (simp add: quiet_def demo_sync_world_def)
  ultimately show ?thesis
    using announcements_followed [of demo_sync_world "[Some demo_announced, None]" demo_stream_response "the (res_body demo_stream_response)" 0]
    by (simp add: demo_stream_response_def res_ok_def List.map_filter_def follow_announcement_def refresh_reported_def
        sync_refresh_def report_unless_aborted_def demo_sync_world_def del: stream_items.simps)
qed

section \<open>The life cycle\<close>

text \<open>
  \<open>start\<close> up to its await; what follows when the first refresh has settled, with the signal's state:
  the promise's result, whether the controller is aborted, whether the loops are started; \<open>stop\<close> up
  to its await: the controller it aborts and the tasks it waits for; and what follows.
\<close>

definition sync_start :: "nat \<Rightarrow> config_sync \<Rightarrow> unit result \<times> config_sync" where
  "sync_start controller c =
     (if cy_controller c \<noteq> None
      then (Inl (ConfigurationSyncError (js ''configuration synchronization is already running'')), c)
      else (Inr (), c\<lparr>cy_controller := Some controller\<rparr>))"

definition clear_controller :: "nat \<Rightarrow> config_sync \<Rightarrow> config_sync" where
  "clear_controller controller c =
     (if cy_controller c = Some controller then c\<lparr>cy_controller := None\<rparr> else c)"

definition sync_started :: "nat \<Rightarrow> bool \<Rightarrow> refresh_result result \<Rightarrow> config_sync \<Rightarrow> bool \<times> bool \<times> config_sync" where
  "sync_started controller aborted initialResult c =
     (case initialResult of
        Inl e \<Rightarrow> (True, False, clear_controller controller c)
      | Inr r \<Rightarrow>
          if aborted \<or> cy_controller c \<noteq> Some controller then (aborted, False, c)
          else (aborted, True, c\<lparr>cy_streamTask := Some controller, cy_pollTask := Some controller\<rparr>))"

definition sync_stop :: "config_sync \<Rightarrow> (nat \<times> nat option \<times> nat option) option" where
  "sync_stop c = map_option (\<lambda>controller. (controller, cy_streamTask c, cy_pollTask c)) (cy_controller c)"

definition sync_stopped :: "nat \<Rightarrow> config_sync \<Rightarrow> config_sync" where
  "sync_stopped controller c =
     (if cy_controller c = Some controller
      then c\<lparr>cy_controller := None, cy_streamTask := None, cy_pollTask := None\<rparr> else c)"

text \<open>
  A run: the calls of \<open>start\<close> and \<open>stop\<close> under way, the controllers aborted, and the loops that run,
  each by its controller. A loop ends only when its signal is aborted, since everything its turns
  throw is caught.
\<close>

record sync_system =
  yy_sync :: config_sync
  yy_next :: nat
  yy_aborted :: "nat list"
  yy_starting :: "nat list"
  yy_stopping :: "(nat \<times> nat option \<times> nat option) list"
  yy_streams :: "nat list"
  yy_polls :: "nat list"

inductive sync_step :: "sync_system \<Rightarrow> sync_system \<Rightarrow> bool" where
  start_called: "sync_start (yy_next s) (yy_sync s) = (Inr (), c) \<Longrightarrow>
     sync_step s (s\<lparr>yy_sync := c, yy_next := Suc (yy_next s), yy_starting := yy_starting s @ [yy_next s]\<rparr>)"
| start_settled: "controller \<in> set (yy_starting s) \<Longrightarrow>
     sync_started controller (controller \<in> set (yy_aborted s)) r (yy_sync s) = (abort, run, c) \<Longrightarrow>
     sync_step s (s\<lparr>yy_sync := c, yy_starting := remove1 controller (yy_starting s),
        yy_aborted := (if abort then controller # yy_aborted s else yy_aborted s),
        yy_streams := (if run then controller # yy_streams s else yy_streams s),
        yy_polls := (if run then controller # yy_polls s else yy_polls s)\<rparr>)"
| stop_called: "sync_stop (yy_sync s) = Some call \<Longrightarrow>
     sync_step s (s\<lparr>yy_aborted := fst call # yy_aborted s, yy_stopping := yy_stopping s @ [call]\<rparr>)"
| stop_settled: "(controller, stream, poll) \<in> set (yy_stopping s) \<Longrightarrow>
     \<forall>t. stream = Some t \<longrightarrow> t \<notin> set (yy_streams s) \<Longrightarrow> \<forall>t. poll = Some t \<longrightarrow> t \<notin> set (yy_polls s) \<Longrightarrow>
     sync_step s (s\<lparr>yy_sync := sync_stopped controller (yy_sync s),
        yy_stopping := remove1 (controller, stream, poll) (yy_stopping s)\<rparr>)"
| stream_ended: "t \<in> set (yy_streams s) \<Longrightarrow> t \<in> set (yy_aborted s) \<Longrightarrow>
     sync_step s (s\<lparr>yy_streams := remove1 t (yy_streams s)\<rparr>)"
| poll_ended: "t \<in> set (yy_polls s) \<Longrightarrow> t \<in> set (yy_aborted s) \<Longrightarrow>
     sync_step s (s\<lparr>yy_polls := remove1 t (yy_polls s)\<rparr>)"

inductive sync_reachable :: "config_sync \<Rightarrow> sync_system \<Rightarrow> bool" for c where
  start: "sync_reachable c \<lparr>yy_sync = c, yy_next = 0, yy_aborted = [], yy_starting = [], yy_stopping = [], yy_streams = [], yy_polls = []\<rparr>"
| step: "sync_reachable c s \<Longrightarrow> sync_step s s' \<Longrightarrow> sync_reachable c s'"

text \<open>
  The invariant. Loops run only under the current controller, whose tasks they are; a call of \<open>stop\<close>
  waits for all loops of its controller.
\<close>

definition loops_ok :: "sync_system \<Rightarrow> bool" where
  "loops_ok s \<longleftrightarrow>
     (yy_streams s = [] \<or> (\<exists>t. yy_streams s = [t] \<and> cy_controller (yy_sync s) = Some t \<and> cy_streamTask (yy_sync s) = Some t))
     \<and> (yy_polls s = [] \<or> (\<exists>t. yy_polls s = [t] \<and> cy_controller (yy_sync s) = Some t \<and> cy_pollTask (yy_sync s) = Some t))"

definition calls_ok :: "sync_system \<Rightarrow> bool" where
  "calls_ok s \<longleftrightarrow>
     (\<forall>t. cy_controller (yy_sync s) = Some t \<longrightarrow> t < yy_next s)
     \<and> (\<forall>t \<in> set (yy_starting s) \<union> set (yy_aborted s). t < yy_next s) \<and> distinct (yy_starting s)
     \<and> (\<forall>t \<in> set (yy_starting s). t \<notin> set (yy_streams s) \<and> t \<notin> set (yy_polls s)
          \<and> (cy_controller (yy_sync s) = Some t \<longrightarrow> yy_streams s = [] \<and> yy_polls s = []))
     \<and> (\<forall>(t, stream, poll) \<in> set (yy_stopping s). t \<in> set (yy_aborted s)
          \<and> (t \<in> set (yy_streams s) \<longrightarrow> stream = Some t) \<and> (t \<in> set (yy_polls s) \<longrightarrow> poll = Some t))"

lemma loops_end: "loops_ok s \<Longrightarrow> t \<in> set (yy_streams s) \<Longrightarrow> remove1 t (yy_streams s) = []"
  "loops_ok s \<Longrightarrow> t \<in> set (yy_polls s) \<Longrightarrow> remove1 t (yy_polls s) = []"
  by (auto simp: loops_ok_def)

lemma step_loops_ok:
  assumes "sync_step s s'" "loops_ok s" "calls_ok s"
  shows "loops_ok s' \<and> calls_ok s'"
  using assms(1)
proof (cases rule: sync_step.cases)
  case (start_called c)
  with assms(2,3) show ?thesis
    by (auto simp: loops_ok_def calls_ok_def sync_start_def less_Suc_eq split: if_splits)
next
  case (start_settled controller r abort run c)
  with assms(2,3) show ?thesis
    by (auto simp: loops_ok_def calls_ok_def sync_started_def clear_controller_def split: sum.splits if_splits)
next
  case (stop_called call)
  with assms(2,3) show ?thesis
    by (auto simp: loops_ok_def calls_ok_def sync_stop_def)
next
  case (stop_settled controller stream poll)
  with assms(2,3) show ?thesis
    by (auto simp: loops_ok_def calls_ok_def sync_stopped_def dest!: set_mp [OF set_remove1_subset] split: if_splits)
next
  case (stream_ended t)
  with loops_end [OF assms(2)] assms(2,3) show ?thesis
    by (auto simp: loops_ok_def calls_ok_def)
next
  case (poll_ended t)
  with loops_end [OF assms(2)] assms(2,3) show ?thesis
    by (auto simp: loops_ok_def calls_ok_def)
qed

lemma reachable_loops_ok:
  assumes "sync_reachable c s" "new_config_sync parse_url baseUrl poll delay = Inr c"
  shows "loops_ok s \<and> calls_ok s"
  using assms(1)
proof (induction rule: sync_reachable.induct)
  case start
  have "cy_controller c = None"
    using assms(2) by (auto simp: new_config_sync_def bind_result_Inr split: option.splits if_splits)
  then show ?case by (simp add: loops_ok_def calls_ok_def)
next
  case (step s s')
  then show ?case using step_loops_ok by blast
qed

lemma aborted_stays:
  assumes "sync_step s s'" "t \<in> set (yy_aborted s)"
  shows "t \<in> set (yy_aborted s') \<and> set (yy_streams s') \<inter> {t} \<subseteq> set (yy_streams s) \<and> set (yy_polls s') \<inter> {t} \<subseteq> set (yy_polls s)"
  using assms(1)
proof (cases rule: sync_step.cases)
  case (start_settled controller r abort run c)
  with assms(2) show ?thesis by (auto simp: sync_started_def split: sum.splits if_splits)
next
  case (stream_ended u)
  with assms(2) show ?thesis by (auto dest: set_mp [OF set_remove1_subset])
next
  case (poll_ended u)
  with assms(2) show ?thesis by (auto dest: set_mp [OF set_remove1_subset])
qed (use assms(2) in auto)

text \<open>C29: One synchronization. However calls of \<open>start\<close> and \<open>stop\<close>, settling refreshes and ending loops
  interleave, at most one stream loop and one polling loop run, both under the controller that is
  current, so none while \<open>running\<close> is false; a loop of an aborted controller never starts again; and
  when what a call of \<open>stop\<close> waits for has ended, no loop of the controller it aborted runs.\<close>

theorem sync_single:
  assumes "new_config_sync parse_url baseUrl poll delay = Inr c" "sync_reachable c s"
  shows "length (yy_streams s) \<le> 1 \<and> length (yy_polls s) \<le> 1
     \<and> (\<forall>t \<in> set (yy_streams s) \<union> set (yy_polls s). cy_controller (yy_sync s) = Some t)
     \<and> (\<forall>t s'. t \<in> set (yy_aborted s) \<longrightarrow> sync_step s s' \<longrightarrow> t \<in> set (yy_aborted s')
          \<and> (t \<notin> set (yy_streams s) \<longrightarrow> t \<notin> set (yy_streams s')) \<and> (t \<notin> set (yy_polls s) \<longrightarrow> t \<notin> set (yy_polls s')))
     \<and> (\<forall>t stream poll. (t, stream, poll) \<in> set (yy_stopping s) \<longrightarrow>
          (\<forall>u. stream = Some u \<longrightarrow> u \<notin> set (yy_streams s)) \<longrightarrow> (\<forall>u. poll = Some u \<longrightarrow> u \<notin> set (yy_polls s)) \<longrightarrow>
          t \<in> set (yy_aborted s) \<and> t \<notin> set (yy_streams s) \<and> t \<notin> set (yy_polls s))"
proof -
  have ok: "loops_ok s" "calls_ok s" using reachable_loops_ok [OF assms(2,1)] by simp_all
  have "t \<in> set (yy_aborted s) \<Longrightarrow> sync_step s s' \<Longrightarrow> t \<in> set (yy_aborted s')
      \<and> (t \<notin> set (yy_streams s) \<longrightarrow> t \<notin> set (yy_streams s')) \<and> (t \<notin> set (yy_polls s) \<longrightarrow> t \<notin> set (yy_polls s'))" for t s'
    using aborted_stays [of s s' t] by blast
  moreover have "length (yy_streams s) \<le> 1 \<and> length (yy_polls s) \<le> 1"
    "\<forall>t \<in> set (yy_streams s) \<union> set (yy_polls s). cy_controller (yy_sync s) = Some t"
    using ok(1) by (auto simp: loops_ok_def)
  moreover have "t \<in> set (yy_aborted s) \<and> t \<notin> set (yy_streams s) \<and> t \<notin> set (yy_polls s)"
    if "(t, stream, poll) \<in> set (yy_stopping s)" "\<forall>u. stream = Some u \<longrightarrow> u \<notin> set (yy_streams s)"
      "\<forall>u. poll = Some u \<longrightarrow> u \<notin> set (yy_polls s)" for t stream poll
  proof -
    have "t \<in> set (yy_aborted s)" "t \<in> set (yy_streams s) \<Longrightarrow> stream = Some t" "t \<in> set (yy_polls s) \<Longrightarrow> poll = Some t"
      using ok(2) that(1) by (auto simp: calls_ok_def)
    with that(2,3) show ?thesis by metis
  qed
  ultimately show ?thesis by simp
qed

definition demo_sync_config :: config_sync where
  "demo_sync_config = \<lparr>cy_eventsUrl = resolve_path ''/v1/events'' (the (ce_parse_url demo_world [])), cy_pollIntervalMs = 30000,
     cy_reconnectDelayMs = 2000, cy_controller = None, cy_streamTask = None, cy_pollTask = None\<rparr>"

lemma demo_sync_new: "new_config_sync (ce_parse_url demo_world) [] None None = Inr demo_sync_config"
  by (simp add: new_config_sync_def demo_sync_config_def demo_world_def validate_interval_def default_poll_interval_ms_def
      default_reconnect_delay_ms_def is_safe_integer_iff num_def max_safe_def)

theorem sync_single_witness:
  "\<exists>s. sync_reachable demo_sync_config s \<and> yy_streams s = [0] \<and> cy_controller (yy_sync s) = Some 0"
proof -
  let ?s0 = "\<lparr>yy_sync = demo_sync_config, yy_next = 0, yy_aborted = [], yy_starting = [], yy_stopping = [], yy_streams = [], yy_polls = []\<rparr>"
  define c1 where "c1 = demo_sync_config\<lparr>cy_controller := Some 0\<rparr>"
  let ?s1 = "?s0\<lparr>yy_sync := c1, yy_next := Suc (yy_next ?s0), yy_starting := yy_starting ?s0 @ [yy_next ?s0]\<rparr>"
  have r1: "sync_reachable demo_sync_config ?s1"
    by (rule sync_reachable.step [OF sync_reachable.start sync_step.start_called])
      (simp add: sync_start_def demo_sync_config_def c1_def)
  have "sync_started 0 (0 \<in> set (yy_aborted ?s1)) (Inr (Updated published_snapshot)) (yy_sync ?s1)
      = (False, True, c1\<lparr>cy_streamTask := Some 0, cy_pollTask := Some 0\<rparr>)"
    by (simp add: sync_started_def c1_def)
  from sync_reachable.step [OF r1 sync_step.start_settled [OF _ this]]
  obtain s where s: "sync_reachable demo_sync_config s" "yy_streams s = [0]" by fastforce
  with sync_single [OF demo_sync_new s(1)] show ?thesis by auto
qed

end
