(* ===== verification/RuntimeConfig.thy ===== *)
theory RuntimeConfig imports Transport JsString begin

text \<open>
  The settings of an edge, read from its environment (\<open>edge/src/runtime-config.ts\<close>). The parser and
  the serializer of URLs, the resolution of file paths and the place of the default public key are
  those of the platform and are arguments.
\<close>

section \<open>Settings\<close>

record runtime_platform =
  rp_parse_url :: url_parser
  rp_href :: "url \<Rightarrow> ustr"
  rp_resolve :: "ustr \<Rightarrow> ustr"
  rp_publicKeyFile :: ustr

type_synonym environment = "string \<Rightarrow> ustr option"

record tls_config =
  tf_certificateFile :: ustr
  tf_privateKeyFile :: ustr

record mutual_tls_config = tls_config +
  tf_certificateAuthorityFile :: ustr

record redis_config =
  rr_url :: ustr
  rr_username :: "ustr option"
  rr_passwordFile :: "ustr option"
  rr_certificateAuthorityFile :: "ustr option"
  rr_keyPrefix :: ustr
  rr_connectTimeoutMs :: int
  rr_commandTimeoutMs :: int

datatype rate_limit_config = MemoryBackend | RedisBackend redis_config

record runtime_config =
  rc_hostname :: ustr
  rc_port :: int
  rc_controlPlaneUrl :: ustr
  rc_publicKeyFile :: ustr
  rc_maxRequestBodyBytes :: int
  rc_upstreamTimeoutMs :: int
  rc_maxInFlightRequests :: int
  rc_circuitFailureThreshold :: int
  rc_circuitOpenDurationMs :: int
  rc_circuitMaximumUpstreams :: int
  rc_shutdownGracePeriodMs :: int
  rc_tls :: "tls_config option"
  rc_controlPlaneTls :: "mutual_tls_config option"
  rc_tlsReloadIntervalMs :: int
  rc_rateLimit :: rate_limit_config

definition config_error :: "ustr \<Rightarrow> 'a result" where
  "config_error message = Inl (RuntimeConfigurationError message)"

definition default_redis_key_prefix :: ustr where
  "default_redis_key_prefix = js ''shieldward:rate-limit:v1''"

definition redis_setting_names :: "string list" where
  "redis_setting_names = [''SHIELDWARD_REDIS_URL'', ''SHIELDWARD_REDIS_USERNAME'', ''SHIELDWARD_REDIS_PASSWORD_FILE'',
     ''SHIELDWARD_REDIS_CA_FILE'', ''SHIELDWARD_REDIS_PREFIX'', ''SHIELDWARD_REDIS_CONNECT_TIMEOUT_MS'',
     ''SHIELDWARD_REDIS_COMMAND_TIMEOUT_MS'']"

section \<open>Parsing one setting\<close>

definition parse_positive_integer :: "ustr option \<Rightarrow> int \<Rightarrow> string \<Rightarrow> int \<Rightarrow> int result" where
  "parse_positive_integer v fallback name maximum =
     (case v of
        None \<Rightarrow> Inr fallback
      | Some text \<Rightarrow>
          if \<not> all_digits (trim text) then config_error (js name @ js '' must be a positive integer'')
          else (let parsed = number_of_digits (trim text) in
                if \<not> is_safe_integer parsed \<or> jle parsed (num 0) \<or> \<not> jle parsed (num maximum)
                then config_error (js name @ js '' must be between 1 and '' @ dec_int maximum)
                else Inr (int_of_num parsed)))"

definition parse_optional_path :: "runtime_platform \<Rightarrow> ustr option \<Rightarrow> string \<Rightarrow> ustr option result" where
  "parse_optional_path P v name =
     (case v of
        None \<Rightarrow> Inr None
      | Some text \<Rightarrow>
          if trim text = [] then config_error (js name @ js '' must not be empty'')
          else Inr (Some (rp_resolve P (trim text))))"

definition parse_public_key_file :: "runtime_platform \<Rightarrow> ustr option \<Rightarrow> ustr result" where
  "parse_public_key_file P v =
     (case v of
        None \<Rightarrow> Inr (rp_publicKeyFile P)
      | Some text \<Rightarrow>
          if trim text = [] then config_error (js ''SHIELDWARD_PUBLIC_KEY_FILE must not be empty'')
          else Inr (rp_resolve P (trim text)))"

definition parse_optional_text :: "ustr option \<Rightarrow> string \<Rightarrow> nat \<Rightarrow> ustr option result" where
  "parse_optional_text v name maximumLength =
     (case v of
        None \<Rightarrow> Inr None
      | Some text \<Rightarrow>
          if trim text = [] \<or> length (trim text) > maximumLength
          then config_error (js name @ js '' must contain 1 to '' @ dec maximumLength @ js '' characters'')
          else Inr (Some (trim text)))"

definition redis_prefix_char :: "nat \<Rightarrow> bool" where
  "redis_prefix_char c \<longleftrightarrow> is_upper c \<or> is_lower c \<or> is_digit c \<or> c = 58 \<or> c = 95 \<or> c = 45"

definition parse_redis_key_prefix :: "ustr option \<Rightarrow> ustr result" where
  "parse_redis_key_prefix v =
     (let prefix = (case v of None \<Rightarrow> default_redis_key_prefix
                    | Some text \<Rightarrow> if trim text = [] then default_redis_key_prefix else trim text) in
      if 1 \<le> length prefix \<and> length prefix \<le> 128 \<and> list_all redis_prefix_char prefix then Inr prefix
      else config_error (js ''SHIELDWARD_REDIS_PREFIX must contain 1 to 128 letters, numbers, colons, underscores, or hyphens''))"

definition parse_control_plane_url :: "runtime_platform \<Rightarrow> ustr \<Rightarrow> ustr result" where
  "parse_control_plane_url P v =
     (case rp_parse_url P (trim v) of
        None \<Rightarrow> config_error (js ''CONTROL_PLANE_URL must be a valid URL'')
      | Some u \<Rightarrow>
          if u_protocol u \<noteq> js ''http:'' \<and> u_protocol u \<noteq> js ''https:''
          then config_error (js ''CONTROL_PLANE_URL must use HTTP or HTTPS'')
          else if u_username u \<noteq> [] \<or> u_password u \<noteq> []
          then config_error (js ''CONTROL_PLANE_URL must not contain credentials'')
          else if \<not> uses_secure_transport u
          then config_error (js ''CONTROL_PLANE_URL must use HTTPS unless it targets loopback'')
          else Inr (rp_href P (u\<lparr>u_hash := []\<rparr>)))"

definition parse_redis_url :: "runtime_platform \<Rightarrow> ustr option \<Rightarrow> ustr result" where
  "parse_redis_url P v =
     (case v of
        None \<Rightarrow> config_error (js ''SHIELDWARD_REDIS_URL is required for the Redis rate-limit backend'')
      | Some text \<Rightarrow>
          if trim text = []
          then config_error (js ''SHIELDWARD_REDIS_URL is required for the Redis rate-limit backend'')
          else
            (case rp_parse_url P (trim text) of
               None \<Rightarrow> config_error (js ''SHIELDWARD_REDIS_URL must be a valid URL'')
             | Some u \<Rightarrow>
                 if u_protocol u \<noteq> js ''redis:'' \<and> u_protocol u \<noteq> js ''rediss:''
                 then config_error (js ''SHIELDWARD_REDIS_URL must use redis or rediss'')
                 else if u_username u \<noteq> [] \<or> u_password u \<noteq> []
                 then config_error (js ''SHIELDWARD_REDIS_URL must not contain credentials'')
                 else if u_search u \<noteq> [] \<or> u_hash u \<noteq> []
                 then config_error (js ''SHIELDWARD_REDIS_URL must not contain a query or fragment'')
                 else if u_protocol u = js ''redis:'' \<and> \<not> is_loopback_hostname (u_hostname u)
                 then config_error (js ''SHIELDWARD_REDIS_URL must use rediss unless it targets loopback'')
                 else Inr (rp_href P u)))"

section \<open>Parsing groups of settings\<close>

definition parse_tls_configuration :: "runtime_platform \<Rightarrow> environment \<Rightarrow> tls_config option result" where
  "parse_tls_configuration P env =
     bind_result (parse_optional_path P (env ''SHIELDWARD_TLS_CERT_FILE'') ''SHIELDWARD_TLS_CERT_FILE'') (\<lambda>certificateFile.
     bind_result (parse_optional_path P (env ''SHIELDWARD_TLS_KEY_FILE'') ''SHIELDWARD_TLS_KEY_FILE'') (\<lambda>privateKeyFile.
       case (certificateFile, privateKeyFile) of
         (None, None) \<Rightarrow> Inr None
       | (Some certificate, Some key) \<Rightarrow> Inr (Some \<lparr>tf_certificateFile = certificate, tf_privateKeyFile = key\<rparr>)
       | _ \<Rightarrow> config_error (js ''SHIELDWARD_TLS_CERT_FILE and SHIELDWARD_TLS_KEY_FILE must be configured together'')))"

text \<open>\<open>new URL(url)\<close> of the text of an URL, which throws a \<open>TypeError\<close>.\<close>

definition url_of :: "runtime_platform \<Rightarrow> ustr \<Rightarrow> url result" where
  "url_of P text = (case rp_parse_url P text of None \<Rightarrow> Inl (TypeError (js ''Invalid URL'')) | Some u \<Rightarrow> Inr u)"

definition parse_control_plane_tls_configuration ::
  "runtime_platform \<Rightarrow> environment \<Rightarrow> ustr \<Rightarrow> mutual_tls_config option result" where
  "parse_control_plane_tls_configuration P env controlPlaneUrl =
     bind_result (parse_optional_path P (env ''SHIELDWARD_CONTROL_PLANE_CA_FILE'') ''SHIELDWARD_CONTROL_PLANE_CA_FILE'') (\<lambda>authority.
     bind_result (parse_optional_path P (env ''SHIELDWARD_CONTROL_PLANE_CLIENT_CERT_FILE'') ''SHIELDWARD_CONTROL_PLANE_CLIENT_CERT_FILE'') (\<lambda>certificate.
     bind_result (parse_optional_path P (env ''SHIELDWARD_CONTROL_PLANE_CLIENT_KEY_FILE'') ''SHIELDWARD_CONTROL_PLANE_CLIENT_KEY_FILE'') (\<lambda>key.
     bind_result (url_of P controlPlaneUrl) (\<lambda>u.
       let configured = length (filter (\<lambda>v. v \<noteq> None) [authority, certificate, key]);
           secure = (u_protocol u = js ''https:'') in
       if configured = 0 then
         (if secure then config_error (js ''control-plane mutual TLS files are required for HTTPS'') else Inr None)
       else if configured \<noteq> 3 then
         config_error (js ''SHIELDWARD_CONTROL_PLANE_CA_FILE, SHIELDWARD_CONTROL_PLANE_CLIENT_CERT_FILE, and SHIELDWARD_CONTROL_PLANE_CLIENT_KEY_FILE must be configured together'')
       else if \<not> secure then config_error (js ''control-plane mutual TLS files require an HTTPS CONTROL_PLANE_URL'')
       else Inr (Some \<lparr>tf_certificateFile = the certificate, tf_privateKeyFile = the key,
                       tf_certificateAuthorityFile = the authority\<rparr>)))))"

definition parse_rate_limit_configuration :: "runtime_platform \<Rightarrow> environment \<Rightarrow> rate_limit_config result" where
  "parse_rate_limit_configuration P env =
     (if env ''SHIELDWARD_REDIS_PASSWORD'' \<noteq> None
      then config_error (js ''SHIELDWARD_REDIS_PASSWORD is not supported; use SHIELDWARD_REDIS_PASSWORD_FILE'')
      else
        (let backend = to_lower (trim (case env ''SHIELDWARD_RATE_LIMIT_BACKEND'' of None \<Rightarrow> js ''memory'' | Some b \<Rightarrow> b)) in
         if backend \<noteq> js ''memory'' \<and> backend \<noteq> js ''redis''
         then config_error (js ''SHIELDWARD_RATE_LIMIT_BACKEND must be memory or redis'')
         else if backend = js ''memory'' then
           (case find (\<lambda>name. env name \<noteq> None) redis_setting_names of
              Some ignoredSetting \<Rightarrow> config_error (js ignoredSetting @ js '' requires SHIELDWARD_RATE_LIMIT_BACKEND=redis'')
            | None \<Rightarrow> Inr MemoryBackend)
         else
           bind_result (parse_redis_url P (env ''SHIELDWARD_REDIS_URL'')) (\<lambda>url.
           bind_result (parse_optional_path P (env ''SHIELDWARD_REDIS_CA_FILE'') ''SHIELDWARD_REDIS_CA_FILE'') (\<lambda>authority.
           bind_result (if authority = None then Inr ()
                        else bind_result (url_of P url) (\<lambda>u.
                          if u_protocol u \<noteq> js ''rediss:'' then config_error (js ''SHIELDWARD_REDIS_CA_FILE requires a rediss URL'')
                          else Inr ())) (\<lambda>_.
           bind_result (parse_optional_text (env ''SHIELDWARD_REDIS_USERNAME'') ''SHIELDWARD_REDIS_USERNAME'' 256) (\<lambda>username.
           bind_result (parse_optional_path P (env ''SHIELDWARD_REDIS_PASSWORD_FILE'') ''SHIELDWARD_REDIS_PASSWORD_FILE'') (\<lambda>passwordFile.
           bind_result (parse_redis_key_prefix (env ''SHIELDWARD_REDIS_PREFIX'')) (\<lambda>prefix.
           bind_result (parse_positive_integer (env ''SHIELDWARD_REDIS_CONNECT_TIMEOUT_MS'') 3000 ''SHIELDWARD_REDIS_CONNECT_TIMEOUT_MS'' 30000) (\<lambda>connect.
           bind_result (parse_positive_integer (env ''SHIELDWARD_REDIS_COMMAND_TIMEOUT_MS'') 1000 ''SHIELDWARD_REDIS_COMMAND_TIMEOUT_MS'' 30000) (\<lambda>command.
             Inr (RedisBackend \<lparr>rr_url = url, rr_username = username, rr_passwordFile = passwordFile,
                    rr_certificateAuthorityFile = authority, rr_keyPrefix = prefix, rr_connectTimeoutMs = connect,
                    rr_commandTimeoutMs = command\<rparr>)))))))))))"

text \<open>The whole configuration.\<close>

definition read_runtime_configuration :: "runtime_platform \<Rightarrow> environment \<Rightarrow> runtime_config result" where
  "read_runtime_configuration P env =
     (let hostname = (case env ''HOST'' of None \<Rightarrow> js ''127.0.0.1''
                      | Some h \<Rightarrow> if trim h = [] then js ''127.0.0.1'' else trim h) in
      bind_result (parse_positive_integer (env ''PORT'') 8787 ''PORT'' 65535) (\<lambda>port.
      bind_result (parse_control_plane_url P
          (case env ''CONTROL_PLANE_URL'' of None \<Rightarrow> js ''http://127.0.0.1:18080'' | Some v \<Rightarrow> v)) (\<lambda>controlPlaneUrl.
      bind_result (parse_public_key_file P (env ''SHIELDWARD_PUBLIC_KEY_FILE'')) (\<lambda>publicKeyFile.
      bind_result (parse_tls_configuration P env) (\<lambda>tls.
      bind_result (parse_control_plane_tls_configuration P env controlPlaneUrl) (\<lambda>controlPlaneTls.
      if tls = None \<and> \<not> is_loopback_hostname hostname
      then config_error (js ''TLS certificate and key are required when HOST is not loopback'')
      else
      bind_result (parse_positive_integer (env ''MAX_REQUEST_BODY_BYTES'') (1024 * 1024) ''MAX_REQUEST_BODY_BYTES'' max_safe) (\<lambda>bodyBytes.
      bind_result (parse_positive_integer (env ''SHIELDWARD_UPSTREAM_TIMEOUT_MS'') 10000 ''SHIELDWARD_UPSTREAM_TIMEOUT_MS'' 120000) (\<lambda>timeoutMs.
      bind_result (parse_positive_integer (env ''SHIELDWARD_MAX_IN_FLIGHT_REQUESTS'') 1024 ''SHIELDWARD_MAX_IN_FLIGHT_REQUESTS'' 100000) (\<lambda>inFlight.
      bind_result (parse_positive_integer (env ''SHIELDWARD_CIRCUIT_FAILURE_THRESHOLD'') 5 ''SHIELDWARD_CIRCUIT_FAILURE_THRESHOLD'' 100) (\<lambda>threshold.
      bind_result (parse_positive_integer (env ''SHIELDWARD_CIRCUIT_OPEN_MS'') 30000 ''SHIELDWARD_CIRCUIT_OPEN_MS'' 300000) (\<lambda>openMs.
      bind_result (parse_positive_integer (env ''SHIELDWARD_CIRCUIT_MAX_UPSTREAMS'') 1024 ''SHIELDWARD_CIRCUIT_MAX_UPSTREAMS'' 100000) (\<lambda>upstreams.
      bind_result (parse_positive_integer (env ''SHIELDWARD_SHUTDOWN_GRACE_MS'') 10000 ''SHIELDWARD_SHUTDOWN_GRACE_MS'' 120000) (\<lambda>grace.
      bind_result (parse_positive_integer (env ''SHIELDWARD_TLS_RELOAD_INTERVAL_MS'') 30000 ''SHIELDWARD_TLS_RELOAD_INTERVAL_MS'' 300000) (\<lambda>reload.
      bind_result (parse_rate_limit_configuration P env) (\<lambda>rateLimit.
        Inr \<lparr>rc_hostname = hostname, rc_port = port, rc_controlPlaneUrl = controlPlaneUrl, rc_publicKeyFile = publicKeyFile,
             rc_maxRequestBodyBytes = bodyBytes, rc_upstreamTimeoutMs = timeoutMs, rc_maxInFlightRequests = inFlight,
             rc_circuitFailureThreshold = threshold, rc_circuitOpenDurationMs = openMs, rc_circuitMaximumUpstreams = upstreams,
             rc_shutdownGracePeriodMs = grace, rc_tls = tls, rc_controlPlaneTls = controlPlaneTls,
             rc_tlsReloadIntervalMs = reload, rc_rateLimit = rateLimit\<rparr>)))))))))))))))"

section \<open>What a configuration that was read satisfies\<close>

text \<open>
  The law of the platform's URLs the configuration relies on, since it reads the text of an URL it
  wrote: parsing the serialization of a parsed URL, with or without its fragment, gives it back. The
  serializer is a function of the parts a URL shows, so it does not tell an empty query (a last
  \<open>?\<close>) from none; no check here reads that character.
\<close>

definition href_law :: "runtime_platform \<Rightarrow> bool" where
  "href_law P \<longleftrightarrow> (\<forall>s u. rp_parse_url P s = Some u \<longrightarrow>
     rp_parse_url P (rp_href P u) = Some u
     \<and> rp_parse_url P (rp_href P (u\<lparr>u_hash := []\<rparr>)) = Some (u\<lparr>u_hash := []\<rparr>))"

definition in_bound :: "int \<Rightarrow> int \<Rightarrow> bool" where
  "in_bound maximum n \<longleftrightarrow> 1 \<le> n \<and> n \<le> maximum"

definition control_plane_ok :: "runtime_platform \<Rightarrow> runtime_config \<Rightarrow> bool" where
  "control_plane_ok P c \<longleftrightarrow> (\<exists>u. rp_parse_url P (rc_controlPlaneUrl c) = Some u
     \<and> uses_secure_transport u \<and> u_username u = [] \<and> u_password u = [] \<and> u_hash u = []
     \<and> (rc_controlPlaneTls c \<noteq> None \<longleftrightarrow> u_protocol u = js ''https:''))"

definition redis_ok :: "runtime_platform \<Rightarrow> redis_config \<Rightarrow> bool" where
  "redis_ok P r \<longleftrightarrow> (\<exists>u. rp_parse_url P (rr_url r) = Some u
        \<and> (u_protocol u = js ''rediss:''
           \<or> (u_protocol u = js ''redis:'' \<and> is_loopback_hostname (u_hostname u)
              \<and> rr_certificateAuthorityFile r = None))
        \<and> u_username u = [] \<and> u_password u = [] \<and> u_search u = [] \<and> u_hash u = [])
     \<and> rr_keyPrefix r \<noteq> [] \<and> length (rr_keyPrefix r) \<le> 128 \<and> list_all redis_prefix_char (rr_keyPrefix r)
     \<and> (case rr_username r of None \<Rightarrow> True | Some n \<Rightarrow> n \<noteq> [] \<and> length n \<le> 256)
     \<and> in_bound 30000 (rr_connectTimeoutMs r) \<and> in_bound 30000 (rr_commandTimeoutMs r)"

definition rate_limit_config_ok :: "runtime_platform \<Rightarrow> rate_limit_config \<Rightarrow> bool" where
  "rate_limit_config_ok P l = (case l of MemoryBackend \<Rightarrow> True | RedisBackend r \<Rightarrow> redis_ok P r)"

definition runtime_config_ok :: "runtime_platform \<Rightarrow> runtime_config \<Rightarrow> bool" where
  "runtime_config_ok P c \<longleftrightarrow>
     (rc_tls c = None \<longrightarrow> is_loopback_hostname (rc_hostname c))
     \<and> control_plane_ok P c \<and> rate_limit_config_ok P (rc_rateLimit c)
     \<and> in_bound 65535 (rc_port c) \<and> in_bound max_safe (rc_maxRequestBodyBytes c)
     \<and> in_bound 120000 (rc_upstreamTimeoutMs c) \<and> in_bound 100000 (rc_maxInFlightRequests c)
     \<and> in_bound 100 (rc_circuitFailureThreshold c) \<and> in_bound 300000 (rc_circuitOpenDurationMs c)
     \<and> in_bound 100000 (rc_circuitMaximumUpstreams c) \<and> in_bound 120000 (rc_shutdownGracePeriodMs c)
     \<and> in_bound 300000 (rc_tlsReloadIntervalMs c)"

text \<open>Every parser of settings fails with a configuration error and nothing else.\<close>

definition config_fails :: "'a result \<Rightarrow> bool" where
  "config_fails r = (case r of Inl e \<Rightarrow> (\<exists>m. e = RuntimeConfigurationError m) | Inr x \<Rightarrow> True)"

named_theorems config_intros \<open>parsers that fail only with a configuration error\<close>

lemma config_fails_error [config_intros]: "config_fails (config_error m)"
  by (simp add: config_fails_def config_error_def)

lemma config_fails_Inr [config_intros]: "config_fails (Inr x)"
  by (simp add: config_fails_def)

lemma config_fails_bind [config_intros]:
  "config_fails r \<Longrightarrow> (\<And>x. r = Inr x \<Longrightarrow> config_fails (f x)) \<Longrightarrow> config_fails (bind_result r f)"
  by (cases r) (auto simp: config_fails_def)

lemma config_fails_if [config_intros]:
  "(b \<Longrightarrow> config_fails r) \<Longrightarrow> (\<not> b \<Longrightarrow> config_fails s) \<Longrightarrow> config_fails (if b then r else s)"
  by simp

lemma config_error_Inr [simp]: "config_error m = Inr x \<longleftrightarrow> False"
  by (simp add: config_error_def)

lemma positive_integer_fails [config_intros]: "config_fails (parse_positive_integer v fb name m)"
  unfolding parse_positive_integer_def Let_def
  by (cases v) (auto intro!: config_intros)

lemma optional_path_fails [config_intros]: "config_fails (parse_optional_path P v name)"
  unfolding parse_optional_path_def by (cases v) (auto intro!: config_intros)

lemma public_key_file_fails [config_intros]: "config_fails (parse_public_key_file P v)"
  unfolding parse_public_key_file_def by (cases v) (auto intro!: config_intros)

lemma optional_text_fails [config_intros]: "config_fails (parse_optional_text v name n)"
  unfolding parse_optional_text_def by (cases v) (auto intro!: config_intros)

lemma redis_key_prefix_fails [config_intros]: "config_fails (parse_redis_key_prefix v)"
  unfolding parse_redis_key_prefix_def Let_def by (intro config_intros)

lemma control_plane_url_fails [config_intros]: "config_fails (parse_control_plane_url P v)"
  unfolding parse_control_plane_url_def by (cases "rp_parse_url P (trim v)") (auto intro!: config_intros)

lemma redis_url_fails [config_intros]: "config_fails (parse_redis_url P v)"
  unfolding parse_redis_url_def by (auto split: option.split intro!: config_intros)

lemma tls_configuration_fails [config_intros]: "config_fails (parse_tls_configuration P env)"
  unfolding parse_tls_configuration_def
  by (intro config_intros) (auto split: option.split intro!: config_intros)

lemma url_of_fails [config_intros]: "rp_parse_url P s \<noteq> None \<Longrightarrow> config_fails (url_of P s)"
  by (auto simp: url_of_def config_fails_def)

lemma control_plane_tls_fails [config_intros]:
  "rp_parse_url P s \<noteq> None \<Longrightarrow> config_fails (parse_control_plane_tls_configuration P env s)"
  unfolding parse_control_plane_tls_configuration_def Let_def by (intro config_intros)

lemma positive_integer_bound:
  assumes "parse_positive_integer v fb name m = Inr n" and "in_bound m fb"
  shows "in_bound m n"
proof (cases v)
  case None
  with assms show ?thesis by (simp add: parse_positive_integer_def)
next
  case (Some raw)
  with assms(1) have "is_safe_integer (number_of_digits (trim raw))" "\<not> jle (number_of_digits (trim raw)) (num 0)"
    "jle (number_of_digits (trim raw)) (num m)" and n: "n = int_of_num (number_of_digits (trim raw))"
    by (auto simp: parse_positive_integer_def Let_def split: if_splits)
  then show ?thesis by (auto simp: is_safe_integer_iff in_bound_def)
qed

text \<open>A numeral within the bound is read as its value.\<close>

lemma positive_integer_read:
  assumes "in_bound m (int k)" and "m \<le> max_safe" and "trim text = dec k"
  shows "parse_positive_integer (Some text) fb name m = Inr (int k)"
proof -
  have "number_of_digits (dec k) = num (int k)"
    using assms by (intro number_of_dec) (auto simp: in_bound_def max_safe_def)
  with assms show ?thesis
    by (simp add: parse_positive_integer_def dec_all_digits in_bound_def)
qed

lemma redis_key_prefix_value:
  "parse_redis_key_prefix v = Inr p \<Longrightarrow> p \<noteq> [] \<and> length p \<le> 128 \<and> list_all redis_prefix_char p"
  unfolding parse_redis_key_prefix_def Let_def
  by (simp split: if_splits) auto

lemma optional_text_value:
  "parse_optional_text v name m = Inr t \<Longrightarrow> (case t of None \<Rightarrow> True | Some n \<Rightarrow> n \<noteq> [] \<and> length n \<le> m)"
  by (auto simp: parse_optional_text_def split: option.splits if_splits)

lemma control_plane_url_value:
  assumes law: "href_law P" and r: "parse_control_plane_url P v = Inr s"
  shows "\<exists>u. rp_parse_url P s = Some u \<and> uses_secure_transport u \<and> u_username u = [] \<and> u_password u = [] \<and> u_hash u = []"
proof -
  from r obtain u where u: "rp_parse_url P (trim v) = Some u" "uses_secure_transport u" "u_username u = []"
      "u_password u = []" "s = rp_href P (u\<lparr>u_hash := []\<rparr>)"
    by (auto simp: parse_control_plane_url_def split: option.splits if_splits)
  with law have "rp_parse_url P s = Some (u\<lparr>u_hash := []\<rparr>)" by (auto simp: href_law_def)
  with u show ?thesis by (intro exI [of _ "u\<lparr>u_hash := []\<rparr>"]) (simp add: uses_secure_transport_def)
qed

lemma redis_url_value:
  assumes law: "href_law P" and r: "parse_redis_url P v = Inr s"
  shows "\<exists>u. rp_parse_url P s = Some u
        \<and> (u_protocol u = js ''rediss:'' \<or> (u_protocol u = js ''redis:'' \<and> is_loopback_hostname (u_hostname u)))
        \<and> u_username u = [] \<and> u_password u = [] \<and> u_search u = [] \<and> u_hash u = []"
proof -
  from r obtain t u where "rp_parse_url P t = Some u" and s: "s = rp_href P u"
      and u: "u_protocol u = js ''rediss:'' \<or> (u_protocol u = js ''redis:'' \<and> is_loopback_hostname (u_hostname u))"
        "u_username u = []" "u_password u = []" "u_search u = []" "u_hash u = []"
    by (auto simp: parse_redis_url_def split: option.splits if_splits)
  with law have "rp_parse_url P s = Some u" by (auto simp: href_law_def)
  with u show ?thesis by auto
qed

lemma rate_limit_configuration_fails:
  assumes law: "href_law P"
  shows "config_fails (parse_rate_limit_configuration P env)"
proof -
  have "rp_parse_url P s \<noteq> None" if "parse_redis_url P v = Inr s" for v s
    using redis_url_value [OF law that] by auto
  then show ?thesis
    unfolding parse_rate_limit_configuration_def Let_def
    by (intro config_intros) (auto split: option.split intro!: config_intros)
qed

lemma control_plane_tls_value:
  assumes "parse_control_plane_tls_configuration P env s = Inr t"
  shows "\<exists>u. rp_parse_url P s = Some u \<and> (t \<noteq> None \<longleftrightarrow> u_protocol u = js ''https:'')"
  using assms
  by (auto simp: parse_control_plane_tls_configuration_def Let_def url_of_def result_simps split: option.splits if_splits)

lemma authority_check:
  "(if a = None then Inr () else bind_result r (\<lambda>u. if Q u then Inl e else Inr ())) = Inr x
     \<longleftrightarrow> a = None \<or> (\<exists>u. r = Inr u \<and> \<not> Q u)"
  by (cases r) auto

lemma not_memory:
  "(if m then (case f of None \<Rightarrow> Inr MemoryBackend | Some s \<Rightarrow> Inl (g s)) else r) = Inr (RedisBackend c)
     \<longleftrightarrow> \<not> m \<and> r = Inr (RedisBackend c)"
  by (auto split: option.splits)

lemma rate_limit_configuration_ok:
  assumes law: "href_law P" and r: "parse_rate_limit_configuration P env = Inr l"
  shows "rate_limit_config_ok P l"
proof (cases l)
  case MemoryBackend
  then show ?thesis by (simp add: rate_limit_config_ok_def)
next
  case (RedisBackend c)
  have fb: "in_bound 30000 3000" "in_bound 30000 1000" by (simp_all add: in_bound_def)
  have
    u: "parse_redis_url P (env ''SHIELDWARD_REDIS_URL'') = Inr (rr_url c)" and
    a: "rr_certificateAuthorityFile c = None \<or> (\<exists>u. rp_parse_url P (rr_url c) = Some u \<and> u_protocol u = js ''rediss:'')" and
    n: "parse_optional_text (env ''SHIELDWARD_REDIS_USERNAME'') ''SHIELDWARD_REDIS_USERNAME'' 256 = Inr (rr_username c)" and
    p: "parse_redis_key_prefix (env ''SHIELDWARD_REDIS_PREFIX'') = Inr (rr_keyPrefix c)" and
    t: "parse_positive_integer (env ''SHIELDWARD_REDIS_CONNECT_TIMEOUT_MS'') 3000 ''SHIELDWARD_REDIS_CONNECT_TIMEOUT_MS'' 30000 = Inr (rr_connectTimeoutMs c)"
      "parse_positive_integer (env ''SHIELDWARD_REDIS_COMMAND_TIMEOUT_MS'') 1000 ''SHIELDWARD_REDIS_COMMAND_TIMEOUT_MS'' 30000 = Inr (rr_commandTimeoutMs c)"
    using r unfolding RedisBackend parse_rate_limit_configuration_def Let_def url_of_def
    by (simp_all only: if_Inl_Inr bind_result_Inr config_error_def authority_check not_memory sum.inject
        rate_limit_config.inject) (elim exE conjE, fastforce split: option.splits)+
  show ?thesis
    using redis_url_value [OF law u] a optional_text_value [OF n] redis_key_prefix_value [OF p]
      positive_integer_bound [OF t(1) fb(1)] positive_integer_bound [OF t(2) fb(2)] RedisBackend
    by (auto simp: rate_limit_config_ok_def redis_ok_def)
qed

lemma runtime_configuration_fails:
  assumes law: "href_law P"
  shows "config_fails (read_runtime_configuration P env)"
proof -
  have "rp_parse_url P s \<noteq> None" if "parse_control_plane_url P v = Inr s" for v s
    using control_plane_url_value [OF law that] by auto
  then show ?thesis
    unfolding read_runtime_configuration_def Let_def
    by (intro config_intros rate_limit_configuration_fails [OF law]) assumption
qed

lemma runtime_configuration_ok:
  assumes law: "href_law P" and r: "read_runtime_configuration P env = Inr c"
  shows "runtime_config_ok P c"
proof -
  have bounds: "in_bound 65535 8787" "in_bound max_safe (1024 * 1024)" "in_bound 120000 10000" "in_bound 100000 1024"
    "in_bound 100 5" "in_bound 300000 30000"
    by (simp_all add: in_bound_def max_safe_def)
  from r obtain h port s k t m body tmo flight thr opn ups grace rel l where
    s: "parse_control_plane_url P (case env ''CONTROL_PLANE_URL'' of None \<Rightarrow> js ''http://127.0.0.1:18080'' | Some v \<Rightarrow> v) = Inr s" and
    m: "parse_control_plane_tls_configuration P env s = Inr m" and
    l: "parse_rate_limit_configuration P env = Inr l" and
    h: "\<not> (t = None \<and> \<not> is_loopback_hostname h)" and
    n: "parse_positive_integer (env ''PORT'') 8787 ''PORT'' 65535 = Inr port"
      "parse_positive_integer (env ''MAX_REQUEST_BODY_BYTES'') (1024 * 1024) ''MAX_REQUEST_BODY_BYTES'' max_safe = Inr body"
      "parse_positive_integer (env ''SHIELDWARD_UPSTREAM_TIMEOUT_MS'') 10000 ''SHIELDWARD_UPSTREAM_TIMEOUT_MS'' 120000 = Inr tmo"
      "parse_positive_integer (env ''SHIELDWARD_MAX_IN_FLIGHT_REQUESTS'') 1024 ''SHIELDWARD_MAX_IN_FLIGHT_REQUESTS'' 100000 = Inr flight"
      "parse_positive_integer (env ''SHIELDWARD_CIRCUIT_FAILURE_THRESHOLD'') 5 ''SHIELDWARD_CIRCUIT_FAILURE_THRESHOLD'' 100 = Inr thr"
      "parse_positive_integer (env ''SHIELDWARD_CIRCUIT_OPEN_MS'') 30000 ''SHIELDWARD_CIRCUIT_OPEN_MS'' 300000 = Inr opn"
      "parse_positive_integer (env ''SHIELDWARD_CIRCUIT_MAX_UPSTREAMS'') 1024 ''SHIELDWARD_CIRCUIT_MAX_UPSTREAMS'' 100000 = Inr ups"
      "parse_positive_integer (env ''SHIELDWARD_SHUTDOWN_GRACE_MS'') 10000 ''SHIELDWARD_SHUTDOWN_GRACE_MS'' 120000 = Inr grace"
      "parse_positive_integer (env ''SHIELDWARD_TLS_RELOAD_INTERVAL_MS'') 30000 ''SHIELDWARD_TLS_RELOAD_INTERVAL_MS'' 300000 = Inr rel" and
    c: "\<lparr>rc_hostname = h, rc_port = port, rc_controlPlaneUrl = s, rc_publicKeyFile = k,
             rc_maxRequestBodyBytes = body, rc_upstreamTimeoutMs = tmo, rc_maxInFlightRequests = flight,
             rc_circuitFailureThreshold = thr, rc_circuitOpenDurationMs = opn, rc_circuitMaximumUpstreams = ups,
             rc_shutdownGracePeriodMs = grace, rc_tls = t, rc_controlPlaneTls = m,
             rc_tlsReloadIntervalMs = rel, rc_rateLimit = l\<rparr> = c"
    unfolding read_runtime_configuration_def Let_def
    by (simp only: bind_result_Inr if_Inl_Inr config_error_def sum.inject) (elim exE conjE, rule that, assumption+)
  have "control_plane_ok P c"
    using control_plane_url_value [OF law s] control_plane_tls_value [OF m]
    unfolding control_plane_ok_def c [symmetric] by auto
  moreover have "rate_limit_config_ok P (rc_rateLimit c)"
    using rate_limit_configuration_ok [OF law l] by (simp add: c [symmetric])
  ultimately show ?thesis
    using h n [THEN positive_integer_bound] bounds by (auto simp: runtime_config_ok_def c [symmetric])
qed

text \<open>C30: Configuration. Reading the environment either fails with a configuration error or yields
  settings that are safe to run: every number is within its bound, a listener without TLS is bound to
  the loopback interface, the control plane and Redis are reached over secure transport without
  credentials in their URLs, and mutual TLS is configured exactly for an HTTPS control plane.\<close>

theorem runtime_config_safe:
  assumes "href_law P"
  shows "case read_runtime_configuration P env of
           Inl e \<Rightarrow> \<exists>m. e = RuntimeConfigurationError m
         | Inr c \<Rightarrow> runtime_config_ok P c"
  using runtime_configuration_fails [OF assms, of env] runtime_configuration_ok [OF assms, of env]
  by (auto simp: config_fails_def split: sum.split)

text \<open>An empty environment, on a platform that knows the default URL of the control plane.\<close>

definition demo_control_url :: url where
  "demo_control_url = \<lparr>u_protocol = js ''http:'', u_username = [], u_password = [], u_hostname = js ''127.0.0.1'',
     u_host = js ''127.0.0.1:18080'', u_port = js ''18080'', u_pathname = js ''/'', u_search = [], u_hash = []\<rparr>"

definition demo_platform :: runtime_platform where
  "demo_platform = \<lparr>rp_parse_url = (\<lambda>s. if starts_with (js ''http://127.0.0.1:18080'') s then Some demo_control_url else None),
     rp_href = (\<lambda>u. js ''http://127.0.0.1:18080/''), rp_resolve = (\<lambda>p. p), rp_publicKeyFile = js ''/edge/public.pem''\<rparr>"

theorem runtime_config_safe_witness:
  "\<exists>c. read_runtime_configuration demo_platform (\<lambda>n. None) = Inr c \<and> runtime_config_ok demo_platform c
     \<and> rc_port c = 8787 \<and> rc_tls c = None \<and> rc_controlPlaneUrl c = js ''http://127.0.0.1:18080/''"
proof -
  have url: "rp_parse_url demo_platform (js ''http://127.0.0.1:18080'') = Some demo_control_url"
    "rp_parse_url demo_platform (js ''http://127.0.0.1:18080/'') = Some demo_control_url"
    by (simp_all add: demo_platform_def starts_with_iff js_def)
  have law: "href_law demo_platform"
    using url by (auto simp: href_law_def demo_platform_def demo_control_url_def split: if_splits)
  note host = loopback_127
  have "trim (js ''http://127.0.0.1:18080'') = js ''http://127.0.0.1:18080''"
    by (rule trim_id) (simp_all add: js_def is_space_def)
  moreover have "uses_secure_transport demo_control_url"
    using host by (simp add: uses_secure_transport_def demo_control_url_def)
  ultimately have "parse_control_plane_url demo_platform (js ''http://127.0.0.1:18080'') = Inr (js ''http://127.0.0.1:18080/'')"
    using url by (simp add: parse_control_plane_url_def demo_control_url_def) (simp add: demo_platform_def)
  moreover have "parse_rate_limit_configuration demo_platform (\<lambda>n. None) = Inr MemoryBackend"
  proof -
    have "trim (js ''memory'') = js ''memory''" by (rule trim_id) (simp_all add: js_def is_space_def)
    moreover have "to_lower (js ''memory'') = js ''memory''" by code_simp
    ultimately show ?thesis by (simp add: parse_rate_limit_configuration_def redis_setting_names_def)
  qed
  ultimately obtain c where "read_runtime_configuration demo_platform (\<lambda>n. None) = Inr c" "rc_port c = 8787"
      "rc_tls c = None" "rc_controlPlaneUrl c = js ''http://127.0.0.1:18080/''"
    using url host
    by (simp add: read_runtime_configuration_def parse_positive_integer_def parse_public_key_file_def parse_tls_configuration_def
        parse_optional_path_def parse_control_plane_tls_configuration_def url_of_def demo_control_url_def)
  with runtime_config_safe [OF law, of "\<lambda>n. None"] show ?thesis by auto
qed

end
