(* ===== verification/MutualTlsFetch.thy ===== *)
theory MutualTlsFetch imports Http Tls begin

text \<open>
  Fetching over mutual TLS (\<open>edge/src/mutual-tls-fetch.ts\<close>): the guards on the request, the options
  handed to \<open>node:https\<close> with the material in force, and the response made of what arrives. The
  exchange itself is an argument.
\<close>

section \<open>Requests and what arrives\<close>

datatype redirect_mode = FollowRedirect | ErrorOnRedirect | ManualRedirect

record fetch_request = http_request +
  fr_redirect :: redirect_mode

record https_options =
  ho_method :: ustr
  ho_headers :: "(ustr \<times> ustr) list"
  ho_ca :: "ustr option"
  ho_cert :: ustr
  ho_key :: ustr
  ho_minVersion :: string
  ho_rejectUnauthorized :: bool
  ho_agent :: bool

text \<open>A header of \<open>IncomingHttpHeaders\<close>: one value, several, or undefined.\<close>

datatype header_value = OneValue ustr | ManyValues "ustr list" | NoValue

record incoming_message =
  in_statusCode :: "int option"
  in_statusMessage :: "ustr option"
  in_headers :: "(ustr \<times> header_value) list"
  in_body :: body_stream

text \<open>
  How a fetch ends: with a response, with a rejection, or with an exception thrown inside the
  callback, after which the promise never settles.
\<close>

datatype fetch_end = Fetched http_response | FetchRejected js_error | CallbackThrew js_error

section \<open>Operations\<close>

definition object_from_entries :: "(ustr \<times> ustr) list \<Rightarrow> (ustr \<times> ustr) list" where
  "object_from_entries es = foldl (\<lambda>obj (k, v). AList.update k v obj) [] es"

definition https_options_of :: "tls_material result \<Rightarrow> fetch_request \<Rightarrow> https_options result" where
  "https_options_of provided request =
     (if u_protocol (req_url request) \<noteq> js ''https:''
      then Inl (TypeError (js ''mutual TLS fetch requires an HTTPS URL''))
      else if req_method request \<noteq> js ''GET'' \<and> req_method request \<noteq> js ''HEAD''
      then Inl (TypeError (js ''mutual TLS fetch supports only GET and HEAD requests''))
      else if req_body request \<noteq> None
      then Inl (TypeError (js ''mutual TLS fetch does not accept request bodies''))
      else bind_result provided (\<lambda>material.
        Inr \<lparr>ho_method = req_method request,
             ho_headers = object_from_entries (header_entries (req_headers request)),
             ho_ca = tm_certificateAuthority material, ho_cert = tm_certificate material,
             ho_key = tm_privateKey material, ho_minVersion = ''TLSv1.2'',
             ho_rejectUnauthorized = True, ho_agent = False\<rparr>))"

fun append_header :: "ustr \<Rightarrow> header_value \<Rightarrow> headers \<Rightarrow> headers" where
  "append_header name NoValue h = h"
| "append_header name (ManyValues vs) h = foldl (\<lambda>h v. header_append name v h) h vs"
| "append_header name (OneValue v) h = header_append name v h"

definition response_headers :: "(ustr \<times> header_value) list \<Rightarrow> headers" where
  "response_headers source = foldl (\<lambda>h (name, v). append_header name v h) [] source"

definition fetch_response :: "fetch_request \<Rightarrow> incoming_message \<Rightarrow> fetch_end" where
  "fetch_response request incoming =
     (let status = (case in_statusCode incoming of None \<Rightarrow> 0 | Some n \<Rightarrow> n) in
      if 300 \<le> status \<and> status < 400 \<and> fr_redirect request = ErrorOnRedirect
      then FetchRejected (TypeError (js ''mutual TLS fetch rejected a redirect''))
      else if status < 100 \<or> 599 < status
      then FetchRejected (TypeError (js ''mutual TLS server returned an invalid status''))
      else
        (let body = (if req_method request = js ''HEAD'' \<or> status = 204 \<or> status = 205 \<or> status = 304
                     then None else Some (in_body incoming)) in
         case new_response body status (case in_statusMessage incoming of None \<Rightarrow> [] | Some m \<Rightarrow> m)
                (response_headers (in_headers incoming)) of
           Inl e \<Rightarrow> CallbackThrew e
         | Inr response \<Rightarrow> Fetched response))"

text \<open>\<open>createMutualTlsFetch(provider, requester)(request)\<close>.\<close>

definition mutual_tls_fetch ::
  "tls_material result \<Rightarrow> (url \<Rightarrow> https_options \<Rightarrow> incoming_message result) \<Rightarrow> fetch_request \<Rightarrow> fetch_end" where
  "mutual_tls_fetch provided requester request =
     (case https_options_of provided request of
        Inl e \<Rightarrow> FetchRejected e
      | Inr opts \<Rightarrow>
          (case requester (req_url request) opts of
             Inl e \<Rightarrow> FetchRejected e
           | Inr incoming \<Rightarrow> fetch_response request incoming))"

section \<open>What is sent and what is answered\<close>

lemma https_options_exact:
  "https_options_of provided request = Inr opts \<longleftrightarrow>
     u_protocol (req_url request) = js ''https:'' \<and> req_method request \<in> {js ''GET'', js ''HEAD''}
     \<and> req_body request = None
     \<and> (\<exists>m. provided = Inr m
          \<and> opts = \<lparr>ho_method = req_method request, ho_headers = object_from_entries (header_entries (req_headers request)),
               ho_ca = tm_certificateAuthority m, ho_cert = tm_certificate m, ho_key = tm_privateKey m,
               ho_minVersion = ''TLSv1.2'', ho_rejectUnauthorized = True, ho_agent = False\<rparr>)"
  by (auto simp: https_options_of_def bind_result_Inr)

text \<open>Which arrivals are answered, and with what.\<close>

definition answered_with :: "fetch_request \<Rightarrow> incoming_message \<Rightarrow> http_response \<Rightarrow> bool" where
  "answered_with request incoming response \<longleftrightarrow>
     (\<exists>status. in_statusCode incoming = Some status \<and> 200 \<le> status \<and> status \<le> 599
        \<and> (fr_redirect request = ErrorOnRedirect \<longrightarrow> status < 300 \<or> 400 \<le> status)
        \<and> response = \<lparr>res_status = status,
             res_statusText = (case in_statusMessage incoming of None \<Rightarrow> [] | Some message \<Rightarrow> message),
             res_headers = response_headers (in_headers incoming),
             res_body = (if req_method request = js ''HEAD'' \<or> status \<in> {204, 205, 304} then None else Some (in_body incoming))\<rparr>)"

lemma fetch_response_exact: "fetch_response request incoming = Fetched response \<longleftrightarrow> answered_with request incoming response"
proof (cases "in_statusCode incoming")
  case None
  then show ?thesis by (simp add: fetch_response_def answered_with_def)
next
  case (Some n)
  then show ?thesis
    by (auto simp: fetch_response_def answered_with_def new_response_def null_body_status_def Let_def split: if_splits)
qed

text \<open>The callback throws only on an informational status, which \<open>node:http\<close> does not hand to it.\<close>

lemma new_response_fails:
  "new_response b n t h = Inl e \<Longrightarrow> \<not> (599 < n) \<Longrightarrow> \<not> (b \<noteq> None \<and> null_body_status n) \<Longrightarrow> n < 200 \<and> e = RangeError []"
  by (auto simp: new_response_def split: if_splits)

lemma callback_throws:
  assumes "fetch_response request incoming = CallbackThrew e"
  shows "\<exists>n. in_statusCode incoming = Some n \<and> 100 \<le> n \<and> n < 200"
proof -
  obtain n where n: "in_statusCode incoming = Some n"
    using assms by (cases "in_statusCode incoming") (auto simp: fetch_response_def)
  define b where "b = (if req_method request = js ''HEAD'' \<or> n = 204 \<or> n = 205 \<or> n = 304 then None else Some (in_body incoming))"
  have guards: "\<not> (300 \<le> n \<and> n < 400 \<and> fr_redirect request = ErrorOnRedirect)" "\<not> (n < 100 \<or> 599 < n)"
    using assms by (auto simp: fetch_response_def n simp del: not_less)
  then have r: "new_response b n (case in_statusMessage incoming of None \<Rightarrow> [] | Some m \<Rightarrow> m) (response_headers (in_headers incoming))
      = Inl e"
    using assms unfolding fetch_response_def n Let_def option.case if_not_P [OF guards(1)] if_not_P [OF guards(2)] b_def [symmetric]
    by (simp split: sum.splits)
  have "n < 200"
  proof (rule ccontr)
    assume "\<not> n < 200"
    then have "\<not> (b \<noteq> None \<and> null_body_status n)" by (auto simp: b_def null_body_status_def)
    with new_response_fails [OF r] guards \<open>\<not> n < 200\<close> show False by simp
  qed
  with n guards show ?thesis by simp
qed

text \<open>Each value of a name that arrives is a value of the response, in order.\<close>

fun values_of :: "header_value \<Rightarrow> ustr list" where
  "values_of NoValue = []"
| "values_of (OneValue v) = [v]"
| "values_of (ManyValues vs) = vs"

lemma header_values_append: "header_values (header_append name v h) n
    = header_values h n @ (if to_lower name = to_lower n then [v] else [])"
  by (simp add: header_values_def header_append_def)

lemma header_values_append_all: "header_values (foldl (\<lambda>h v. header_append name v h) h vs) n
    = header_values h n @ (if to_lower name = to_lower n then vs else [])"
  by (induction vs arbitrary: h) (auto simp: header_values_append)

lemma header_values_append_header: "header_values (append_header name v h) n
    = header_values h n @ (if to_lower name = to_lower n then values_of v else [])"
  by (cases v) (simp_all add: header_values_append header_values_append_all)

lemma response_header_values:
  "header_values (response_headers source) n
     = concat (map (\<lambda>(name, v). if to_lower name = to_lower n then values_of v else []) source)"
proof -
  have "header_values (foldl (\<lambda>h (name, v). append_header name v h) h source) n
     = header_values h n @ concat (map (\<lambda>(name, v). if to_lower name = to_lower n then values_of v else []) source)" for h
    by (induction source arbitrary: h) (auto simp: header_values_append_header)
  then show ?thesis by (simp add: response_headers_def) (simp add: header_values_def)
qed

lemma mutual_tls_fetch_exact:
  "mutual_tls_fetch provided requester request = Fetched response \<longleftrightarrow>
     (\<exists>sent incoming. https_options_of provided request = Inr sent
        \<and> requester (req_url request) sent = Inr incoming \<and> answered_with request incoming response)"
  by (auto simp: mutual_tls_fetch_def fetch_response_exact split: sum.splits)

text \<open>C32: Mutual TLS. A fetch ends with a response exactly when the request is a GET or HEAD without body
  over HTTPS, the reloader holds material, the request sent with it, verification of the server on and
  TLS 1.2 at least, is answered, and the answer has a status from 200 to 599 that is no redirect the
  caller refuses; the response is that answer: its status and reason, every value of every header in
  order, and its body, but none for HEAD and the statuses that have none. The material sent is the
  certificate, key and authority in force at that moment, which passed their validation.\<close>

theorem control_plane_fetch_authenticated:
  assumes "tls_reachable opts intervalMs s"
    and "ro_validate opts = Some (validate_tls_material (ro_platform opts))"
  shows "(mutual_tls_fetch (current_material (tl_reloader s)) requester request = Fetched response \<longleftrightarrow>
       u_protocol (req_url request) = js ''https:'' \<and> req_method request \<in> {js ''GET'', js ''HEAD''} \<and> req_body request = None
       \<and> (\<exists>m incoming. rl_current (tl_reloader s) = Some m
            \<and> requester (req_url request)
                \<lparr>ho_method = req_method request, ho_headers = object_from_entries (header_entries (req_headers request)),
                 ho_ca = tm_certificateAuthority m, ho_cert = tm_certificate m, ho_key = tm_privateKey m,
                 ho_minVersion = ''TLSv1.2'', ho_rejectUnauthorized = True, ho_agent = False\<rparr> = Inr incoming
            \<and> answered_with request incoming response))
     \<and> (\<forall>m. rl_current (tl_reloader s) = Some m \<longrightarrow> (\<exists>now. sound_material (ro_platform opts) now m))
     \<and> (\<forall>incoming n. answered_with request incoming response \<longrightarrow>
          header_values (res_headers response) n
            = concat (map (\<lambda>(name, v). if to_lower name = to_lower n then values_of v else []) (in_headers incoming)))"
proof (intro conjI allI impI)
  show "\<exists>now. sound_material (ro_platform opts) now m" if "rl_current (tl_reloader s) = Some m" for m
    using current_sound [OF assms that] by blast
  show "header_values (res_headers response) n
      = concat (map (\<lambda>(name, v). if to_lower name = to_lower n then values_of v else []) (in_headers incoming))"
    if "answered_with request incoming response" for incoming n
    using that by (auto simp: answered_with_def response_header_values)
qed (auto simp: mutual_tls_fetch_exact https_options_exact current_material_def split: option.splits)

text \<open>A poll of the control plane, answered with a policy bundle.\<close>

definition demo_poll :: fetch_request where
  "demo_poll = \<lparr>req_method = js ''GET'', req_url = demo_control_url\<lparr>u_protocol := js ''https:''\<rparr>, req_headers = [],
     req_body = None, fr_redirect = ErrorOnRedirect\<rparr>"

definition demo_answer :: incoming_message where
  "demo_answer = \<lparr>in_statusCode = Some 200, in_statusMessage = Some (js ''OK''),
     in_headers = [(js ''etag'', OneValue (js ''v1''))], in_body = \<lparr>st_chunks = [], st_failure = None\<rparr>\<rparr>"

theorem control_plane_fetch_authenticated_witness:
  "\<exists>(s :: tls_system) response. mutual_tls_fetch (current_material (tl_reloader s)) (\<lambda>u sent. Inr demo_answer) demo_poll = Fetched response
     \<and> rl_current (tl_reloader s) = Some demo_material \<and> res_status response = 200
     \<and> header_values (res_headers response) (js ''etag'') = [js ''v1'']
     \<and> res_body response = Some (in_body demo_answer)"
proof -
  obtain r0 where r0: "new_tls_reloader (num 1000) = Inr r0"
    by (simp add: new_tls_reloader_def is_positive_safe_def max_safe_def)
  define s where "s = (new_tls_system r0)\<lparr>tl_reloader := install_material demo_reload demo_material r0, tl_loaded := [demo_material]\<rparr>"
  have s: "tls_reachable demo_reload (num 1000) s"
    unfolding s_def by (rule reach_initialized [OF r0 demo_validated])
  obtain response where r: "mutual_tls_fetch (current_material (tl_reloader s)) (\<lambda>u sent. Inr demo_answer) demo_poll = Fetched response"
    by (simp add: mutual_tls_fetch_def https_options_of_def demo_poll_def s_def current_material_def install_material_def
        fetch_response_def demo_answer_def new_response_def null_body_status_def)
  have "ro_validate demo_reload = Some (validate_tls_material (ro_platform demo_reload))" by (simp add: demo_reload_def)
  note fetch = control_plane_fetch_authenticated [OF s this, of "\<lambda>u sent. Inr demo_answer" demo_poll response]
  from r have a: "answered_with demo_poll demo_answer response" unfolding fetch [THEN conjunct1] by auto
  with fetch have "header_values (res_headers response) (js ''etag'')
      = concat (map (\<lambda>(name, v). if to_lower name = to_lower (js ''etag'') then values_of v else []) (in_headers demo_answer))"
    by blast
  with a r show ?thesis
    by (intro exI [of _ s] exI [of _ response]) (auto simp: demo_answer_def s_def install_material_def answered_with_def demo_poll_def)
qed

end
