(* ===== verification/RateLimitRuntime.thy ===== *)
theory RateLimitRuntime imports RedisRateLimit RuntimeConfig Utf8 begin

text \<open>
  Building the limiter an edge runs with (\<open>edge/src/rate-limit-runtime.ts\<close>): the files of the Redis
  connection, the options its client gets, connecting, readiness and closing. The file system, the URL
  parser and the client of \<open>@redis/client\<close> are arguments; the calls made on the client are recorded.
\<close>

definition max_password_file_bytes :: nat where "max_password_file_bytes = 64 * 1024"
definition max_ca_file_bytes :: nat where "max_ca_file_bytes = 1024 * 1024"

section \<open>Files\<close>

text \<open>\<open>contents.toString('utf8')\<close>, which keeps a byte order mark.\<close>

definition buffer_to_string :: "8 word list \<Rightarrow> ustr" where
  "buffer_to_string bs = (case decode_stream (new_utf8_decoder\<lparr>ud_bom := True\<rparr>) bs of (t, d) \<Rightarrow> t @ decode_flush d)"

definition read_bounded_file :: "(ustr \<Rightarrow> 8 word list result) \<Rightarrow> ustr \<Rightarrow> nat \<Rightarrow> string \<Rightarrow> ustr result" where
  "read_bounded_file reader path maximumBytes description =
     (case reader path of
        Inl e \<Rightarrow> Inl (Error (js ''load '' @ js description @ js '' file failed''))
      | Inr contents \<Rightarrow>
          if length contents > maximumBytes
          then Inl (Error (js description @ js '' file exceeds '' @ dec maximumBytes @ js '' bytes''))
          else Inr (buffer_to_string contents))"

text \<open>\<open>contents.replace(/\r?\n$/, '')\<close>.\<close>

definition strip_newline :: "ustr \<Rightarrow> ustr" where
  "strip_newline s =
     (if ends_with [13, 10] s then take (length s - 2) s
      else if ends_with [10] s then take (length s - 1) s
      else s)"

definition load_password :: "(ustr \<Rightarrow> 8 word list result) \<Rightarrow> ustr \<Rightarrow> ustr result" where
  "load_password reader path =
     bind_result (read_bounded_file reader path max_password_file_bytes ''Redis password'') (\<lambda>contents.
       let password = strip_newline contents in
       if password = [] \<or> 13 \<in> set password \<or> 10 \<in> set password
       then Inl (Error (js ''Redis password file must contain exactly one non-empty line''))
       else Inr password)"

definition load_redis_authority :: "(ustr \<Rightarrow> 8 word list result) \<Rightarrow> ustr \<Rightarrow> ustr result" where
  "load_redis_authority reader path =
     bind_result (read_bounded_file reader path max_ca_file_bytes ''Redis certificate authority'') (\<lambda>authority.
       if trim authority = [] then Inl (Error (js ''Redis certificate authority file must not be empty''))
       else Inr authority)"

section \<open>The client\<close>

record redis_client_options =
  ko_url :: ustr
  ko_name :: ustr
  ko_disableOfflineQueue :: bool
  ko_commandsQueueMaxLength :: int
  ko_commandTimeout :: int
  ko_tls :: bool
  ko_ca :: "ustr option"
  ko_connectTimeout :: int
  ko_username :: "ustr option"
  ko_password :: "ustr option"

text \<open>\<open>reconnectStrategy\<close>.\<close>

definition reconnect_delay :: "nat \<Rightarrow> nat" where
  "reconnect_delay retries = min (50 * 2 ^ min retries 5) 1000"

datatype client_call = ClientOnError | ClientConnect | ClientPing | ClientClose | ClientDestroy

text \<open>How a client that was made answers.\<close>

record redis_peer =
  kp_connect :: "unit result"
  kp_ping :: "ustr result"

datatype rate_limit_runtime = MemoryRuntime fixed_window_limiter | RedisRuntime redis_client_options ustr

definition client_options :: "url \<Rightarrow> ustr option \<Rightarrow> ustr option \<Rightarrow> redis_config \<Rightarrow> redis_client_options" where
  "client_options redisUrl password authority config =
     \<lparr>ko_url = rr_url config, ko_name = js ''shieldward-edge'', ko_disableOfflineQueue = True,
      ko_commandsQueueMaxLength = 1000, ko_commandTimeout = rr_commandTimeoutMs config,
      ko_tls = (u_protocol redisUrl = js ''rediss:''),
      ko_ca = (if u_protocol redisUrl = js ''rediss:'' then authority else None),
      ko_connectTimeout = rr_connectTimeoutMs config, ko_username = rr_username config, ko_password = password\<rparr>"

definition redis_unavailable :: js_error where
  "redis_unavailable = Error (js ''connect distributed rate limiter: Redis is unavailable'')"

text \<open>The \<open>try\<close> around \<open>connect\<close> and \<open>ping\<close>.\<close>

definition connect_client :: "redis_peer \<Rightarrow> unit result \<times> client_call list" where
  "connect_client peer =
     (case kp_connect peer of
        Inl e \<Rightarrow> (Inl redis_unavailable, [ClientConnect, ClientDestroy])
      | Inr _ \<Rightarrow>
          if kp_ping peer \<noteq> Inr (js ''PONG'')
          then (Inl redis_unavailable, [ClientConnect, ClientPing, ClientDestroy])
          else (Inr (), [ClientConnect, ClientPing]))"

definition create_redis_runtime ::
  "(ustr \<Rightarrow> 8 word list result) \<Rightarrow> url_parser \<Rightarrow> (redis_client_options \<Rightarrow> redis_peer result) \<Rightarrow> redis_config
     \<Rightarrow> rate_limit_runtime result \<times> client_call list" where
  "create_redis_runtime reader parse_url factory config =
     (case bind_result (case rr_passwordFile config of None \<Rightarrow> Inr None
                        | Some path \<Rightarrow> bind_result (load_password reader path) (\<lambda>p. Inr (Some p))) (\<lambda>password.
           bind_result (case rr_certificateAuthorityFile config of None \<Rightarrow> Inr None
                        | Some path \<Rightarrow> bind_result (load_redis_authority reader path) (\<lambda>a. Inr (Some a))) (\<lambda>authority.
           bind_result (case parse_url (rr_url config) of None \<Rightarrow> Inl (TypeError (js ''Invalid URL'')) | Some u \<Rightarrow> Inr u) (\<lambda>u.
             let opts = client_options u password authority config in
             bind_result (factory opts) (\<lambda>peer. Inr (opts, peer))))) of
        Inl e \<Rightarrow> (Inl e, [])
      | Inr (opts, peer) \<Rightarrow>
          (case connect_client peer of
             (Inl e, calls) \<Rightarrow> (Inl e, ClientOnError # calls)
           | (Inr _, calls) \<Rightarrow>
               (bind_result (new_redis_limiter (Some (rr_keyPrefix config))) (\<lambda>keyPrefix. Inr (RedisRuntime opts keyPrefix)),
                ClientOnError # calls)))"

definition create_rate_limit_runtime ::
  "(ustr \<Rightarrow> 8 word list result) \<Rightarrow> url_parser \<Rightarrow> (redis_client_options \<Rightarrow> redis_peer result) \<Rightarrow> rate_limit_config
     \<Rightarrow> rate_limit_runtime result \<times> client_call list" where
  "create_rate_limit_runtime reader parse_url factory config =
     (case config of
        MemoryBackend \<Rightarrow> (bind_result (new_fixed_window_limiter None) (\<lambda>l. Inr (MemoryRuntime l)), [])
      | RedisBackend r \<Rightarrow> create_redis_runtime reader parse_url factory r)"

fun runtime_backend :: "rate_limit_runtime \<Rightarrow> rate_limit_backend" where
  "runtime_backend (MemoryRuntime l) = BackendMemory"
| "runtime_backend (RedisRuntime opts keyPrefix) = BackendRedis"

text \<open>\<open>ready\<close> and \<open>close\<close>, from the state of the client and the outcome of its own \<open>close\<close>.\<close>

fun runtime_ready :: "rate_limit_runtime \<Rightarrow> bool \<Rightarrow> bool" where
  "runtime_ready (MemoryRuntime l) isReady = True"
| "runtime_ready (RedisRuntime opts keyPrefix) isReady = isReady"

fun runtime_close :: "rate_limit_runtime \<Rightarrow> bool \<Rightarrow> unit result \<Rightarrow> unit result \<times> client_call list" where
  "runtime_close (MemoryRuntime l) isOpen outcome = (Inr (), [])"
| "runtime_close (RedisRuntime opts keyPrefix) isOpen outcome =
     (if \<not> isOpen then (Inr (), [ClientDestroy])
      else (case outcome of
              Inr _ \<Rightarrow> (Inr (), [ClientClose])
            | Inl e \<Rightarrow> (Inl (Error (js ''close distributed rate limiter: Redis shutdown failed'')), [ClientClose, ClientDestroy])))"

section \<open>Properties of the parts\<close>

lemma reconnect_delay_bounds: "50 \<le> reconnect_delay n \<and> reconnect_delay n \<le> 1000 \<and> reconnect_delay n \<le> reconnect_delay (Suc n)"
proof -
  have "(2 :: nat) ^ min n 5 \<le> 2 ^ min (Suc n) 5" by (rule power_increasing) auto
  moreover have "(1 :: nat) \<le> 2 ^ min n 5" by simp
  ultimately show ?thesis unfolding reconnect_delay_def by linarith
qed

text \<open>A file that holds a text is read as that text.\<close>

lemma buffer_to_string_round_trip: "well_formed_text s \<Longrightarrow> buffer_to_string (utf8_encode s) = s"
  using utf8_run_points [OF code_points_scalar [OF well_formed_units], of s True] units_of_points [of s]
  by (simp add: buffer_to_string_def decode_stream_def decode_flush_def utf8_encode_def new_utf8_decoder_def)

text \<open>A password is the one line of its file.\<close>

lemma load_password_line:
  "load_password reader path = Inr p \<Longrightarrow> p \<noteq> [] \<and> 10 \<notin> set p \<and> 13 \<notin> set p"
  by (auto simp: load_password_def Let_def bind_result_Inr split: if_splits)

lemma strip_newline_cases: "contents = strip_newline contents \<or> contents = strip_newline contents @ [10] \<or> contents = strip_newline contents @ [13, 10]"
  by (auto simp: strip_newline_def ends_with_iff)

definition password_of :: "(ustr \<Rightarrow> 8 word list result) \<Rightarrow> ustr \<Rightarrow> ustr \<Rightarrow> bool" where
  "password_of reader path p \<longleftrightarrow> p \<noteq> [] \<and> 10 \<notin> set p \<and> 13 \<notin> set p
     \<and> (\<exists>contents. read_bounded_file reader path max_password_file_bytes ''Redis password'' = Inr contents
          \<and> (contents = p \<or> contents = p @ [10] \<or> contents = p @ [13, 10]))"

lemma load_password_file: "load_password reader path = Inr p \<Longrightarrow> password_of reader path p"
  using strip_newline_cases
  by (auto simp: load_password_def password_of_def Let_def bind_result_Inr split: if_splits)

lemma strip_newline_line:
  assumes "10 \<notin> set p" "13 \<notin> set p"
  shows "strip_newline p = p \<and> strip_newline (p @ [10]) = p \<and> strip_newline (p @ [13, 10]) = p"
proof -
  have "\<not> ends_with [13, 10] p" "\<not> ends_with [10] p" using assms by (auto simp: ends_with_iff)
  moreover have "\<not> ends_with [13, 10] (p @ [10])"
  proof
    assume "ends_with [13, 10] (p @ [10])"
    then obtain r where "p @ [10] = (r @ [13]) @ [10]" by (auto simp: ends_with_iff)
    then have "p = r @ [13]" by blast
    with assms show False by simp
  qed
  moreover have "ends_with [10] (p @ [10])" "ends_with [13, 10] (p @ [13, 10])"
    unfolding ends_with_iff by blast+
  ultimately show ?thesis by (simp add: strip_newline_def)
qed

text \<open>A key prefix the settings accept is one the limiter accepts.\<close>

lemma new_redis_limiter_configured:
  assumes "redis_ok P config"
  shows "new_redis_limiter (Some (rr_keyPrefix config)) = Inr (rr_keyPrefix config)"
proof -
  have "redis_prefix_char = key_prefix_char" by (rule ext) (auto simp: redis_prefix_char_def key_prefix_char_def)
  with assms show ?thesis by (cases "rr_keyPrefix config") (auto simp: redis_ok_def new_redis_limiter_def)
qed

lemma connect_client_cases:
  "(if kp_connect peer = Inr () \<and> kp_ping peer = Inr (js ''PONG'')
    then connect_client peer = (Inr (), [ClientConnect, ClientPing])
    else connect_client peer = (Inl redis_unavailable, [ClientConnect, ClientDestroy])
      \<or> connect_client peer = (Inl redis_unavailable, [ClientConnect, ClientPing, ClientDestroy]))"
  by (cases "kp_connect peer") (simp_all add: connect_client_def)

lemma redis_runtime_cases:
  assumes "redis_ok P config"
    and "create_redis_runtime reader (rp_parse_url P) factory config = (r, calls)"
  shows "case r of
           Inr runtime \<Rightarrow> (\<exists>opts peer u. runtime = RedisRuntime opts (rr_keyPrefix config) \<and> factory opts = Inr peer
             \<and> kp_connect peer = Inr () \<and> kp_ping peer = Inr (js ''PONG'') \<and> calls = [ClientOnError, ClientConnect, ClientPing]
             \<and> rp_parse_url P (ko_url opts) = Some u \<and> (ko_tls opts \<or> is_loopback_hostname (u_hostname u))
             \<and> (ko_password opts = None \<longleftrightarrow> rr_passwordFile config = None)
             \<and> (\<forall>p. ko_password opts = Some p \<longrightarrow> p \<noteq> [] \<and> 10 \<notin> set p \<and> 13 \<notin> set p
                  \<and> (\<exists>path. rr_passwordFile config = Some path \<and> password_of reader path p)))
         | Inl e \<Rightarrow> calls = []
             \<or> (last calls = ClientDestroy \<and> e = redis_unavailable)"
proof -
  from assms(1) obtain u where u: "rp_parse_url P (rr_url config) = Some u"
    "u_protocol u = js ''rediss:'' \<or> is_loopback_hostname (u_hostname u)"
    by (auto simp: redis_ok_def)
  define secrets where "secrets = (case rr_passwordFile config of None \<Rightarrow> Inr None
                        | Some path \<Rightarrow> bind_result (load_password reader path) (\<lambda>p. Inr (Some p)))"
  define authorities where "authorities = (case rr_certificateAuthorityFile config of None \<Rightarrow> Inr None
                        | Some path \<Rightarrow> bind_result (load_redis_authority reader path) (\<lambda>a. Inr (Some a)))"
  define prepared where "prepared = bind_result secrets (\<lambda>password. bind_result authorities (\<lambda>authority.
             bind_result (factory (client_options u password authority config))
               (\<lambda>peer. Inr (client_options u password authority config, peer))))"
  have c: "create_redis_runtime reader (rp_parse_url P) factory config =
     (case prepared of Inl e \<Rightarrow> (Inl e, [])
      | Inr (opts, peer) \<Rightarrow> (case connect_client peer of
             (Inl e, calls) \<Rightarrow> (Inl e, ClientOnError # calls)
           | (Inr _, calls) \<Rightarrow> (Inr (RedisRuntime opts (rr_keyPrefix config)), ClientOnError # calls)))"
    unfolding create_redis_runtime_def secrets_def [symmetric] authorities_def [symmetric] u(1) option.case Let_def prepared_def
      new_redis_limiter_configured [OF assms(1)] bind_result_simps ..
  show ?thesis
  proof (cases prepared)
    case (Inl e)
    with assms(2) c show ?thesis by auto
  next
    case (Inr op)
    then obtain opts peer password authority where p: "prepared = Inr (opts, peer)" "secrets = Inr password"
      "opts = client_options u password authority config" "factory opts = Inr peer"
      by (auto simp: prepared_def bind_result_Inr)
    have line: "password = None \<longleftrightarrow> rr_passwordFile config = None"
      "\<And>s. password = Some s \<Longrightarrow> s \<noteq> [] \<and> 10 \<notin> set s \<and> 13 \<notin> set s
         \<and> (\<exists>path. rr_passwordFile config = Some path \<and> password_of reader path s)"
      using p(2) load_password_line load_password_file by (auto simp: secrets_def bind_result_Inr split: option.splits)
    moreover have "rp_parse_url P (ko_url opts) = Some u" "ko_tls opts \<or> is_loopback_hostname (u_hostname u)"
      "ko_password opts = password"
      using u p(3) by (auto simp: client_options_def)
    moreover note outcome = assms(2) [unfolded c p(1) sum.case prod.case]
    ultimately show ?thesis
    proof (cases "kp_connect peer = Inr () \<and> kp_ping peer = Inr (js ''PONG'')")
      case True
      with outcome connect_client_cases [of peer]
      have r: "r = Inr (RedisRuntime opts (rr_keyPrefix config))" "calls = [ClientOnError, ClientConnect, ClientPing]" by auto
      have "\<forall>s. ko_password opts = Some s \<longrightarrow> s \<noteq> [] \<and> 10 \<notin> set s \<and> 13 \<notin> set s
          \<and> (\<exists>path. rr_passwordFile config = Some path \<and> password_of reader path s)"
        "ko_password opts = None \<longleftrightarrow> rr_passwordFile config = None"
        using line by (simp_all add: \<open>ko_password opts = password\<close>)
      with True p(4) \<open>rp_parse_url P (ko_url opts) = Some u\<close> \<open>ko_tls opts \<or> is_loopback_hostname (u_hostname u)\<close> r(2)
      show ?thesis unfolding r(1) sum.case
        by (intro exI [of _ opts] exI [of _ peer] exI [of _ u]) simp
    next
      case False
      with outcome connect_client_cases [of peer] show ?thesis by (auto split: if_splits)
    qed
  qed
qed

text \<open>C34: Redis runtime. With settings that were read from the environment, an edge gets a distributed
  limiter only from a client that connected and answered \<open>PONG\<close>, over TLS unless Redis is on the
  loopback interface, and with a password that is the one line its file holds; when the connection fails the
  client is destroyed, and the error names neither the address nor the credentials.\<close>

theorem redis_runtime_connected:
  assumes "redis_ok P config"
    and "create_redis_runtime reader (rp_parse_url P) factory config = (r, calls)"
  shows "case r of
           Inr runtime \<Rightarrow> (\<exists>opts peer u. runtime = RedisRuntime opts (rr_keyPrefix config) \<and> factory opts = Inr peer
             \<and> kp_connect peer = Inr () \<and> kp_ping peer = Inr (js ''PONG'') \<and> calls = [ClientOnError, ClientConnect, ClientPing]
             \<and> rp_parse_url P (ko_url opts) = Some u \<and> (ko_tls opts \<or> is_loopback_hostname (u_hostname u))
             \<and> (ko_password opts = None \<longleftrightarrow> rr_passwordFile config = None)
             \<and> (\<forall>p. ko_password opts = Some p \<longrightarrow> p \<noteq> [] \<and> 10 \<notin> set p \<and> 13 \<notin> set p
                  \<and> (\<exists>path. rr_passwordFile config = Some path \<and> password_of reader path p)))
         | Inl e \<Rightarrow> calls = []
             \<or> (last calls = ClientDestroy \<and> e = redis_unavailable)"
  using assms by (rule redis_runtime_cases)

text \<open>A Redis on the loopback interface, without files, that answers.\<close>

definition demo_redis_url :: url where
  "demo_redis_url = \<lparr>u_protocol = js ''redis:'', u_username = [], u_password = [], u_hostname = js ''127.0.0.1'',
     u_host = js ''127.0.0.1:6379'', u_port = js ''6379'', u_pathname = [], u_search = [], u_hash = []\<rparr>"

definition demo_redis_platform :: runtime_platform where
  "demo_redis_platform = \<lparr>rp_parse_url = (\<lambda>s. Some demo_redis_url), rp_href = (\<lambda>u. js ''redis://127.0.0.1:6379''),
     rp_resolve = (\<lambda>p. p), rp_publicKeyFile = []\<rparr>"

definition demo_redis_config :: redis_config where
  "demo_redis_config = \<lparr>rr_url = js ''redis://127.0.0.1:6379'', rr_username = None, rr_passwordFile = None,
     rr_certificateAuthorityFile = None, rr_keyPrefix = js ''p'', rr_connectTimeoutMs = 3000, rr_commandTimeoutMs = 1000\<rparr>"

theorem redis_runtime_connected_witness:
  "\<exists>opts. create_redis_runtime (\<lambda>path. Inl (Error [])) (rp_parse_url demo_redis_platform)
       (\<lambda>opts. Inr \<lparr>kp_connect = Inr (), kp_ping = Inr (js ''PONG'')\<rparr>) demo_redis_config
     = (Inr (RedisRuntime opts (js ''p'')), [ClientOnError, ClientConnect, ClientPing])
   \<and> ko_password opts = None"
proof -
  have ok: "redis_ok demo_redis_platform demo_redis_config"
    using loopback_127
    by (simp add: redis_ok_def demo_redis_platform_def demo_redis_config_def demo_redis_url_def in_bound_def)
      (simp add: js_def redis_prefix_char_def is_lower_def)
  obtain r calls where c: "create_redis_runtime (\<lambda>path. Inl (Error [])) (rp_parse_url demo_redis_platform)
       (\<lambda>opts. Inr \<lparr>kp_connect = Inr (), kp_ping = Inr (js ''PONG'')\<rparr>) demo_redis_config = (r, calls)" by fastforce
  have "calls \<noteq> []" "is_ok r"
    using c new_redis_limiter_configured [OF ok]
    by (auto simp: create_redis_runtime_def demo_redis_platform_def connect_client_def demo_redis_config_def)
  moreover have "rr_keyPrefix demo_redis_config = js ''p''" "rr_passwordFile demo_redis_config = None"
    by (simp_all add: demo_redis_config_def)
  ultimately show ?thesis
    unfolding c using redis_runtime_connected [OF ok c] by (auto simp: is_ok_iff)
qed

end
