(* ===== verification/App.thy ===== *)
theory App imports Http Json ConfigClient Metrics begin

text \<open>
  The application (\<open>edge/src/app.ts\<close>): which handler answers a request, the health, readiness and
  metrics endpoints, and the headers every answer gets. Routing, the order of middleware and the
  handling of thrown errors follow the documented behaviour of Hono: a handler answers the method and
  path it was registered for, the first registered first, a HEAD request is answered as a GET without
  its body, and what a handler throws reaches \<open>onError\<close> before the middleware goes on. How Hono reads
  the path of a request is an argument, as is what the parts answer while a request is handled.
\<close>

section \<open>Options\<close>

record app_gateway =
  ag_handle :: "http_request \<Rightarrow> ustr option \<Rightarrow> http_response result"
  ag_acceptingRequests :: "bool result option"

record app_options =
  ao_gateway :: "app_gateway option"
  ao_configuration :: "config_snapshot option result option"
  ao_resolveClientIp :: "ustr option result option"
  ao_secureTransport :: bool
  ao_metrics :: "(metrics_snapshot \<Rightarrow> ustr result) option"
  ao_rateLimiter :: "bool result option"

section \<open>Parts\<close>

definition resolve_client_ip :: "app_options \<Rightarrow> ustr option" where
  "resolve_client_ip opts =
     (case ao_resolveClientIp opts of
        None \<Rightarrow> None
      | Some (Inl e) \<Rightarrow> None
      | Some (Inr ip) \<Rightarrow> ip)"

definition is_dependency_ready :: "bool result option \<Rightarrow> bool" where
  "is_dependency_ready dependency =
     (case dependency of None \<Rightarrow> True | Some (Inl e) \<Rightarrow> False | Some (Inr ready) \<Rightarrow> ready)"

definition is_gateway_accepting :: "app_gateway option \<Rightarrow> bool" where
  "is_gateway_accepting gateway =
     (case gateway of
        None \<Rightarrow> True
      | Some g \<Rightarrow> (case ag_acceptingRequests g of None \<Rightarrow> True | Some (Inl e) \<Rightarrow> False | Some (Inr accepting) \<Rightarrow> accepting))"

text \<open>\<open>options.configuration?.current()\<close>.\<close>

definition current_snapshot :: "app_options \<Rightarrow> config_snapshot option result" where
  "current_snapshot opts = (case ao_configuration opts of None \<Rightarrow> Inr None | Some r \<Rightarrow> r)"

text \<open>\<open>context.body\<close> and \<open>context.json\<close> with the headers prepared so far.\<close>

definition text_response :: "int \<Rightarrow> headers \<Rightarrow> ustr \<Rightarrow> http_response" where
  "text_response status prepared content =
     \<lparr>res_status = status, res_statusText = [], res_headers = prepared,
      res_body = Some \<lparr>st_chunks = [utf8_encode content], st_failure = None\<rparr>\<rparr>"

definition json_response :: "int \<Rightarrow> headers \<Rightarrow> (string \<times> json) list \<Rightarrow> http_response" where
  "json_response status prepared members =
     text_response status (header_set (js ''Content-Type'') (js ''application/json'') prepared)
       (json_text (JObject (map (\<lambda>(k, v). (js k, v)) members)))"

definition route_not_found :: http_response where
  "route_not_found = json_response 404 [] [(''error'', JString (js ''route_not_found''))]"

definition no_store :: "headers \<Rightarrow> headers" where
  "no_store prepared = header_set (js ''Cache-Control'') (js ''no-store'') prepared"

section \<open>Handlers\<close>

text \<open>A handler leaves the headers it prepared, which \<open>onError\<close> finds, and its answer.\<close>

type_synonym handled = "headers \<times> http_response result"

definition handle_healthz :: handled where
  "handle_healthz =
     (no_store [], Inr (json_response 200 (no_store [])
        [(''service'', JString (js ''shieldward-edge'')), (''status'', JString (js ''ok''))]))"

definition handle_readyz :: "app_options \<Rightarrow> handled" where
  "handle_readyz opts =
     (case current_snapshot opts of
        Inl e \<Rightarrow> ([], Inl e)
      | Inr found \<Rightarrow>
          (no_store [],
           (case (found, is_dependency_ready (ao_rateLimiter opts), is_gateway_accepting (ao_gateway opts)) of
              (Some s, True, True) \<Rightarrow> Inr (json_response 200 (no_store [])
                [(''service'', JString (js ''shieldward-edge'')), (''status'', JString (js ''ready'')),
                 (''policyVersion'', JString (b_version (cs_bundle s)))])
            | _ \<Rightarrow> Inr (json_response 503 (no_store [])
                [(''service'', JString (js ''shieldward-edge'')), (''status'', JString (js ''not_ready''))]))))"

definition handle_metrics :: "app_options \<Rightarrow> handled" where
  "handle_metrics opts =
     (case (ao_metrics opts, resolve_client_ip opts) of
        (Some render_metrics, Some ip) \<Rightarrow>
          if \<not> is_loopback_hostname ip then ([], Inr route_not_found)
          else
            (case current_snapshot opts of
               Inl e \<Rightarrow> ([], Inl e)
             | Inr found \<Rightarrow>
                 (let limiterReady = is_dependency_ready (ao_rateLimiter opts);
                      gatewayReady = is_gateway_accepting (ao_gateway opts);
                      prepared = header_set (js ''Content-Type'') (js ''text/plain; version=0.0.4; charset=utf-8'') (no_store []) in
                  (prepared,
                   bind_result (render_metrics \<lparr>sn_ready = (found \<noteq> None \<and> limiterReady \<and> gatewayReady),
                       sn_rateLimiterReady = Some limiterReady,
                       sn_policyLoadedAtMilliseconds = map_option cs_loadedAt found\<rparr>)
                     (\<lambda>scrape. Inr (text_response 200 prepared scrape)))))
      | _ \<Rightarrow> ([], Inr route_not_found))"

definition handle_all :: "app_options \<Rightarrow> http_request \<Rightarrow> handled" where
  "handle_all opts request =
     (case ao_gateway opts of
        None \<Rightarrow> ([], Inr route_not_found)
      | Some g \<Rightarrow> ([], ag_handle g request (resolve_client_ip opts)))"

text \<open>\<open>application.onError\<close>.\<close>

definition internal_error :: "headers \<Rightarrow> http_response" where
  "internal_error prepared =
     json_response 500 (no_store prepared) [(''error'', JString (js ''internal_server_error''))]"

text \<open>The middleware after \<open>next\<close>.\<close>

definition security_headers :: "app_options \<Rightarrow> headers \<Rightarrow> headers" where
  "security_headers opts h =
     (let h1 = header_set (js ''Referrer-Policy'') (js ''no-referrer'')
                 (header_set (js ''X-Content-Type-Options'') (js ''nosniff'') h) in
      if ao_secureTransport opts then header_set (js ''Strict-Transport-Security'') (js ''max-age=31536000'') h1 else h1)"

datatype app_route = HealthzRoute | ReadyzRoute | MetricsRoute | GatewayRoute

definition route_of :: "ustr \<Rightarrow> ustr \<Rightarrow> app_route" where
  "route_of method path =
     (if method \<noteq> js ''GET'' \<and> method \<noteq> js ''HEAD'' then GatewayRoute
      else if path = js ''/healthz'' then HealthzRoute
      else if path = js ''/readyz'' then ReadyzRoute
      else if path = js ''/metrics'' then MetricsRoute
      else GatewayRoute)"

definition app_handled :: "(http_request \<Rightarrow> ustr) \<Rightarrow> app_options \<Rightarrow> http_request \<Rightarrow> handled" where
  "app_handled path_of opts request =
     (case route_of (req_method request) (path_of request) of
        HealthzRoute \<Rightarrow> handle_healthz
      | ReadyzRoute \<Rightarrow> handle_readyz opts
      | MetricsRoute \<Rightarrow> handle_metrics opts
      | GatewayRoute \<Rightarrow> handle_all opts request)"

definition app_response :: "(http_request \<Rightarrow> ustr) \<Rightarrow> app_options \<Rightarrow> http_request \<Rightarrow> http_response" where
  "app_response path_of opts request =
     (let answer = (case app_handled path_of opts request of
                      (prepared, Inl e) \<Rightarrow> internal_error prepared
                    | (prepared, Inr r) \<Rightarrow> r);
          decorated = answer\<lparr>res_headers := security_headers opts (res_headers answer)\<rparr> in
      if req_method request = js ''HEAD'' then decorated\<lparr>res_body := None\<rparr> else decorated)"

section \<open>What clients see\<close>

lemma header_name_neq [header_simps]:
  "to_lower (js ''X-Content-Type-Options'') = js ''x-content-type-options''"
  "to_lower (js ''Referrer-Policy'') = js ''referrer-policy''"
  "to_lower (js ''Strict-Transport-Security'') = js ''strict-transport-security''"
  "to_lower (js ''Cache-Control'') = js ''cache-control''"
  "to_lower (js ''Content-Type'') = js ''content-type''"
  by code_simp+

lemma security_headers_set:
  "header_get (security_headers opts h) (js ''X-Content-Type-Options'') = Some (js ''nosniff'')
   \<and> header_get (security_headers opts h) (js ''Referrer-Policy'') = Some (js ''no-referrer'')
   \<and> header_get (security_headers opts h) (js ''Strict-Transport-Security'')
       = (if ao_secureTransport opts then Some (js ''max-age=31536000'') else header_get h (js ''Strict-Transport-Security''))"
  by (simp add: security_headers_def Let_def header_simps)

lemma app_response_status:
  "res_status (app_response path_of opts request) =
     (case snd (app_handled path_of opts request) of Inl e \<Rightarrow> 500 | Inr r \<Rightarrow> res_status r)"
  by (cases "app_handled path_of opts request"; cases "snd (app_handled path_of opts request)")
    (auto simp: app_response_def Let_def internal_error_def json_response_def text_response_def)

lemma readyz_status:
  "(case snd (handle_readyz opts) of Inl e \<Rightarrow> 500 | Inr r \<Rightarrow> res_status r) =
     (case current_snapshot opts of
        Inl e \<Rightarrow> 500
      | Inr found \<Rightarrow> if found \<noteq> None \<and> is_dependency_ready (ao_rateLimiter opts) \<and> is_gateway_accepting (ao_gateway opts)
                    then 200 else 503)"
  by (auto simp: handle_readyz_def json_response_def text_response_def split: sum.split option.split bool.split)

text \<open>What a scrape is told: the readiness of the edge, of its limiter, and when its policy was loaded.\<close>

definition scrape_snapshot :: "app_options \<Rightarrow> config_snapshot option \<Rightarrow> metrics_snapshot" where
  "scrape_snapshot opts found =
     \<lparr>sn_ready = (found \<noteq> None \<and> is_dependency_ready (ao_rateLimiter opts) \<and> is_gateway_accepting (ao_gateway opts)),
      sn_rateLimiterReady = Some (is_dependency_ready (ao_rateLimiter opts)),
      sn_policyLoadedAtMilliseconds = map_option cs_loadedAt found\<rparr>"

lemma metrics_shown:
  assumes "resolve_client_ip opts = Some ip" "is_loopback_hostname ip" "ao_metrics opts = Some scrape"
    and "current_snapshot opts = Inr found" "scrape (scrape_snapshot opts found) = Inr content"
  shows "\<exists>prepared. handle_metrics opts = (prepared, Inr (text_response 200 prepared content))"
  using assms by (simp add: handle_metrics_def Let_def scrape_snapshot_def bind_result_def)

text \<open>What the handlers answer before the middleware adds its headers.\<close>

definition app_answer :: "(http_request \<Rightarrow> ustr) \<Rightarrow> app_options \<Rightarrow> http_request \<Rightarrow> http_response" where
  "app_answer path_of opts request =
     (case app_handled path_of opts request of (prepared, Inl e) \<Rightarrow> internal_error prepared | (prepared, Inr r) \<Rightarrow> r)"

lemma app_response_decorates: "res_headers (app_response path_of opts request) = security_headers opts (res_headers (app_answer path_of opts request))"
  by (simp add: app_response_def app_answer_def Let_def)

lemma header_get_Nil [header_simps]: "header_get [] n = None"
  by (simp add: header_get_def header_values_def)

lemmas own_answers = internal_error_def route_not_found_def json_response_def text_response_def no_store_def

lemma own_answer_transport:
  "header_get (res_headers (app_answer path_of opts request)) (js ''Strict-Transport-Security'') =
     (case (route_of (req_method request) (path_of request), ao_gateway opts) of
        (GatewayRoute, Some g) \<Rightarrow>
          (case ag_handle g request (resolve_client_ip opts) of
             Inr r \<Rightarrow> header_get (res_headers r) (js ''Strict-Transport-Security'') | Inl e \<Rightarrow> None)
      | _ \<Rightarrow> None)"
proof (cases "route_of (req_method request) (path_of request)")
  case HealthzRoute
  then show ?thesis by (simp add: app_answer_def app_handled_def handle_healthz_def own_answers header_simps)
next
  case ReadyzRoute
  then show ?thesis
    by (auto simp: app_answer_def app_handled_def handle_readyz_def own_answers header_simps split: sum.split option.split bool.split)
next
  case MetricsRoute
  then show ?thesis
    by (auto simp: app_answer_def app_handled_def handle_metrics_def own_answers header_simps Let_def bind_result_def
        split: sum.split option.split)
next
  case GatewayRoute
  then show ?thesis
    by (auto simp: app_answer_def app_handled_def handle_all_def own_answers header_simps split: sum.split option.split)
qed

lemma security_headers_keep:
  "to_lower n \<notin> js ` {''x-content-type-options'', ''referrer-policy'', ''strict-transport-security''} \<Longrightarrow>
     header_get (security_headers opts h) n = header_get h n"
  by (auto simp: security_headers_def Let_def header_simps)

lemma metrics_hidden:
  "\<not> ((\<exists>ip. resolve_client_ip opts = Some ip \<and> is_loopback_hostname ip) \<and> ao_metrics opts \<noteq> None) \<Longrightarrow>
     handle_metrics opts = ([], Inr route_not_found)"
  by (auto simp: handle_metrics_def split: option.splits)

text \<open>What each route owes a request: the specification of the endpoints, on the answer \<open>r\<close> the client sees.\<close>

definition body_for :: "http_request \<Rightarrow> body_stream option \<Rightarrow> body_stream option" where
  "body_for request body = (if req_method request = js ''HEAD'' then None else body)"

fun route_answer :: "app_route \<Rightarrow> app_options \<Rightarrow> http_request \<Rightarrow> http_response \<Rightarrow> bool" where
  "route_answer HealthzRoute opts request r \<longleftrightarrow> res_status r = 200"
| "route_answer ReadyzRoute opts request r \<longleftrightarrow>
     (res_status r = 200 \<longleftrightarrow> (\<exists>s. current_snapshot opts = Inr (Some s)) \<and> is_dependency_ready (ao_rateLimiter opts)
        \<and> is_gateway_accepting (ao_gateway opts))"
| "route_answer MetricsRoute opts request r \<longleftrightarrow>
     (if (\<exists>ip. resolve_client_ip opts = Some ip \<and> is_loopback_hostname ip) \<and> ao_metrics opts \<noteq> None
      then (\<forall>scrape found content. ao_metrics opts = Some scrape \<and> current_snapshot opts = Inr found
              \<and> scrape (scrape_snapshot opts found) = Inr content \<longrightarrow>
              res_status r = 200 \<and> res_body r = body_for request (Some \<lparr>st_chunks = [utf8_encode content], st_failure = None\<rparr>))
      else res_status r = 404)"
| "route_answer GatewayRoute opts request r \<longleftrightarrow>
     (\<forall>g answer. ao_gateway opts = Some g \<and> ag_handle g request (resolve_client_ip opts) = Inr answer \<longrightarrow>
        res_status r = res_status answer \<and> res_body r = body_for request (res_body answer)
        \<and> (\<forall>n. to_lower n \<notin> js ` {''x-content-type-options'', ''referrer-policy'', ''strict-transport-security''} \<longrightarrow>
             header_get (res_headers r) n = header_get (res_headers answer) n))"

lemma app_response_answered:
  "app_handled path_of opts request = (prepared, Inr r) \<Longrightarrow>
     res_status (app_response path_of opts request) = res_status r
     \<and> res_body (app_response path_of opts request) = body_for request (res_body r)"
  "app_handled path_of opts request = (prepared, Inl e) \<Longrightarrow>
     res_status (app_response path_of opts request) = 500
     \<and> res_body (app_response path_of opts request) = body_for request
          (Some \<lparr>st_chunks = [utf8_encode (json_text (JObject [(js ''error'', JString (js ''internal_server_error''))]))],
                 st_failure = None\<rparr>)"
  by (simp_all add: app_response_def body_for_def Let_def) (simp_all add: internal_error_def json_response_def text_response_def)

lemma metrics_route_answer:
  assumes "route_of (req_method request) (path_of request) = MetricsRoute"
  shows "route_answer MetricsRoute opts request (app_response path_of opts request)"
proof (cases "(\<exists>ip. resolve_client_ip opts = Some ip \<and> is_loopback_hostname ip) \<and> ao_metrics opts \<noteq> None")
  case True
  then obtain ip where ip: "resolve_client_ip opts = Some ip" "is_loopback_hostname ip" by blast
  have "res_status (app_response path_of opts request) = 200 \<and> res_body (app_response path_of opts request)
      = body_for request (Some \<lparr>st_chunks = [utf8_encode content], st_failure = None\<rparr>)"
    if "ao_metrics opts = Some scrape" "current_snapshot opts = Inr found"
      "scrape (scrape_snapshot opts found) = Inr content" for scrape found content
  proof -
    from metrics_shown [OF ip that] assms obtain prepared where
      "app_handled path_of opts request = (prepared, Inr (text_response 200 prepared content))"
      by (auto simp: app_handled_def)
    from app_response_answered(1) [OF this] show ?thesis by (simp add: text_response_def)
  qed
  with True show ?thesis by auto
next
  case False
  with metrics_hidden assms have "app_handled path_of opts request = ([], Inr route_not_found)" by (simp add: app_handled_def)
  from app_response_answered(1) [OF this] False show ?thesis by (auto simp: own_answers)
qed

lemma app_route_answer:
  "route_answer (route_of (req_method request) (path_of request)) opts request (app_response path_of opts request)"
proof (cases "route_of (req_method request) (path_of request)")
  case HealthzRoute
  then show ?thesis using app_response_status [of path_of opts request]
    by (simp add: app_handled_def handle_healthz_def json_response_def text_response_def)
next
  case ReadyzRoute
  then have "res_status (app_response path_of opts request) =
      (case snd (handle_readyz opts) of Inl e \<Rightarrow> 500 | Inr r \<Rightarrow> res_status r)"
    using app_response_status [of path_of opts request] by (simp add: app_handled_def)
  with ReadyzRoute show ?thesis unfolding readyz_status by (auto split: sum.splits if_splits)
next
  case MetricsRoute
  with metrics_route_answer [of request path_of opts] show ?thesis by (simp del: route_answer.simps)
next
  case GatewayRoute
  then show ?thesis
    by (auto simp: app_response_def Let_def app_handled_def handle_all_def security_headers_keep body_for_def)
qed

text \<open>C33: What clients see. Every answer carries the security headers; transport security is announced
  exactly when the edge asks for it or the gateway's own answer already announces it, never on an
  answer of the edge itself without it. The edge
  is ready exactly when it holds a verified policy, its limiter is ready
  and its gateway accepts requests. Metrics, rendered from the state of the edge, are answered only
  to a client at a loopback address, anyone else gets a 404. Every other request is the gateway's, with the address of the client, and is
  answered with its status, body and headers but for the three of the edge; and an error of any handler
  is answered with status 500 and a text that does not depend on it.\<close>

theorem app_answers:
  "header_get (res_headers (app_response path_of opts request)) (js ''X-Content-Type-Options'') = Some (js ''nosniff'')
   \<and> header_get (res_headers (app_response path_of opts request)) (js ''Referrer-Policy'') = Some (js ''no-referrer'')
   \<and> header_get (res_headers (app_response path_of opts request)) (js ''Strict-Transport-Security'') =
       (if ao_secureTransport opts then Some (js ''max-age=31536000'')
        else (case (route_of (req_method request) (path_of request), ao_gateway opts) of
            (GatewayRoute, Some g) \<Rightarrow>
              (case ag_handle g request (resolve_client_ip opts) of
                 Inr r \<Rightarrow> header_get (res_headers r) (js ''Strict-Transport-Security'') | Inl e \<Rightarrow> None)
          | _ \<Rightarrow> None))
   \<and> route_answer (route_of (req_method request) (path_of request)) opts request (app_response path_of opts request)
   \<and> (\<forall>prepared e. app_handled path_of opts request = (prepared, Inl e) \<longrightarrow>
        res_status (app_response path_of opts request) = 500
        \<and> res_body (app_response path_of opts request) = (if req_method request = js ''HEAD'' then None
             else Some \<lparr>st_chunks = [utf8_encode (json_text (JObject [(js ''error'', JString (js ''internal_server_error''))]))],
                        st_failure = None\<rparr>))"
proof -
  note h = app_response_decorates [of path_of opts request]
  have transport: "header_get (res_headers (app_response path_of opts request)) (js ''Strict-Transport-Security'') =
      (if ao_secureTransport opts then Some (js ''max-age=31536000'')
       else header_get (res_headers (app_answer path_of opts request)) (js ''Strict-Transport-Security''))"
    using security_headers_set unfolding h by blast
  from security_headers_set [of opts "res_headers (app_answer path_of opts request)"] app_route_answer [of request path_of opts]
    app_response_answered(2) [of path_of opts request]
  show ?thesis unfolding transport own_answer_transport body_for_def unfolding h by blast
qed

text \<open>A readiness probe of an edge that holds no policy yet.\<close>

definition demo_app :: app_options where
  "demo_app = \<lparr>ao_gateway = None, ao_configuration = Some (Inr None), ao_resolveClientIp = None,
     ao_secureTransport = True, ao_metrics = None, ao_rateLimiter = None\<rparr>"

definition demo_probe :: http_request where
  "demo_probe = \<lparr>req_method = js ''GET'', req_url = \<lparr>u_protocol = js ''https:'', u_username = [], u_password = [],
     u_hostname = js ''edge'', u_host = js ''edge'', u_port = [], u_pathname = js ''/readyz'', u_search = [], u_hash = []\<rparr>,
     req_headers = [], req_body = None\<rparr>"

theorem app_answers_witness:
  "res_status (app_response (\<lambda>r. u_pathname (req_url r)) demo_app demo_probe) = 503
   \<and> header_get (res_headers (app_response (\<lambda>r. u_pathname (req_url r)) demo_app demo_probe)) (js ''Strict-Transport-Security'')
       = Some (js ''max-age=31536000'')"
proof -
  have "res_status (app_response (\<lambda>r. u_pathname (req_url r)) demo_app demo_probe) = 503"
    unfolding app_response_status
    by (simp add: app_handled_def route_of_def demo_probe_def handle_readyz_def demo_app_def current_snapshot_def
        json_response_def text_response_def)
  moreover have "ao_secureTransport demo_app" by (simp add: demo_app_def)
  ultimately show ?thesis using app_answers [of "\<lambda>r. u_pathname (req_url r)" demo_app demo_probe] by simp
qed

end
