(* ===== verification/Shutdown.thy ===== *)
theory Shutdown imports JsString begin

text \<open>
  Graceful shutdown (\<open>edge/src/shutdown.ts\<close>). The gateway drains and the server closes while a
  timer runs; the first of them to settle decides the race, after which the dependencies are always
  stopped. What the gateway, the server, the timer and the dependencies do arrives as events; the
  calls the code makes are recorded in order.
\<close>

section \<open>State\<close>

text \<open>A value thrown by code the shutdown calls: an error or any other value with its text.\<close>

datatype thrown = ThrownError js_error | ThrownValue ustr

datatype race_result = Completed "js_error option" | RaceFailed js_error | TimedOut

datatype shutdown_call =
    BeginDrain
  | CloseServer
  | WaitForIdle
  | SetTimer jsnum
  | ClearTimer
  | CloseAllConnections
  | StopDependencies

datatype shutdown_event =
    IdleReached
  | IdleFailed js_error
  | ServerClosed "js_error option"
  | TimerFired
  | DependenciesStopped "js_error option"

text \<open>The options with what their synchronous calls do: whether they throw.\<close>

record shutdown_options =
  so_gracePeriodMs :: jsnum
  so_beginDrain :: "unit result"
  so_close :: "thrown option"
  so_closeAllConnections :: "js_error option"

text \<open>
  \<open>ss_server\<close> is the settled promise of \<open>closeServer\<close>, \<open>ss_race\<close> the result of the race and
  \<open>ss_outcome\<close> the settled promise of the shutdown, its value being \<open>forced\<close>.
\<close>

record shutdown_state =
  ss_idle :: bool
  ss_server :: "js_error option option"
  ss_race :: "race_result option"
  ss_errors :: "js_error list"
  ss_forced :: bool
  ss_outcome :: "bool result option"
  ss_calls :: "shutdown_call list"

section \<open>Operations\<close>

fun as_error :: "thrown \<Rightarrow> js_error" where
  "as_error (ThrownError e) = e"
| "as_error (ThrownValue s) = Error s"

definition validate_grace_period :: "jsnum \<Rightarrow> unit result" where
  "validate_grace_period v =
     (if \<not> is_safe_integer v \<or> jle v (num 0)
      then Inl (Error (js ''shutdown grace period must be a positive integer''))
      else Inr ())"

text \<open>\<open>closeServer\<close>: settled at once when the server throws, otherwise by its callback.\<close>

definition close_server :: "shutdown_options \<Rightarrow> js_error option option" where
  "close_server opts = (case so_close opts of None \<Rightarrow> None | Some v \<Rightarrow> Some (Some (as_error v)))"

definition idle_shutdown :: shutdown_state where
  "idle_shutdown = \<lparr>ss_idle = False, ss_server = None, ss_race = None, ss_errors = [], ss_forced = False,
     ss_outcome = None, ss_calls = []\<rparr>"

text \<open>\<open>performGracefulShutdown\<close> up to the race.\<close>

definition begin_shutdown :: "shutdown_options \<Rightarrow> shutdown_state" where
  "begin_shutdown opts =
     (case validate_grace_period (so_gracePeriodMs opts) of
        Inl e \<Rightarrow> idle_shutdown\<lparr>ss_outcome := Some (Inl e)\<rparr>
      | Inr _ \<Rightarrow>
          (case so_beginDrain opts of
             Inl e \<Rightarrow> idle_shutdown\<lparr>ss_outcome := Some (Inl e), ss_calls := [BeginDrain]\<rparr>
           | Inr _ \<Rightarrow> idle_shutdown\<lparr>ss_server := close_server opts,
               ss_calls := [BeginDrain, CloseServer, WaitForIdle, SetTimer (so_gracePeriodMs opts)]\<rparr>))"

text \<open>From the result of the race to the call that stops the dependencies.\<close>

definition settle_race :: "shutdown_options \<Rightarrow> race_result \<Rightarrow> shutdown_state \<Rightarrow> shutdown_state" where
  "settle_race opts r s =
     (let closing = (case r of TimedOut \<Rightarrow> [CloseAllConnections] | _ \<Rightarrow> []);
          errors = (case r of
             TimedOut \<Rightarrow> (case so_closeAllConnections opts of None \<Rightarrow> [] | Some e \<Rightarrow> [e])
           | RaceFailed e \<Rightarrow> [e]
           | Completed None \<Rightarrow> []
           | Completed (Some e) \<Rightarrow> [e])
      in s\<lparr>ss_race := Some r, ss_errors := errors, ss_forced := (r = TimedOut),
           ss_calls := ss_calls s @ [ClearTimer] @ closing @ [StopDependencies]\<rparr>)"

text \<open>The \<open>completion\<close> promise: both are done.\<close>

definition completion :: "shutdown_options \<Rightarrow> shutdown_state \<Rightarrow> shutdown_state" where
  "completion opts s =
     (case (ss_idle s, ss_server s) of
        (True, Some e) \<Rightarrow> settle_race opts (Completed e) s
      | _ \<Rightarrow> s)"

definition finish_shutdown :: "js_error option \<Rightarrow> shutdown_state \<Rightarrow> shutdown_state" where
  "finish_shutdown failure s =
     (let errors = ss_errors s @ (case failure of None \<Rightarrow> [] | Some e \<Rightarrow> [e]) in
      s\<lparr>ss_errors := errors,
        ss_outcome := Some (if errors \<noteq> [] then Inl (AggregateError errors (js ''graceful shutdown failed''))
                            else Inr (ss_forced s))\<rparr>)"

text \<open>
  What an event does. Once the race is decided the gateway, the server and the timer change nothing
  any more, and only then can the dependencies answer.
\<close>

fun shutdown_step :: "shutdown_options \<Rightarrow> shutdown_event \<Rightarrow> shutdown_state \<Rightarrow> shutdown_state" where
  "shutdown_step opts ev s =
     (if ss_outcome s \<noteq> None then s
      else
        (case (ss_race s, ev) of
           (None, IdleReached) \<Rightarrow> completion opts (s\<lparr>ss_idle := True\<rparr>)
         | (None, IdleFailed e) \<Rightarrow> if ss_idle s then s else settle_race opts (RaceFailed e) s
         | (None, ServerClosed e) \<Rightarrow>
             if ss_server s \<noteq> None then s else completion opts (s\<lparr>ss_server := Some e\<rparr>)
         | (None, TimerFired) \<Rightarrow> settle_race opts TimedOut s
         | (Some r, DependenciesStopped e) \<Rightarrow> finish_shutdown e s
         | _ \<Rightarrow> s))"

declare shutdown_step.simps [simp del]

definition graceful_shutdown :: "shutdown_options \<Rightarrow> shutdown_event list \<Rightarrow> shutdown_state" where
  "graceful_shutdown opts evs = fold (shutdown_step opts) evs (begin_shutdown opts)"

section \<open>When the race is decided\<close>

definition first_answer :: "('e \<Rightarrow> 'a option) \<Rightarrow> 'e list \<Rightarrow> 'a option" where
  "first_answer f evs = (case List.map_filter f evs of [] \<Rightarrow> None | x # _ \<Rightarrow> Some x)"

lemma first_answer_Nil [simp]: "first_answer f [] = None"
  by (simp add: first_answer_def List.map_filter_def)

lemma first_answer_snoc [simp]:
  "first_answer f (evs @ [ev]) = (case first_answer f evs of None \<Rightarrow> f ev | Some a \<Rightarrow> Some a)"
  by (auto simp: first_answer_def List.map_filter_def split: list.split option.split)

fun gateway_says :: "shutdown_event \<Rightarrow> js_error option option" where
  "gateway_says IdleReached = Some None"
| "gateway_says (IdleFailed e) = Some (Some e)"
| "gateway_says _ = None"

fun server_says :: "shutdown_event \<Rightarrow> js_error option option" where
  "server_says (ServerClosed e) = Some e"
| "server_says _ = None"

definition server_answer :: "shutdown_options \<Rightarrow> shutdown_event list \<Rightarrow> js_error option option" where
  "server_answer opts evs = (case close_server opts of None \<Rightarrow> first_answer server_says evs | Some e \<Rightarrow> Some e)"

text \<open>Nothing has decided the race: no timer, no failure, and not both the gateway and the server done.\<close>

definition undecided :: "shutdown_options \<Rightarrow> shutdown_event list \<Rightarrow> bool" where
  "undecided opts evs \<longleftrightarrow> TimerFired \<notin> set evs
     \<and> (case first_answer gateway_says evs of
          None \<Rightarrow> True
        | Some (Some e) \<Rightarrow> False
        | Some None \<Rightarrow> server_answer opts evs = None)"

text \<open>The result the deciding event gives the race.\<close>

definition decision :: "shutdown_options \<Rightarrow> shutdown_event list \<Rightarrow> shutdown_event \<Rightarrow> race_result" where
  "decision opts before ev =
     (case ev of
        TimerFired \<Rightarrow> TimedOut
      | IdleFailed e \<Rightarrow> RaceFailed e
      | _ \<Rightarrow> Completed (the (server_answer opts (before @ [ev]))))"

definition race_errors :: "shutdown_options \<Rightarrow> race_result \<Rightarrow> js_error list" where
  "race_errors opts r =
     (case r of
        TimedOut \<Rightarrow> (case so_closeAllConnections opts of None \<Rightarrow> [] | Some e \<Rightarrow> [e])
      | RaceFailed e \<Rightarrow> [e]
      | Completed e \<Rightarrow> (case e of None \<Rightarrow> [] | Some e \<Rightarrow> [e]))"

text \<open>Options that start a shutdown: a valid grace period and a gateway that begins to drain.\<close>

definition usable :: "shutdown_options \<Rightarrow> bool" where
  "usable opts \<longleftrightarrow> is_ok (validate_grace_period (so_gracePeriodMs opts)) \<and> is_ok (so_beginDrain opts)"

lemma begin_usable:
  "usable opts \<Longrightarrow> begin_shutdown opts = idle_shutdown\<lparr>ss_server := close_server opts,
     ss_calls := [BeginDrain, CloseServer, WaitForIdle, SetTimer (so_gracePeriodMs opts)]\<rparr>"
  by (auto simp: usable_def begin_shutdown_def is_ok_iff)

lemma undecided_prefix: "undecided opts (evs @ [ev]) \<Longrightarrow> undecided opts evs"
  by (auto simp: undecided_def server_answer_def split: option.splits)

lemma graceful_snoc: "graceful_shutdown opts (evs @ [ev]) = shutdown_step opts ev (graceful_shutdown opts evs)"
  by (simp add: graceful_shutdown_def)

lemma undecided_state:
  assumes "usable opts" and "undecided opts evs"
  shows "graceful_shutdown opts evs = (begin_shutdown opts)\<lparr>
     ss_idle := (first_answer gateway_says evs = Some None), ss_server := server_answer opts evs\<rparr>"
  using assms(2)
proof (induction evs rule: rev_induct)
  case Nil
  then show ?case using assms(1)
    by (simp add: graceful_shutdown_def begin_usable server_answer_def idle_shutdown_def split: option.splits)
next
  case (snoc ev evs)
  note IH = snoc.IH [OF undecided_prefix [OF snoc.prems]]
  from snoc.prems undecided_prefix [OF snoc.prems] show ?case
    unfolding graceful_snoc IH begin_usable [OF assms(1)]
    by (cases ev) (auto simp: shutdown_step.simps idle_shutdown_def undecided_def completion_def server_answer_def
        split: option.splits)
qed

lemma settle_race_errors:
  "settle_race opts r s = s\<lparr>ss_race := Some r, ss_errors := race_errors opts r, ss_forced := (r = TimedOut),
     ss_calls := ss_calls s @ ClearTimer # (if r = TimedOut then [CloseAllConnections] else []) @ [StopDependencies]\<rparr>"
  by (cases r) (auto simp: settle_race_def race_errors_def split: option.splits)

lemma decided_state:
  assumes u: "usable opts" and pre: "undecided opts before" and ev: "\<not> undecided opts (before @ [ev])"
  shows "graceful_shutdown opts (before @ [ev]) =
     settle_race opts (decision opts before ev) ((begin_shutdown opts)\<lparr>
       ss_idle := (first_answer gateway_says (before @ [ev]) = Some None \<and> ev \<noteq> TimerFired \<or> first_answer gateway_says before = Some None),
       ss_server := server_answer opts (before @ [ev])\<rparr>)"
  using pre ev
  unfolding graceful_snoc undecided_state [OF u pre] begin_usable [OF u]
  by (cases ev) (auto simp: shutdown_step.simps idle_shutdown_def undecided_def completion_def decision_def server_answer_def
      split: option.splits)

lemma step_stopping:
  assumes "ss_race s = Some r" and "\<nexists>f. ev = DependenciesStopped f"
  shows "shutdown_step opts ev s = s"
  using assms by (cases ev) (simp_all add: shutdown_step.simps)

lemma fold_stopping:
  assumes "ss_race s = Some r" and "\<forall>f. DependenciesStopped f \<notin> set evs"
  shows "fold (shutdown_step opts) evs s = s"
  using assms(2)
proof (induction evs)
  case (Cons ev evs)
  have "shutdown_step opts ev s = s"
    using assms(1) by (rule step_stopping) (use Cons.prems in force)
  with Cons show ?case by simp
qed simp

lemma fold_ended: "ss_outcome s \<noteq> None \<Longrightarrow> fold (shutdown_step opts) evs s = s"
  by (induction evs) (auto simp: shutdown_step.simps)

section \<open>Property\<close>

text \<open>C6: Shutdown ends. Whatever the gateway, the server and the timer do, and in whatever order: once
  an event decides the race and the dependencies have answered, the shutdown has ended, with every
  step made once and in order, the dependencies stopped whether it was forced or not, the connections
  cut exactly when the timer won, and with an error exactly when one of the steps failed. The timer
  always decides the race, so that no gateway or server can hold the shutdown up.\<close>

theorem shutdown_completes:
  assumes "usable opts"
    and "undecided opts before" and "\<not> undecided opts (before @ [ev])"
    and "\<forall>f. DependenciesStopped f \<notin> set waiting"
  shows "let r = decision opts before ev;
             errors = race_errors opts r @ (case failure of None \<Rightarrow> [] | Some e \<Rightarrow> [e]);
             s = graceful_shutdown opts (before @ ev # waiting @ DependenciesStopped failure # later)
         in ss_outcome s = Some (if errors = [] then Inr (r = TimedOut)
                                 else Inl (AggregateError errors (js ''graceful shutdown failed'')))
          \<and> ss_calls s = [BeginDrain, CloseServer, WaitForIdle, SetTimer (so_gracePeriodMs opts), ClearTimer]
               @ (if r = TimedOut then [CloseAllConnections] else []) @ [StopDependencies]
          \<and> (r = TimedOut \<longleftrightarrow> ev = TimerFired)
          \<and> (TimerFired \<in> set evs \<longrightarrow> \<not> undecided opts evs)"
proof -
  define r where "r = decision opts before ev"
  define s where "s = graceful_shutdown opts (before @ [ev])"
  have s: "s = settle_race opts r ((begin_shutdown opts)\<lparr>
       ss_idle := (first_answer gateway_says (before @ [ev]) = Some None \<and> ev \<noteq> TimerFired \<or> first_answer gateway_says before = Some None),
       ss_server := server_answer opts (before @ [ev])\<rparr>)"
    unfolding s_def r_def by (rule decided_state [OF assms(1-3)])
  then have fields: "ss_race s = Some r" "ss_errors s = race_errors opts r" "ss_forced s = (r = TimedOut)" "ss_outcome s = None"
    "ss_calls s = [BeginDrain, CloseServer, WaitForIdle, SetTimer (so_gracePeriodMs opts), ClearTimer]
       @ (if r = TimedOut then [CloseAllConnections] else []) @ [StopDependencies]"
    by (simp_all add: settle_race_errors begin_usable [OF assms(1)] idle_shutdown_def)
  have "graceful_shutdown opts (before @ ev # waiting @ DependenciesStopped failure # later)
      = fold (shutdown_step opts) later (shutdown_step opts (DependenciesStopped failure) s)"
    using fold_stopping [OF fields(1) assms(4)] by (simp add: graceful_shutdown_def s_def)
  also have "shutdown_step opts (DependenciesStopped failure) s = finish_shutdown failure s"
    using fields by (simp add: shutdown_step.simps)
  also have "fold (shutdown_step opts) later (finish_shutdown failure s) = finish_shutdown failure s"
    by (rule fold_ended) (simp add: finish_shutdown_def Let_def)
  finally have "graceful_shutdown opts (before @ ev # waiting @ DependenciesStopped failure # later) = finish_shutdown failure s" .
  moreover have "r = TimedOut \<longleftrightarrow> ev = TimerFired"
    using assms(2,3) by (cases ev) (auto simp: r_def decision_def undecided_def server_answer_def split: option.splits)
  moreover have "TimerFired \<in> set evs \<longrightarrow> \<not> undecided opts evs" by (simp add: undecided_def)
  ultimately show ?thesis
    using fields by (simp add: r_def finish_shutdown_def Let_def)
qed

text \<open>A server that never closes: the gateway is idle, the timer cuts the connections and Redis fails to stop.\<close>

definition demo_shutdown :: shutdown_options where
  "demo_shutdown = \<lparr>so_gracePeriodMs = num 10000, so_beginDrain = Inr (), so_close = None, so_closeAllConnections = None\<rparr>"

theorem shutdown_completes_witness:
  "let s = graceful_shutdown demo_shutdown [IdleReached, TimerFired, ServerClosed None, DependenciesStopped (Some (Error (js ''redis'')))]
   in ss_outcome s = Some (Inl (AggregateError [Error (js ''redis'')] (js ''graceful shutdown failed'')))
    \<and> last (ss_calls s) = StopDependencies"
proof -
  have "usable demo_shutdown"
    by (simp add: usable_def demo_shutdown_def validate_grace_period_def max_safe_def)
  moreover have "undecided demo_shutdown [IdleReached]" "\<not> undecided demo_shutdown ([IdleReached] @ [TimerFired])"
    by (simp_all add: undecided_def demo_shutdown_def server_answer_def close_server_def first_answer_def List.map_filter_def)
  moreover have "\<forall>f. DependenciesStopped f \<notin> set [ServerClosed None]" by simp
  ultimately show ?thesis
    using shutdown_completes [of demo_shutdown "[IdleReached]" TimerFired "[ServerClosed None]" "Some (Error (js ''redis''))" "[]" "[]"]
    by (simp add: Let_def decision_def race_errors_def demo_shutdown_def)
qed

text \<open>An edge that closes in time ends unforced; one whose settings are wrong never drains its gateway.\<close>

lemma shutdown_in_time:
  assumes "usable opts" and "so_close opts = None"
  shows "ss_outcome (graceful_shutdown opts [ServerClosed None, IdleReached, DependenciesStopped None]) = Some (Inr False)"
  using assms
  by (simp add: graceful_shutdown_def begin_usable shutdown_step.simps completion_def settle_race_def finish_shutdown_def
      idle_shutdown_def close_server_def)

lemma shutdown_refused:
  assumes "\<not> is_ok (validate_grace_period (so_gracePeriodMs opts))"
  shows "ss_calls (graceful_shutdown opts evs) = []"
proof -
  from assms obtain e where "validate_grace_period (so_gracePeriodMs opts) = Inl e"
    by (cases "validate_grace_period (so_gracePeriodMs opts)") auto
  then show ?thesis
    by (simp add: graceful_shutdown_def begin_shutdown_def fold_ended idle_shutdown_def)
qed

end
