(* ===== verification/Healthcheck.thy ===== *)
theory Healthcheck imports Transport begin

text \<open>
  The health check of a container (\<open>edge/src/healthcheck.ts\<close>): the address it asks, the certificate
  authority it trusts and the exit code. The URL parser, the file system and the exchange over HTTP are
  arguments.
\<close>

definition default_healthcheck_url :: ustr where
  "default_healthcheck_url = js ''http://127.0.0.1:8787/readyz''"

definition max_health_ca_bytes :: nat where "max_health_ca_bytes = 1024 * 1024"

record probe_options =
  po_ca :: "nat list option"
  po_rejectUnauthorized :: "bool option"
  po_minVersion :: "string option"
  po_timeoutMs :: int

definition parse_target :: "url_parser \<Rightarrow> ustr \<Rightarrow> url result" where
  "parse_target parse_url v =
     (case parse_url (trim v) of
        None \<Rightarrow> Inl (Error (js ''health-check URL must be an absolute HTTP or HTTPS URL''))
      | Some u \<Rightarrow>
          if u_protocol u \<noteq> js ''http:'' \<and> u_protocol u \<noteq> js ''https:''
          then Inl (Error (js ''health-check URL must use HTTP or HTTPS''))
          else if u_protocol u = js ''http:'' \<and> \<not> is_loopback_hostname (u_hostname u)
          then Inl (Error (js ''health check must use HTTPS unless it targets loopback''))
          else if u_username u \<noteq> [] \<or> u_password u \<noteq> [] \<or> u_hash u \<noteq> []
          then Inl (Error (js ''health-check URL must not contain credentials or a fragment''))
          else Inr u)"

definition load_health_authority :: "(ustr \<Rightarrow> nat list result) \<Rightarrow> ustr \<Rightarrow> nat list result" where
  "load_health_authority reader path =
     (case reader path of
        Inl e \<Rightarrow> Inl (Error (js ''load health-check certificate authority failed''))
      | Inr contents \<Rightarrow>
          if length contents = 0 \<or> length contents > max_health_ca_bytes
          then Inl (Error (js ''health-check certificate authority has an invalid size''))
          else Inr contents)"

text \<open>\<open>requester\<close> answers the status code of the response, absent or not, or the error of the request.\<close>

definition health_check ::
  "url_parser \<Rightarrow> (ustr \<Rightarrow> nat list result) \<Rightarrow> (url \<Rightarrow> probe_options \<Rightarrow> int option result)
     \<Rightarrow> ustr option \<Rightarrow> ustr option \<Rightarrow> unit result" where
  "health_check parse_url reader requester urlSetting caSetting =
     bind_result (parse_target parse_url (case urlSetting of None \<Rightarrow> default_healthcheck_url | Some v \<Rightarrow> v)) (\<lambda>target.
     bind_result (case caSetting of
                    None \<Rightarrow> Inr None
                  | Some v \<Rightarrow> if trim v = [] then Inr None
                             else bind_result (load_health_authority reader (trim v)) (\<lambda>c. Inr (Some c))) (\<lambda>authority.
       if authority \<noteq> None \<and> u_protocol target \<noteq> js ''https:''
       then Inl (Error (js ''health-check CA requires an HTTPS URL''))
       else
         bind_result (requester target
             \<lparr>po_ca = authority, po_rejectUnauthorized = (if authority = None then None else Some True),
              po_minVersion = (if authority = None then None else Some ''TLSv1.2''), po_timeoutMs = 3000\<rparr>) (\<lambda>answer.
           let status = (case answer of None \<Rightarrow> 0 | Some n \<Rightarrow> n) in
           if 200 \<le> status \<and> status < 300 then Inr ()
           else Inl (Error (js ''health check returned HTTP '' @ dec_int status)))))"

definition exit_code :: "unit result \<Rightarrow> int" where
  "exit_code outcome = (case outcome of Inl e \<Rightarrow> 1 | Inr _ \<Rightarrow> 0)"

lemma if_Inr_Inl: "(if c then Inr x else Inl e) = Inr y \<longleftrightarrow> c \<and> x = y"
  by simp

text \<open>
  A check succeeds only on a successful answer of a target that is asked over HTTPS or on the loopback
  interface, without credentials, and with the server verified against the authority when one is set.
\<close>

lemma health_check_succeeds:
  assumes "exit_code (health_check parse_url reader requester urlSetting caSetting) = 0"
  shows "\<exists>target sent n. requester target sent = Inr (Some n) \<and> 200 \<le> n \<and> n < 300
     \<and> (u_protocol target = js ''https:'' \<or> u_protocol target = js ''http:'' \<and> is_loopback_hostname (u_hostname target) \<and> po_ca sent = None)
     \<and> u_username target = [] \<and> u_password target = [] \<and> u_hash target = []
     \<and> (po_ca sent \<noteq> None \<longrightarrow> po_rejectUnauthorized sent = Some True)"
proof -
  from assms have "health_check parse_url reader requester urlSetting caSetting = Inr ()"
    by (cases "health_check parse_url reader requester urlSetting caSetting") (simp_all add: exit_code_def)
  then obtain target authority answer where
    t: "parse_target parse_url (case urlSetting of None \<Rightarrow> default_healthcheck_url | Some v \<Rightarrow> v) = Inr target"
    and c: "\<not> (authority \<noteq> None \<and> u_protocol target \<noteq> js ''https:'')"
    and q: "requester target \<lparr>po_ca = authority, po_rejectUnauthorized = (if authority = None then None else Some True),
              po_minVersion = (if authority = None then None else Some ''TLSv1.2''), po_timeoutMs = 3000\<rparr> = Inr answer"
    and n: "200 \<le> (case answer of None \<Rightarrow> 0 | Some n \<Rightarrow> n)" "(case answer of None \<Rightarrow> 0 | Some n \<Rightarrow> n) < (300 :: int)"
    unfolding health_check_def Let_def
    by (simp only: bind_result_Inr if_Inl_Inr if_Inr_Inl) (elim exE conjE, rule that, assumption+)
  from n obtain k where "answer = Some k" by (cases answer) auto
  moreover from t have "u_protocol target = js ''https:'' \<or> u_protocol target = js ''http:'' \<and> is_loopback_hostname (u_hostname target)"
    "u_username target = []" "u_password target = []" "u_hash target = []"
    by (auto simp: parse_target_def split: option.splits if_splits)
  ultimately show ?thesis using c q n
    by (intro exI [of _ target] exI [of _ "\<lparr>po_ca = authority, po_rejectUnauthorized = (if authority = None then None else Some True),
              po_minVersion = (if authority = None then None else Some ''TLSv1.2''), po_timeoutMs = 3000\<rparr>"] exI [of _ k]) auto
qed

end
