(* ===== verification/Spec2Isabelle.thy ===== *)
theory Spec2Isabelle
  imports RedisRateLimit LivePolicy Gateway ConfigSync EdgeMain Healthcheck
begin

text \<open>
  ShieldWard edge: an API security proxy. This development models the edge, the TypeScript program under
  \<open>edge/src\<close>, and states what makes it correct.

  \<^bold>\<open>The program.\<close> A control plane publishes signed policy bundles. The edge fetches and verifies them,
  follows announcements of new ones on an event stream, and answers every request with the policy in
  force: it resolves the route, applies the WAF rules, verifies the token, takes from the quota, and
  forwards to the upstream of the route behind a circuit breaker, with an admission gate around it, an
  audit record and metrics for each request.

  \<^bold>\<open>The platform.\<close> \<open>Prelude\<close> has exceptions as values and JavaScript maps; \<open>JsNumber\<close> doubles,
  \<open>NumberText\<close> their text; \<open>JsString\<close> strings as lists of code units; \<open>Bytes\<close>, \<open>ChunkDecoder\<close> and
  \<open>Utf8\<close> bytes, base64 and UTF-8 in chunks; \<open>Json\<close> parsing and serializing; \<open>Http\<close> headers, requests
  and responses; \<open>Transport\<close> (\<open>transport.ts\<close>) URLs and loopback hosts.

  \<^bold>\<open>The policy.\<close> \<open>BundleTypes\<close> and \<open>Bundle\<close> (\<open>bundle.ts\<close>): the data of a bundle and its parser.
  \<open>Verify\<close> (\<open>verify.ts\<close>, \<open>trusted-keys.ts\<close>): key rings, versions and signatures. \<open>RouteMatcher\<close>,
  \<open>Waf\<close>, \<open>Jwt\<close>: the parts of the engine in \<open>PolicyEngine\<close> (\<open>policy-engine.ts\<close>). \<open>Duration\<close>, \<open>Quota\<close>,
  \<open>FixedWindow\<close> (\<open>rate-limit.ts\<close>) and \<open>RedisRateLimit\<close> (\<open>redis-rate-limit.ts\<close>): both limiters against
  one specification of a fixed window, which \<open>Quota\<close> states as a locale.

  \<^bold>\<open>The request path.\<close> \<open>AdmissionGate\<close>, \<open>RequestBody\<close>, \<open>CircuitBreaker\<close>, \<open>Proxy\<close>, \<open>AuditLog\<close>, \<open>Metrics\<close>
  and \<open>Gateway\<close> (\<open>gateway.ts\<close>), whose requests interleave as steps of \<open>gateway_step\<close>; \<open>Ownership\<close> holds
  the counting lemmas for what each request owns. \<open>App\<close> (\<open>app.ts\<close>) is the application around it.

  \<^bold>\<open>The configuration path.\<close> \<open>ConfigClient\<close> (\<open>config-client.ts\<close>) with its shared refresh, \<open>LivePolicy\<close>, and
  \<open>Sse\<close> and \<open>ConfigSync\<close> (\<open>sse.ts\<close>, \<open>config-sync.ts\<close>) with the loops and the calls of start and stop.

  \<^bold>\<open>The process.\<close> \<open>RuntimeConfig\<close>, \<open>Tls\<close>, \<open>MutualTlsFetch\<close>, \<open>RateLimitRuntime\<close>, \<open>Shutdown\<close>, \<open>Healthcheck\<close> and
  \<open>EdgeMain\<close> (\<open>index.ts\<close>): from the environment to a process that serves and to its end.

  \<^bold>\<open>How it is modelled.\<close> A class is a record of its private fields and a definition per method that
  returns the new state; an exception is the left of a sum, with one constructor per error class. Code
  with \<open>await\<close> is cut at its awaits: what runs between two of them is one definition, and a step
  relation or a list of events says which pieces may follow each other, so that the theorems hold for
  every interleaving. Numbers the code checks with \<open>Number.isSafeInteger\<close> are integers after the check;
  those that take part in arithmetic with fractions are doubles. Regular expressions, cryptography,
  URL parsing, the clocks, the network, files, jose, Redis and Hono are arguments of the definitions;
  what is relied on of them is a named hypothesis (\<open>href_law\<close>, \<open>final_statuses\<close>).

  \<^bold>\<open>What is shown.\<close> Here: a request is forwarded only under a signed bundle and after every check of its
  route. In the theories: parsers accept exactly the well-formed inputs and read back what is written;
  a client never holds an unverified bundle and loses a verified one only to the next; the two limiters implement one specification and agree;
  open circuits reject, trip at their threshold and can always be probed; nothing admitted leaks and
  every answer is audited once; loops of the synchronizer never run twice; TLS material falls back to
  the last known good; a shutdown ends when the timer does; a process listens only with every
  protection in place.

  \<^bold>\<open>Bounds and termination.\<close> Recursions are structural or have a measure (the text a decoder or parser has
  left, the prefixes of a mapped address); the JSON reader takes twice the length of its text as fuel, and
  any more gives the same result (\<open>json_parse_fuel\<close>); the text of a number is searched among its first
  seventeen digits, which are enough for every double (\<open>shortest_digits_read\<close>). There is no other fuel. Loops without an end, the two loops of the
  synchronizer and the timer of the reloader, are the steps of their relations.

  \<^bold>\<open>Not modelled.\<close> The control plane, written in Go; lines on standard output; delays as durations
  (they are awaits); Hono, jose, \<open>@redis/client\<close>, canonicalize and the Node platform, which are arguments.
\<close>

section \<open>The whole request path\<close>

text \<open>
  The answers the live policy of an edge gives: to some request, under the configuration current at
  some moment of a run in which refreshes and evaluations interleave.
\<close>

definition edge_decides ::
  "'k config_env \<Rightarrow> trusted_keyring \<Rightarrow> ('j, 's) policy_services \<Rightarrow> policy_request \<Rightarrow> 'j policy_decision result \<Rightarrow> bool" where
  "edge_decides env keys svc pr r \<longleftrightarrow>
     (\<exists>c lp s lp' s'. edge_reachable env keys svc c lp
        \<and> live_evaluate (new_policy_engine (ce_engine env)) (\<lambda>e. policy_evaluate e svc)
            (cc_snapshot (sy_client c)) pr lp s = (r, lp', s'))"

lemma edge_decides_by:
  assumes "edge_decides env keys svc pr (Inr d)"
  shows "\<exists>b e s s'. trusted_bundle (ce_engine env) (ce_parse_url env) (ce_crypto env) keys b
     \<and> new_policy_engine (ce_engine env) b = Inr e \<and> policy_evaluate e svc pr s = (Inr d, s')"
proof -
  from assms obtain c lp s lp' s' where run: "edge_reachable env keys svc c lp"
    and ev: "live_evaluate (new_policy_engine (ce_engine env)) (\<lambda>e. policy_evaluate e svc)
       (cc_snapshot (sy_client c)) pr lp s = (Inr d, lp', s')"
    unfolding edge_decides_def by blast
  from live_decision [OF run ev] obtain b e where
    "trusted_bundle (ce_engine env) (ce_parse_url env) (ce_crypto env) keys b"
    "new_policy_engine (ce_engine env) b = Inr e" "policy_evaluate e svc pr s = (Inr d, s')"
    by (elim exE conjE)
  then have "trusted_bundle (ce_engine env) (ce_parse_url env) (ce_crypto env) keys b
     \<and> new_policy_engine (ce_engine env) b = Inr e \<and> policy_evaluate e svc pr s = (Inr d, s')" by simp
  then show ?thesis by (intro exI)
qed

lemma edge_denials:
  assumes "edge_decides env keys svc pr (Inr (Denied d))"
  shows "denial_ok d"
proof -
  from edge_decides_by [OF assms] obtain e s s' where "policy_evaluate e svc pr s = (Inr (Denied d), s')"
    by (elim exE conjE)
  from denied_exactly [OF this] show ?thesis by (rule conjunct1)
qed

lemma secure_target:
  "build_upstream_url parse_url upstream incoming = Inr t \<Longrightarrow> uses_secure_transport t"
  by (auto simp: build_upstream_url_def Let_def uses_secure_transport_def split: option.splits if_splits)

text \<open>C1: End to end. Whatever requests, refreshes and failures interleave at an edge, a request is only
  ever forwarded if some bundle with the signature of a trusted key has a route for its method and
  path, on which it passed every check: no blocking WAF rule of the route fires on it, its token
  verifies when the route asks for one, and the limiter admitted it when the route has a limit. It
  goes to that route's upstream, over secure transport, with the body that was inspected.\<close>

theorem edge_forwards_only_signed_policy:
  assumes "new_gateway options = Inr g" "gateway_reachable (edge_decides env keys svc) parse_url origin_of g s"
    and "go_metrics options = None \<or> go_metrics options = Some (new_metrics now)"
    and "(pr, route, up) \<in> set (gs_sent s)"
  shows "(\<exists>b e a s0 s1. trusted_bundle (ce_engine env) (ce_parse_url env) (ce_crypto env) keys b
       \<and> new_policy_engine (ce_engine env) b = Inr e \<and> route \<in> set (b_routes b)
       \<and> resolve (pe_matcher e) (pr_method pr) (u_pathname (pr_url pr)) = Inr (Matched route)
       \<and> passes_checks (ce_engine env) svc pr route s0 a s1)
     \<and> build_upstream_url parse_url (cr_upstream route) (pr_url pr) = Inr (up_url up)
     \<and> uses_secure_transport (up_url up)
     \<and> map_option text_decode (up_body up) = pr_body pr"
proof -
  note sent = sent_in_reachable [OF assms]
  then obtain a where a: "edge_decides env keys svc pr (Inr (Allowed a))" "al_route a = Some route"
    by (auto simp: sent_as_def)
  from edge_decides_by [OF a(1)] obtain b e s0 s1 where
    b: "trusted_bundle (ce_engine env) (ce_parse_url env) (ce_crypto env) keys b"
    and e: "new_policy_engine (ce_engine env) b = Inr e" and ev: "policy_evaluate e svc pr s0 = (Inr (Allowed a), s1)"
    by blast
  note checks = allowed_checks [OF e ev a(2)]
  have target: "build_upstream_url parse_url (cr_upstream route) (pr_url pr) = Inr (up_url up)"
    and body: "map_option text_decode (up_body up) = pr_body pr" using sent by (simp_all add: sent_as_def)
  have "\<exists>b e a s0 s1. trusted_bundle (ce_engine env) (ce_parse_url env) (ce_crypto env) keys b
       \<and> new_policy_engine (ce_engine env) b = Inr e \<and> route \<in> set (b_routes b)
       \<and> resolve (pe_matcher e) (pr_method pr) (u_pathname (pr_url pr)) = Inr (Matched route)
       \<and> passes_checks (ce_engine env) svc pr route s0 a s1"
    using b e checks by blast
  with target body secure_target [OF target] show ?thesis by simp
qed

definition edge_request :: request_info where
  "edge_request = \<lparr>ri_request = \<lparr>req_method = js ''GET'', req_url = pr_url published_request, req_headers = [], req_body = None\<rparr>,
     ri_clientIp = None, ri_requestId = js ''id'', ri_startedAt = num 0\<rparr>"

lemma edge_request_policy: "policy_request_of edge_request \<lparr>bb_bytes = None, bb_text = None\<rparr> = published_request"
  by (simp add: policy_request_of_def edge_request_def published_request_def demo_request_def)

lemma edge_allows: "edge_decides demo_world published_keys demo_services published_request (Inr (Allowed published_allowance))"
  unfolding edge_decides_def
  using edge_reachable.start [OF loaded_reachable] published_live_evaluate by blast

lemma edge_target: "\<exists>t. build_upstream_url (ce_parse_url demo_world) (cr_upstream published_route) (pr_url published_request) = Inr t"
proof -
  have "js ''https:'' = js ''https:''" "js ''/'' = js ''/''" by simp_all
  then show ?thesis by (simp add: build_upstream_url_def demo_world_def uses_secure_transport_def Let_def)
qed

theorem edge_forwards_only_signed_policy_witness:
  "\<exists>s up. (published_request, published_route, up) \<in> set (gs_sent s)
     \<and> gateway_reachable (edge_decides demo_world published_keys demo_services) (ce_parse_url demo_world) (\<lambda>u. None) demo_gateway s
     \<and> uses_secure_transport (up_url up)"
proof -
  from edge_target obtain t where t:
    "build_upstream_url (ce_parse_url demo_world) (cr_upstream published_route) (pr_url published_request) = Inr t" by blast
  have "al_route published_allowance = Some published_route" by (simp add: published_allowance_def)
  have "req_method (ri_request edge_request) = js ''GET''" "req_body (ri_request edge_request) = None"
    "req_url (ri_request edge_request) = pr_url published_request" by (simp_all add: edge_request_def)
  with demo_forwards [of edge_request "edge_decides demo_world published_keys demo_services" published_allowance
      published_route "ce_parse_url demo_world" t "\<lambda>u. None", unfolded edge_request_policy] edge_allows this t
  obtain s up where s: "gateway_reachable (edge_decides demo_world published_keys demo_services) (ce_parse_url demo_world) (\<lambda>u. None) demo_gateway s"
      "(published_request, published_route, up) \<in> set (gs_sent s)"
    using \<open>al_route published_allowance = Some published_route\<close> by auto
  from edge_forwards_only_signed_policy [OF demo_gateway_new s(1) _ s(2), of "num 0"] s show ?thesis
    by (auto simp: demo_options_def)
qed

end
